(* ===== verification/Prelude.thy ===== *)
theory Prelude
  imports Main
begin

section \<open>Shared vocabulary of the Kurama model\<close>

text \<open>
  What every component uses: Go's error results, the 64-bit integers, the random
  sources and small facts on lists and maps.

  \<^item> A Go function that returns only an \<open>error\<close> returns \<open>'e option\<close> here, with
    \<open>None\<close> for \<open>nil\<close>; one that returns a value and an error returns \<open>'e + 'a\<close>.
  \<^item> A run-time panic (division by zero, a random bound that is not positive, an index
    out of range) is the value \<open>None\<close> of an \<open>'a option\<close>, so that its absence is a
    theorem and not a convention.
  \<^item> Go's \<open>int\<close>, \<open>int64\<close> and \<open>time.Duration\<close> are 64-bit signed integers. They are
    \<open>int\<close> here, and every arithmetic operation whose result could leave the range is
    wrapped with \<open>i64\<close>.
\<close>

named_theorems go_defs \<open>definitions of the model that a proof or an evaluation unfolds\<close>
named_theorems err_simps \<open>when a chain of Go checks returns nil\<close>

subsection \<open>Error-only results\<close>

definition then_err :: "'e option \<Rightarrow> 'e option \<Rightarrow> 'e option" where
  "then_err first rest = (case first of None \<Rightarrow> rest | Some e \<Rightarrow> Some e)"

text \<open>\<open>if cond { return err }\<close> in front of the rest of a function.\<close>

definition fail_if :: "bool \<Rightarrow> 'e \<Rightarrow> 'e option" where
  "fail_if cond e = (if cond then Some e else None)"

lemma then_err_None [err_simps]: "then_err a b = None \<longleftrightarrow> a = None \<and> b = None"
  by (simp add: then_err_def split: option.splits)

lemma fail_if_None [err_simps]: "fail_if c e = None \<longleftrightarrow> \<not> c"
  by (simp add: fail_if_def)

lemma then_err_simps [simp]:
  "then_err None b = b" "then_err (Some e) b = Some e"
  by (simp_all add: then_err_def)

lemma fail_if_simps [simp]:
  "fail_if True e = Some e" "fail_if False e = None"
  by (simp_all add: fail_if_def)

text \<open>A \<open>for i, x := range xs\<close> loop whose body only checks and returns the first error.\<close>

fun each_err :: "(nat \<Rightarrow> 'a \<Rightarrow> 'e option) \<Rightarrow> nat \<Rightarrow> 'a list \<Rightarrow> 'e option" where
  "each_err f i [] = None"
| "each_err f i (x # xs) = then_err (f i x) (each_err f (Suc i) xs)"

lemma each_err_None [err_simps]:
  "each_err f i xs = None \<longleftrightarrow> (\<forall>j < length xs. f (i + j) (xs ! j) = None)"
proof (induction xs arbitrary: i)
  case Nil
  then show ?case by simp
next
  case (Cons x xs)
  have "(\<forall>j < length (x # xs). f (i + j) ((x # xs) ! j) = None) \<longleftrightarrow>
    f i x = None \<and> (\<forall>j < length xs. f (Suc i + j) (xs ! j) = None)"
    by (auto simp: less_Suc_eq_0_disj)
  then show ?case by (simp add: then_err_None Cons.IH)
qed

subsection \<open>Contexts\<close>

text \<open>
  A function that takes a \<open>context.Context\<close> only to ask \<open>ctx.Err()\<close> takes the answer.
\<close>

datatype ctx_error = Canceled | DeadlineExceeded

type_synonym ctx = "ctx_error option"

subsection \<open>64-bit signed integers\<close>

definition i64 :: "int \<Rightarrow> int" where
  "i64 x = (x + 9223372036854775808) mod 18446744073709551616 - 9223372036854775808"

definition max_int64 :: int where
  "max_int64 = 9223372036854775807"

lemma i64_id: "- 9223372036854775808 \<le> x \<Longrightarrow> x < 9223372036854775808 \<Longrightarrow> i64 x = x"
  by (simp add: i64_def)

lemma i64_range: "- 9223372036854775808 \<le> i64 x \<and> i64 x < 9223372036854775808"
proof -
  have "0 \<le> (x + 9223372036854775808) mod 18446744073709551616"
    and "(x + 9223372036854775808) mod 18446744073709551616 < 18446744073709551616"
    by simp_all
  then show ?thesis unfolding i64_def by linarith
qed

lemma i64_wraps: "i64 (max_int64 + 1) = - 9223372036854775808"
  by (simp add: i64_def max_int64_def)

text \<open>Go's \<open>/\<close> on integers truncates towards zero and panics on a zero divisor.\<close>

definition go_quot :: "int \<Rightarrow> int \<Rightarrow> int option" where
  "go_quot a b = (if b = 0 then None else Some (i64 (sgn a * sgn b * (\<bar>a\<bar> div \<bar>b\<bar>))))"

lemma go_quot_pos:
  assumes "0 \<le> a" and "a < 9223372036854775808" and "0 < b"
  shows "go_quot a b = Some (a div b)"
proof -
  have "a div b \<le> a" using assms zdiv_mono2 [of a 1 b] by simp
  moreover have "0 \<le> a div b" using assms by (simp add: pos_imp_zdiv_nonneg_iff)
  ultimately have "i64 (a div b) = a div b" using assms by (intro i64_id) linarith+
  moreover have "sgn a * sgn b * (\<bar>a\<bar> div \<bar>b\<bar>) = a div b"
    using assms by (cases "a = 0") simp_all
  ultimately show ?thesis using assms(3) by (simp only: go_quot_def) simp
qed

subsection \<open>Random sources\<close>

text \<open>
  \<open>math/rand/v2\<close> is seen through the values it returns: a tape of numbers, one per call.
  \<open>IntN n\<close> and \<open>Int64N n\<close> panic unless \<open>n\<close> is positive and otherwise return a value
  in \<open>[0, n)\<close>; reducing the tape's number modulo \<open>n\<close> gives every such value for some
  tape, so a statement about all tapes is one about all outcomes.
\<close>

type_synonym rng = "nat \<Rightarrow> nat"

definition rand_n :: "int \<Rightarrow> rng \<Rightarrow> (int \<times> rng) option" where
  "rand_n n r = (if n \<le> 0 then None else Some (int (r 0) mod n, \<lambda>i. r (Suc i)))"

lemma rand_n_bounds: "rand_n n r = Some (d, r') \<Longrightarrow> 0 \<le> d \<and> d < n"
  by (auto simp: rand_n_def split: if_splits)

lemma rand_n_total: "0 < n \<Longrightarrow> \<exists>d r'. rand_n n r = Some (d, r') \<and> 0 \<le> d \<and> d < n"
  by (auto simp: rand_n_def)

lemma rand_n_panic: "rand_n n r = None \<longleftrightarrow> n \<le> 0"
  by (simp add: rand_n_def)

lemma rand_n_every: "0 \<le> d \<Longrightarrow> d < n \<Longrightarrow> \<exists>r. fst (the (rand_n n r)) = d"
  by (rule exI [of _ "\<lambda>_. nat d"]) (simp add: rand_n_def)

subsection \<open>Lists\<close>

text \<open>The newest \<open>n\<close> elements of a list whose oldest element comes first.\<close>

definition take_last :: "nat \<Rightarrow> 'a list \<Rightarrow> 'a list" where
  "take_last n xs = drop (length xs - n) xs"

lemma length_take_last [simp]: "length (take_last n xs) = min n (length xs)"
  by (simp add: take_last_def)

lemma take_last_all: "length xs \<le> n \<Longrightarrow> take_last n xs = xs"
  by (simp add: take_last_def)

lemma take_last_snoc: "take_last (Suc n) (xs @ [x]) = take_last n xs @ [x]"
  by (simp add: take_last_def)

lemma set_take_last: "set (take_last n xs) \<subseteq> set xs"
  by (simp add: take_last_def set_drop_subset)

lemma take_last_take_last_snoc:
  "take_last n (take_last n xs @ [x]) = take_last n (xs @ [x])"
proof (cases n)
  case 0
  then show ?thesis by (simp add: take_last_def)
next
  case (Suc m)
  have "take_last m (take_last (Suc m) xs) = take_last m xs"
    unfolding take_last_def by (simp, rule arg_cong [where f = "\<lambda>k. drop k xs"]) arith
  then show ?thesis by (simp add: Suc take_last_snoc)
qed

end
