(* ===== verification/Traffic_Profile.thy ===== *)
theory Traffic_Profile
  imports Prelude
begin

section \<open>Traffic profiles\<close>

text \<open>
  The package \<open>internal/runner/profile\<close>: how many permits the scheduler reserves at once
  (\<open>BatchSize\<close>) and how long it waits after each request of the batch (\<open>NextDelay\<close>).
  Durations are nanoseconds. The \<open>Timing\<close> interface of the code is the datatype
  \<open>timing\<close> with one constructor per implementation; its two methods thread the random
  tape and return \<open>None\<close> where the code would panic.
\<close>

subsection \<open>Model\<close>

definition second :: int where "second = 1000000000"
definition minute :: int where "minute = 60 * second"

definition DefaultBurstDelayDivisor :: int where "DefaultBurstDelayDivisor = 10"
definition MinimumBurstDelayDivisor :: int where "MinimumBurstDelayDivisor = 2"
definition MaximumBurstDelayDivisor :: int where "MaximumBurstDelayDivisor = 100"

record profile_config =
  pc_type :: string
  pc_min_burst_size :: int
  pc_max_burst_size :: int
  pc_delay_divisor :: int

record delay_context =
  dc_requests_per_minute :: int
  dc_position :: int
  dc_batch_size :: int

datatype timing =
    FixedProfile
  | UniformProfile
  | BurstProfile (min_burst: int) (max_burst: int) (divisor: int)

datatype profile_error =
    FixedMustNotSetBurst
  | UniformMustNotSetBurst
  | RandomSourceNil
  | MinBurstSizeTooSmall
  | MaxBurstSizeBelowMin
  | DelayDivisorOutOfRange
  | ProfileTypeUnsupported string

text \<open>The flag says whether the random source that was passed is not nil.\<close>

definition newWithRandomSource :: "profile_config \<Rightarrow> bool \<Rightarrow> profile_error + timing" where
  "newWithRandomSource c random =
     (if pc_type c = '''' \<or> pc_type c = ''fixed'' then
        (if pc_min_burst_size c \<noteq> 0 \<or> pc_max_burst_size c \<noteq> 0 \<or> pc_delay_divisor c \<noteq> 0
         then Inl FixedMustNotSetBurst
         else Inr FixedProfile)
      else if pc_type c = ''uniform'' then
        (if pc_min_burst_size c \<noteq> 0 \<or> pc_max_burst_size c \<noteq> 0 \<or> pc_delay_divisor c \<noteq> 0
         then Inl UniformMustNotSetBurst
         else if \<not> random then Inl RandomSourceNil
         else Inr UniformProfile)
      else if pc_type c = ''burst'' then
        (if pc_min_burst_size c < 2 then Inl MinBurstSizeTooSmall
         else if pc_max_burst_size c < pc_min_burst_size c then Inl MaxBurstSizeBelowMin
         else
           (let delayDivisor =
              (if pc_delay_divisor c = 0 then DefaultBurstDelayDivisor else pc_delay_divisor c)
            in if delayDivisor < MinimumBurstDelayDivisor
                  \<or> MaximumBurstDelayDivisor < delayDivisor
               then Inl DelayDivisorOutOfRange
               else if \<not> random then Inl RandomSourceNil
               else Inr (BurstProfile (pc_min_burst_size c) (pc_max_burst_size c) delayDivisor)))
      else Inl (ProfileTypeUnsupported (pc_type c)))"

definition newProfile :: "profile_config \<Rightarrow> profile_error + timing" where
  "newProfile c = newWithRandomSource c True"

definition meanDelay :: "int \<Rightarrow> int option" where
  "meanDelay requestsPerMinute = go_quot minute requestsPerMinute"

fun BatchSize :: "timing \<Rightarrow> int \<Rightarrow> rng \<Rightarrow> (int \<times> rng) option" where
  "BatchSize FixedProfile requestsPerMinute r = Some (1, r)"
| "BatchSize UniformProfile requestsPerMinute r = Some (1, r)"
| "BatchSize (BurstProfile minB maxB d) requestsPerMinute r =
     (let maxSize = min maxB requestsPerMinute;
          minSize = min minB maxSize
      in case rand_n (i64 (i64 (maxSize - minSize) + 1)) r of
           None \<Rightarrow> None
         | Some (extra, r') \<Rightarrow> Some (i64 (minSize + extra), r'))"

definition burstDelay :: "int \<Rightarrow> int \<Rightarrow> delay_context \<Rightarrow> int" where
  "burstDelay mean intra input =
     (let intraBurstDelay = (if intra < 1 then 1 else intra)
      in if dc_position input < dc_batch_size input then intraBurstDelay
         else i64 (i64 (dc_batch_size input * mean)
                   - i64 (i64 (dc_batch_size input - 1) * intraBurstDelay)))"

fun NextDelay :: "timing \<Rightarrow> delay_context \<Rightarrow> rng \<Rightarrow> (int \<times> rng) option" where
  "NextDelay FixedProfile input r =
     (case meanDelay (dc_requests_per_minute input) of
        None \<Rightarrow> None
      | Some mean \<Rightarrow> Some (mean, r))"
| "NextDelay UniformProfile input r =
     (case meanDelay (dc_requests_per_minute input) of
        None \<Rightarrow> None
      | Some mean \<Rightarrow>
         (case rand_n (i64 (2 * mean)) r of
            None \<Rightarrow> None
          | Some (d, r') \<Rightarrow> Some (i64 (d + 1), r')))"
| "NextDelay (BurstProfile minB maxB d) input r =
     (case meanDelay (dc_requests_per_minute input) of
        None \<Rightarrow> None
      | Some mean \<Rightarrow>
         (case go_quot mean d of
            None \<Rightarrow> None
          | Some intra \<Rightarrow> Some (burstDelay mean intra input, r)))"

text \<open>
  The delays of one reserved batch, in the order the scheduler asks for them: positions
  \<open>pos, pos + 1, \<dots>, n\<close>.
\<close>

fun batch_delays :: "timing \<Rightarrow> int \<Rightarrow> int \<Rightarrow> int \<Rightarrow> nat \<Rightarrow> rng \<Rightarrow> (int list \<times> rng) option" where
  "batch_delays t rpm n pos 0 r = Some ([], r)"
| "batch_delays t rpm n pos (Suc k) r =
     (case NextDelay t \<lparr>dc_requests_per_minute = rpm, dc_position = pos, dc_batch_size = n\<rparr> r of
        None \<Rightarrow> None
      | Some (d, r') \<Rightarrow>
         (case batch_delays t rpm n (pos + 1) k r' of
            None \<Rightarrow> None
          | Some (ds, r'') \<Rightarrow> Some (d # ds, r'')))"

subsection \<open>What the constructors guarantee\<close>

fun timing_ok :: "timing \<Rightarrow> bool" where
  "timing_ok (BurstProfile minB maxB d) \<longleftrightarrow> 2 \<le> minB \<and> minB \<le> maxB \<and> 2 \<le> d \<and> d \<le> 100"
| "timing_ok _ \<longleftrightarrow> True"

lemmas profile_constants = second_def minute_def DefaultBurstDelayDivisor_def
  MinimumBurstDelayDivisor_def MaximumBurstDelayDivisor_def

lemma newWithRandomSource_ok: "newWithRandomSource c random = Inr t \<Longrightarrow> timing_ok t"
  by (auto simp: newWithRandomSource_def Let_def profile_constants split: if_splits)

lemma newProfile_ok: "newProfile c = Inr t \<Longrightarrow> timing_ok t"
  by (simp add: newProfile_def newWithRandomSource_ok)

lemma newProfile_cases:
  assumes "newProfile c = Inr t"
  obtains (fixed) "t = FixedProfile" "pc_type c = '''' \<or> pc_type c = ''fixed''"
    | (uniform) "t = UniformProfile" "pc_type c = ''uniform''"
    | (burst) d where "t = BurstProfile (pc_min_burst_size c) (pc_max_burst_size c) d"
        "pc_type c = ''burst''" "timing_ok t"
  using assms newProfile_ok [OF assms]
  by (auto simp: newProfile_def newWithRandomSource_def Let_def split: if_splits)

lemma meanDelay_eq: "1 \<le> rpm \<Longrightarrow> meanDelay rpm = Some (minute div rpm)"
  unfolding meanDelay_def by (rule go_quot_pos) (simp_all add: profile_constants)

lemma mean_ge:
  assumes "1 \<le> rpm" and "rpm \<le> 6000"
  shows "10000000 \<le> minute div rpm"
proof -
  have "minute div 6000 \<le> minute div rpm"
    using assms by (intro zdiv_mono2) (simp_all add: profile_constants)
  then show ?thesis by (simp add: profile_constants)
qed

lemma mean_le: "1 \<le> rpm \<Longrightarrow> minute div rpm \<le> minute"
  using zdiv_mono2 [of minute 1 rpm] by (simp add: profile_constants)

lemma mean_budget:
  assumes "1 \<le> rpm" and "0 \<le> n" and "n \<le> rpm"
  shows "n * (minute div rpm) \<le> minute"
proof -
  have "0 \<le> minute div rpm"
    using assms by (simp add: pos_imp_zdiv_nonneg_iff profile_constants)
  then have "n * (minute div rpm) \<le> rpm * (minute div rpm)"
    using assms by (intro mult_right_mono)
  also have "\<dots> \<le> minute" using assms pos_mod_sign [of rpm minute]
    by (simp add: minus_mod_eq_mult_div [symmetric])
  finally show ?thesis .
qed

subsection \<open>Batch sizes\<close>

lemma BatchSize_burst:
  assumes "2 \<le> minB" and "minB \<le> maxB" and "1 \<le> rpm" and "rpm \<le> max_int64"
  shows "\<exists>b r'. BatchSize (BurstProfile minB maxB d) rpm r = Some (b, r')
    \<and> min minB rpm \<le> b \<and> b \<le> min maxB rpm"
proof -
  define hi where "hi = min maxB rpm"
  define lo where "lo = min minB hi"
  have b: "1 \<le> lo" "lo \<le> hi" "hi \<le> max_int64" and lo: "lo = min minB rpm"
    using assms by (auto simp: hi_def lo_def)
  have i: "i64 (hi - lo) = hi - lo" "i64 (hi - lo + 1) = hi - lo + 1"
    using b by (auto simp: max_int64_def intro!: i64_id)
  obtain x r' where x: "rand_n (hi - lo + 1) r = Some (x, r')" "0 \<le> x" "x < hi - lo + 1"
    using rand_n_total [of "hi - lo + 1" r] b by auto
  have "i64 (lo + x) = lo + x"
    using b x by (auto simp: max_int64_def intro!: i64_id)
  then have "BatchSize (BurstProfile minB maxB d) rpm r = Some (lo + x, r')"
    using i x by (simp add: Let_def flip: hi_def lo_def)
  then show ?thesis using x lo hi_def by auto
qed

lemma BatchSize_total:
  assumes "timing_ok t" and "1 \<le> rpm" and "rpm \<le> max_int64"
  shows "\<exists>b r'. BatchSize t rpm r = Some (b, r') \<and> 1 \<le> b \<and> b \<le> rpm"
proof (cases t)
  case (BurstProfile minB maxB d)
  with assms BatchSize_burst [of minB maxB rpm d r] show ?thesis by fastforce
qed (use assms in simp_all)

subsection \<open>Delays\<close>

lemma burst_intra:
  assumes "1 \<le> rpm" and "rpm \<le> 6000" and "2 \<le> d" and "d \<le> 100"
  shows "go_quot (minute div rpm) d = Some (minute div rpm div d)"
    and "1 \<le> minute div rpm div d" and "minute div rpm div d \<le> minute div rpm"
proof -
  note ge = mean_ge [OF assms(1,2)] and le = mean_le [OF assms(1)]
  show "go_quot (minute div rpm) d = Some (minute div rpm div d)"
    using ge le assms by (intro go_quot_pos) (simp_all add: profile_constants)
  have "10000000 div 100 \<le> minute div rpm div 100" using ge by (rule zdiv_mono1) simp
  also have "\<dots> \<le> minute div rpm div d" using ge assms by (intro zdiv_mono2) simp_all
  finally show "1 \<le> minute div rpm div d" by simp
  show "minute div rpm div d \<le> minute div rpm"
    using zdiv_mono2 [of "minute div rpm" 1 d] ge assms by simp
qed

lemma NextDelay_burst:
  assumes "1 \<le> rpm" "rpm \<le> 6000" "2 \<le> d" "d \<le> 100" "1 \<le> n" "n \<le> rpm"
  defines "mean \<equiv> minute div rpm"
  defines "intra \<equiv> minute div rpm div d"
  shows "NextDelay (BurstProfile minB maxB d)
      \<lparr>dc_requests_per_minute = rpm, dc_position = pos, dc_batch_size = n\<rparr> r =
    Some (if pos < n then intra else n * mean - (n - 1) * intra, r)"
proof -
  have i: "go_quot mean d = Some intra" "1 \<le> intra" "intra \<le> mean"
    using burst_intra [OF assms(1-4)] by (simp_all add: mean_def intra_def)
  have a: "0 \<le> n * mean" "n * mean \<le> minute"
    using mean_budget [of rpm n] assms i by (simp_all add: mean_def)
  have b: "0 \<le> (n - 1) * intra" using assms i by simp
  have c: "(n - 1) * intra \<le> n * mean"
  proof -
    have "(n - 1) * intra \<le> (n - 1) * mean" using assms i by (intro mult_left_mono) auto
    also have "\<dots> \<le> n * mean" using i by (intro mult_right_mono) auto
    finally show ?thesis .
  qed
  have w: "i64 (n * mean) = n * mean" "i64 ((n - 1) * intra) = (n - 1) * intra"
    "i64 (n * mean - (n - 1) * intra) = n * mean - (n - 1) * intra"
    "i64 (n - 1) = n - 1"
    using a b c assms by (auto intro!: i64_id simp: profile_constants)
  have m: "meanDelay rpm = Some mean" using assms by (simp add: meanDelay_eq)
  show ?thesis
    using i(2) by (simp add: m i(1) burstDelay_def w)
qed

lemma burst_batch_delays:
  assumes ok: "1 \<le> rpm" "rpm \<le> 6000" "2 \<le> d" "d \<le> 100" "1 \<le> n" "n \<le> rpm"
    and pos: "pos + int k = n"
  defines "mean \<equiv> minute div rpm"
  defines "intra \<equiv> minute div rpm div d"
  shows "batch_delays (BurstProfile minB maxB d) rpm n pos (Suc k) r =
    Some (replicate k intra @ [n * mean - (n - 1) * intra], r)"
  using pos
proof (induction k arbitrary: pos)
  case 0
  then show ?case
    by (simp add: NextDelay_burst [OF ok] mean_def intra_def del: NextDelay.simps)
next
  case (Suc k)
  have "pos < n" using Suc.prems by simp
  moreover have "(pos + 1) + int k = n" using Suc.prems by simp
  ultimately show ?case
    using Suc.IH [of "pos + 1"] NextDelay_burst [OF ok, of minB maxB pos r]
    by (simp add: intra_def del: NextDelay.simps)
qed

lemma fixed_batch_delays:
  assumes "1 \<le> rpm"
  shows "batch_delays FixedProfile rpm n pos k r = Some (replicate k (minute div rpm), r)"
  using assms by (induction k arbitrary: pos) (simp_all add: meanDelay_eq)

lemma NextDelay_uniform:
  assumes "1 \<le> rpm" "rpm \<le> 6000" and "dc_requests_per_minute x = rpm"
  shows "\<exists>d r'. NextDelay UniformProfile x r = Some (d, r') \<and> 1 \<le> d \<and> d \<le> 2 * (minute div rpm)"
proof -
  define m where "m = minute div rpm"
  have m: "10000000 \<le> m" "m \<le> minute"
    using mean_ge [of rpm] mean_le [of rpm] assms by (simp_all add: m_def)
  obtain y r' where y: "rand_n (2 * m) r = Some (y, r')" "0 \<le> y" "y < 2 * m"
    using rand_n_total [of "2 * m" r] m by auto
  have "i64 (2 * m) = 2 * m" "i64 (y + 1) = y + 1"
    using m y by (auto intro!: i64_id simp: profile_constants)
  then have "NextDelay UniformProfile x r = Some (y + 1, r')"
    using assms y by (simp add: meanDelay_eq flip: m_def)
  then show ?thesis using y m by (auto simp flip: m_def)
qed


subsection \<open>Properties\<close>

text \<open>Every accepted profile reserves a batch without a panic, of at least one request
  and never more than the budget of a minute; a burst stays between its configured sizes.\<close>

theorem batch_size_bounds:
  assumes "newProfile c = Inr t" and "1 \<le> rpm" and "rpm \<le> max_int64"
  shows "\<exists>b r'. BatchSize t rpm r = Some (b, r') \<and> 1 \<le> b \<and> b \<le> rpm
    \<and> (pc_type c = ''burst'' \<longrightarrow>
        min (pc_min_burst_size c) rpm \<le> b \<and> b \<le> min (pc_max_burst_size c) rpm)
    \<and> (pc_type c \<noteq> ''burst'' \<longrightarrow> b = 1)"
  using assms(1)
proof (cases rule: newProfile_cases)
  case (burst d)
  then have "2 \<le> pc_min_burst_size c" "pc_min_burst_size c \<le> pc_max_burst_size c" by simp_all
  then show ?thesis
    using BatchSize_burst [of "pc_min_burst_size c" "pc_max_burst_size c" rpm d r] burst assms(2,3)
    by fastforce
qed (use assms in auto)

theorem batch_size_bounds_witness:
  "\<exists>b r'. BatchSize (BurstProfile 3 5 10) 4 (\<lambda>_. 7) = Some (b, r') \<and> 1 \<le> b \<and> b \<le> 4"
  using batch_size_bounds [of "\<lparr>pc_type = ''burst'', pc_min_burst_size = 3, pc_max_burst_size = 5,
      pc_delay_divisor = 0\<rparr>" "BurstProfile 3 5 10" 4 "\<lambda>_. 7"]
  by (auto simp: newProfile_def newWithRandomSource_def Let_def profile_constants max_int64_def)

text \<open>C26. The mean rate is kept: the delays of one batch of a fixed or burst profile are all
  positive and add up to exactly one mean delay per request, so that a batch takes at most a
  minute; no delay overflows or panics.\<close>

theorem batch_keeps_mean_rate:
  assumes "newProfile c = Inr t" and "pc_type c \<noteq> ''uniform''"
    and "1 \<le> rpm" and "rpm \<le> 6000" and "1 \<le> n" and "n \<le> rpm"
  shows "\<exists>ds. batch_delays t rpm n 1 (nat n) r = Some (ds, r) \<and> length ds = nat n
    \<and> sum_list ds = n * (minute div rpm) \<and> sum_list ds \<le> minute \<and> list_all (\<lambda>d. 1 \<le> d) ds"
  using assms(1)
proof (cases rule: newProfile_cases)
  case fixed
  then show ?thesis
    using assms mean_budget [of rpm n] mean_ge [of rpm] fixed_batch_delays [of rpm n 1 "nat n" r]
    by (simp add: sum_list_replicate list_all_iff)
next
  case uniform
  then show ?thesis using assms(2) by simp
next
  case (burst d)
  define mean intra where "mean = minute div rpm" and "intra = minute div rpm div d"
  have d: "2 \<le> d" "d \<le> 100" using burst by simp_all
  have i: "1 \<le> intra" "intra \<le> mean" using burst_intra [OF assms(3,4) d] by (simp_all add: mean_def intra_def)
  have "(n - 1) * intra \<le> (n - 1) * mean" using assms(5) i by (intro mult_left_mono) auto
  then have last: "1 \<le> n * mean - (n - 1) * intra" using i by (simp add: algebra_simps)
  have "batch_delays t rpm n 1 (Suc (nat (n - 1))) r =
      Some (replicate (nat (n - 1)) intra @ [n * mean - (n - 1) * intra], r)"
    unfolding burst(1) mean_def intra_def using assms(5)
    by (intro burst_batch_delays [OF assms(3,4) d assms(5,6)]) simp
  moreover have "Suc (nat (n - 1)) = nat n" using assms(5) by simp
  ultimately show ?thesis
    using last i assms(5) mean_budget [of rpm n] assms(3,6)
    by (simp add: sum_list_replicate list_all_iff mean_def)
qed

theorem batch_keeps_mean_rate_witness:
  "\<exists>ds. batch_delays (BurstProfile 3 5 10) 60 3 1 (nat 3) (\<lambda>_. 7) = Some (ds, \<lambda>_. 7)
     \<and> length ds = nat 3 \<and> sum_list ds = 3 * (minute div 60) \<and> sum_list ds \<le> minute
     \<and> list_all (\<lambda>d. 1 \<le> d) ds"
  by (rule batch_keeps_mean_rate [of "\<lparr>pc_type = ''burst'', pc_min_burst_size = 3,
      pc_max_burst_size = 5, pc_delay_divisor = 0\<rparr>"])
    (simp_all add: newProfile_def newWithRandomSource_def Let_def profile_constants)

lemma NextDelay_uniform_range:
  assumes "1 \<le> dc_requests_per_minute x" and "dc_requests_per_minute x \<le> 6000"
  shows "{d. \<exists>r r'. NextDelay UniformProfile x r = Some (d, r')}
      = {1 .. 2 * (minute div dc_requests_per_minute x)}"
    and "NextDelay UniformProfile x r \<noteq> None"
proof -
  define m where "m = minute div dc_requests_per_minute x"
  have m: "10000000 \<le> m" "m \<le> minute"
    using mean_ge [OF assms] mean_le [OF assms(1)] by (simp_all add: m_def)
  note total = NextDelay_uniform [OF assms refl, folded m_def]
  have within: "1 \<le> d \<and> d \<le> 2 * m" if "NextDelay UniformProfile x r = Some (d, r')" for d r r'
    using total [of r] that by (auto simp del: NextDelay.simps)
  have every: "\<exists>r r'. NextDelay UniformProfile x r = Some (d, r')" if "1 \<le> d" "d \<le> 2 * m" for d
  proof (intro exI)
    have "i64 (2 * m) = 2 * m" "i64 d = d"
      using m that by (auto intro!: i64_id simp: profile_constants)
    then show "NextDelay UniformProfile x (\<lambda>_. nat (d - 1)) = Some (d, \<lambda>_. nat (d - 1))"
      using assms that m by (simp add: meanDelay_eq rand_n_def flip: m_def)
  qed
  show "{d. \<exists>r r'. NextDelay UniformProfile x r = Some (d, r')}
      = {1 .. 2 * (minute div dc_requests_per_minute x)}"
    unfolding m_def [symmetric] using within every by (auto simp del: NextDelay.simps)
  show "NextDelay UniformProfile x r \<noteq> None" using total [of r] by (auto simp del: NextDelay.simps)
qed

text \<open>A uniform profile's delay never panics and ranges over exactly the delays from one
  nanosecond to twice the mean delay.\<close>

theorem uniform_delay_range:
  assumes "1 \<le> dc_requests_per_minute x" and "dc_requests_per_minute x \<le> 6000"
  shows "{d. \<exists>r r'. NextDelay UniformProfile x r = Some (d, r')}
      = {1 .. 2 * (minute div dc_requests_per_minute x)}
    \<and> (\<forall>r. NextDelay UniformProfile x r \<noteq> None)"
  using NextDelay_uniform_range [OF assms] by blast

theorem uniform_delay_range_witness:
  "{d. \<exists>r r'. NextDelay UniformProfile
      \<lparr>dc_requests_per_minute = 60, dc_position = 1, dc_batch_size = 1\<rparr> r = Some (d, r')}
    = {1 .. 2 * (minute div 60)}"
  using uniform_delay_range [of "\<lparr>dc_requests_per_minute = 60, dc_position = 1, dc_batch_size = 1\<rparr>"]
  by simp

end
