(* ===== verification/Rate_Limiter.thy ===== *)
theory Rate_Limiter
  imports Traffic_Profile
begin

section \<open>Rate limiters\<close>

text \<open>
  The package \<open>internal/runner/ratelimit\<close> without its Redis back end (theory
  \<open>Redis_Limiter\<close>): the budget and permit checks, the in-process fixed-window limiter,
  the instrumented decorator and the Prometheus observer. \<open>TryAcquire\<close> returns Go's pair
  \<open>(Decision, error)\<close>. Times are nanoseconds since Go's zero time.

  The two locales are the contracts of the \<open>Limiter\<close> interface: \<open>permit_limiter\<close> is
  what the scheduler relies on for one call, and \<open>window_limiter\<close> adds how a limiter
  accounts for the calls of one window, from which the budget of a window follows once
  for every implementation.
\<close>

subsection \<open>Limits and decisions\<close>

record limit =
  lim_requests :: int
  lim_window :: int

record decision =
  granted :: int
  retry_after :: int

definition no_decision :: decision where
  "no_decision = \<lparr>granted = 0, retry_after = 0\<rparr>"

datatype limit_problem =
    RequestsNotPositive
  | WindowNotPositive
  | PermitsNotPositive
  | PermitsExceedBudget

datatype limiter_error =
    LimiterContext ctx_error
  | InvalidLimit limit_problem
  | InvalidPermits limit_problem
  | WindowBelowMicrosecond
  | RedisAcquire
  | RedisResultLength nat

definition validateLimit :: "limit \<Rightarrow> limit_problem option" where
  "validateLimit l =
     (if lim_requests l < 1 then Some RequestsNotPositive
      else if lim_window l \<le> 0 then Some WindowNotPositive
      else None)"

definition validatePermits :: "limit \<Rightarrow> int \<Rightarrow> limit_problem option" where
  "validatePermits l permits =
     (if permits < 1 then Some PermitsNotPositive
      else if lim_requests l < permits then Some PermitsExceedBudget
      else None)"

text \<open>The three checks in front of both implementations of \<open>TryAcquire\<close>.\<close>

definition acquire_checks :: "ctx \<Rightarrow> limit \<Rightarrow> int \<Rightarrow> limiter_error option" where
  "acquire_checks ctx l permits =
     then_err (map_option LimiterContext ctx)
       (then_err (map_option InvalidLimit (validateLimit l))
          (map_option InvalidPermits (validatePermits l permits)))"

lemma acquire_checks_None [err_simps]:
  "acquire_checks ctx l permits = None \<longleftrightarrow>
    ctx = None \<and> 0 < lim_window l \<and> 1 \<le> permits \<and> permits \<le> lim_requests l"
  by (auto simp: acquire_checks_def err_simps validateLimit_def validatePermits_def)

subsection \<open>The local limiter\<close>

record local_limiter =
  ll_window_start :: int
  ll_window :: int
  ll_used :: int

definition newLocalLimiter :: local_limiter where
  "newLocalLimiter = \<lparr>ll_window_start = 0, ll_window = 0, ll_used = 0\<rparr>"

text \<open>\<open>t.Truncate(d)\<close> for a positive \<open>d\<close>: the last multiple of \<open>d\<close> since the zero time.\<close>

definition truncate_time :: "int \<Rightarrow> int \<Rightarrow> int" where
  "truncate_time t d = t - t mod d"

definition localTryAcquire ::
  "ctx \<Rightarrow> int \<Rightarrow> limit \<Rightarrow> int \<Rightarrow> local_limiter
    \<Rightarrow> (decision \<times> limiter_error option) \<times> local_limiter" where
  "localTryAcquire ctx now lim permits l =
     (case acquire_checks ctx lim permits of
        Some e \<Rightarrow> ((no_decision, Some e), l)
      | None \<Rightarrow>
         (let windowStart = truncate_time now (lim_window lim);
              l1 = (if ll_window l \<noteq> lim_window lim \<or> ll_window_start l \<noteq> windowStart
                    then l\<lparr>ll_window := lim_window lim, ll_window_start := windowStart,
                           ll_used := 0\<rparr>
                    else l);
              remaining = i64 (lim_requests lim - ll_used l1);
              g = min permits (max remaining 0);
              l2 = l1\<lparr>ll_used := i64 (ll_used l1 + g)\<rparr>;
              retry = (if g < permits then windowStart + lim_window lim - now else 0)
          in ((\<lparr>granted = g, retry_after = retry\<rparr>, None), l2)))"

subsection \<open>The contracts\<close>

text \<open>
  What a caller may ask of a limiter with windows of length \<open>W\<close>: the budget is an \<open>int\<close>
  of the machine.
\<close>

definition limit_fits :: "int \<Rightarrow> limit \<Rightarrow> bool" where
  "limit_fits W lim \<longleftrightarrow> lim_window lim = W \<and> lim_requests lim \<le> max_int64"

text \<open>One call: what the scheduler relies on.\<close>

locale permit_limiter =
  fixes try_acquire ::
      "ctx \<Rightarrow> int \<Rightarrow> limit \<Rightarrow> int \<Rightarrow> 's \<Rightarrow> (decision \<times> limiter_error option) \<times> 's"
    and inv :: "'s \<Rightarrow> bool"
    and W :: int
  assumes acquire_inv:
      "inv s \<Longrightarrow> limit_fits W lim \<Longrightarrow> inv (snd (try_acquire ctx now lim p s))"
    and acquire_permits:
      "inv s \<Longrightarrow> limit_fits W lim
        \<Longrightarrow> try_acquire ctx now lim p s = ((d, None), s') \<Longrightarrow> 0 \<le> granted d \<and> granted d \<le> p"
    and acquire_retry:
      "inv s \<Longrightarrow> limit_fits W lim
        \<Longrightarrow> try_acquire ctx now lim p s = ((d, None), s') \<Longrightarrow> granted d < p
        \<Longrightarrow> 0 < retry_after d \<and> retry_after d \<le> W"
    and acquire_error:
      "try_acquire ctx now lim p s = ((d, Some e), s') \<Longrightarrow> granted d = 0"

text \<open>A history of calls, from any number of runners, as the limiter sees them.\<close>

record acquire_call =
  ac_ctx :: ctx
  ac_now :: int
  ac_limit :: limit
  ac_permits :: int

fun run_calls ::
  "(ctx \<Rightarrow> int \<Rightarrow> limit \<Rightarrow> int \<Rightarrow> 's \<Rightarrow> (decision \<times> limiter_error option) \<times> 's)
    \<Rightarrow> 's \<Rightarrow> acquire_call list \<Rightarrow> int list" where
  "run_calls acq s [] = []"
| "run_calls acq s (c # cs) =
     (case acq (ac_ctx c) (ac_now c) (ac_limit c) (ac_permits c) s of
        ((d, _), s') \<Rightarrow> granted d # run_calls acq s' cs)"

text \<open>The permits granted to the calls of one window.\<close>

definition granted_in :: "int \<Rightarrow> int \<Rightarrow> acquire_call list \<Rightarrow> int list \<Rightarrow> int" where
  "granted_in W w cs gs =
     sum_list (map snd (filter (\<lambda>(c, g). truncate_time (ac_now c) W = w) (zip cs gs)))"

definition asked_in :: "int \<Rightarrow> int \<Rightarrow> acquire_call list \<Rightarrow> int" where
  "asked_in W w cs =
     sum_list (map ac_permits (filter (\<lambda>c. truncate_time (ac_now c) W = w) cs))"

lemma granted_in_simps [simp]:
  "granted_in W w [] gs = 0"
  "granted_in W w (c # cs) (g # gs) =
    (if truncate_time (ac_now c) W = w then g else 0) + granted_in W w cs gs"
  by (simp_all add: granted_in_def)

lemma asked_in_simps [simp]:
  "asked_in W w [] = 0"
  "asked_in W w (c # cs) =
    (if truncate_time (ac_now c) W = w then ac_permits c else 0) + asked_in W w cs"
  by (simp_all add: asked_in_def)

lemma truncate_time_mono: "0 < W \<Longrightarrow> t \<le> t' \<Longrightarrow> truncate_time t W \<le> truncate_time t' W"
  unfolding truncate_time_def minus_mod_eq_mult_div
  by (intro mult_left_mono zdiv_mono1) simp_all

lemma truncate_time_bounds:
  "0 < W \<Longrightarrow> truncate_time t W \<le> t \<and> t < truncate_time t W + W"
  by (simp add: truncate_time_def)

text \<open>
  Accounting: \<open>spent s t\<close> is what the state records for the window of the time \<open>t\<close>. A
  limiter may record more than it reports as granted (a reply that is lost), never less.
\<close>

locale window_limiter = permit_limiter try_acquire inv W
  for try_acquire ::
      "ctx \<Rightarrow> int \<Rightarrow> limit \<Rightarrow> int \<Rightarrow> 's \<Rightarrow> (decision \<times> limiter_error option) \<times> 's"
    and inv :: "'s \<Rightarrow> bool"
    and W :: int +
  fixes spent :: "'s \<Rightarrow> int \<Rightarrow> int"
  assumes window_pos: "0 < W"
    and spent_nonneg: "inv s \<Longrightarrow> 0 \<le> spent s t"
    and spent_stable:
      "inv s \<Longrightarrow> truncate_time t W = truncate_time t' W \<Longrightarrow> spent s t = spent s t'"
    and acquire_nonneg:
      "inv s \<Longrightarrow> limit_fits W lim \<Longrightarrow> 0 \<le> granted (fst (fst (try_acquire ctx now lim p s)))"
    and acquire_within:
      "inv s \<Longrightarrow> limit_fits W lim
        \<Longrightarrow> granted (fst (fst (try_acquire ctx now lim p s)))
              \<le> max 0 (lim_requests lim - spent s now)"
    and acquire_records:
      "inv s \<Longrightarrow> limit_fits W lim
        \<Longrightarrow> spent s now + granted (fst (fst (try_acquire ctx now lim p s)))
              \<le> spent (snd (try_acquire ctx now lim p s)) now"
    and acquire_other_window:
      "inv s \<Longrightarrow> limit_fits W lim \<Longrightarrow> truncate_time t W \<noteq> truncate_time now W
        \<Longrightarrow> spent (snd (try_acquire ctx now lim p s)) t \<le> spent s t"
begin

lemma passed_window:
  assumes "\<And>c. c \<in> set cs \<Longrightarrow> truncate_time (ac_now c) W \<noteq> w"
  shows "granted_in W w cs (run_calls try_acquire s cs) = 0"
  using assms
proof (induction cs arbitrary: s)
  case Nil
  then show ?case by simp
next
  case (Cons c cs)
  then have IH: "granted_in W w cs (run_calls try_acquire s' cs) = 0" for s' by simp
  from Cons.prems have "truncate_time (ac_now c) W \<noteq> w" by simp
  then show ?case by (simp add: IH split: prod.splits)
qed

text \<open>Inside the window: what is already recorded and what is granted fit in the budget.\<close>

lemma later_windows:
  assumes "sorted (map ac_now (c # cs))" and "x \<in> set (c # cs)"
  shows "truncate_time (ac_now c) W \<le> truncate_time (ac_now x) W"
  using assms truncate_time_mono [OF window_pos, of "ac_now c" "ac_now x"] by auto

lemma inside_window_budget:
  assumes "inv s" and "R \<le> max_int64" and "truncate_time t0 W = w"
    and "sorted (map ac_now cs)"
    and "\<And>c. c \<in> set cs \<Longrightarrow> w \<le> truncate_time (ac_now c) W
          \<and> lim_window (ac_limit c) = W \<and> lim_requests (ac_limit c) \<le> R"
  shows "granted_in W w cs (run_calls try_acquire s cs) \<le> max 0 (R - spent s t0)"
  using assms
proof (induction cs arbitrary: s t0)
  case Nil
  then show ?case by simp
next
  case (Cons c cs)
  let ?n = "ac_now c" and ?l = "ac_limit c" and ?p = "ac_permits c"
  obtain d e s' where eq: "try_acquire (ac_ctx c) ?n ?l ?p s = ((d, e), s')"
    by (metis prod.exhaust)
  have c: "w \<le> truncate_time ?n W" "limit_fits W ?l" "lim_requests ?l \<le> R"
    using Cons.prems(2) Cons.prems(5) [of c] by (auto simp: limit_fits_def)
  show ?case
  proof (cases "truncate_time ?n W = w")
    case True
    have s': "inv s'" using acquire_inv [OF Cons.prems(1), of ?l "ac_ctx c" ?n ?p] c eq by simp
    have "granted_in W w cs (run_calls try_acquire s' cs) \<le> max 0 (R - spent s' ?n)"
      using Cons.prems True by (intro Cons.IH [OF s']) auto
    moreover have "spent s ?n = spent s t0"
      using spent_stable [OF Cons.prems(1)] True Cons.prems(3) by simp
    moreover have "0 \<le> granted d" "granted d \<le> max 0 (lim_requests ?l - spent s ?n)"
      "spent s ?n + granted d \<le> spent s' ?n"
      using acquire_nonneg [OF Cons.prems(1) c(2), of "ac_ctx c" ?n ?p]
        acquire_within [OF Cons.prems(1) c(2), of "ac_ctx c" ?n ?p]
        acquire_records [OF Cons.prems(1) c(2), of ?n "ac_ctx c" ?p] eq by simp_all
    ultimately show ?thesis using c by (simp add: eq True)
  next
    case False
    have "truncate_time (ac_now x) W \<noteq> w" if "x \<in> set (c # cs)" for x
      using later_windows [OF Cons.prems(4) that] c(1) False by simp
    then show ?thesis using passed_window [of "c # cs" w s] by simp
  qed
qed

text \<open>
  The budget of a window, for any interleaving of calls whose times do not decrease: the
  calls of the window follow one another, and what other windows record does not matter.
\<close>

lemma window_budget:
  assumes "inv s" and "0 \<le> R" and "R \<le> max_int64" and "sorted (map ac_now cs)"
    and "\<And>c. c \<in> set cs \<Longrightarrow> lim_window (ac_limit c) = W \<and> lim_requests (ac_limit c) \<le> R"
    and "\<And>t. truncate_time t W = w \<Longrightarrow> spent s t = 0"
  shows "granted_in W w cs (run_calls try_acquire s cs) \<le> R"
  using assms
proof (induction cs arbitrary: s)
  case Nil
  then show ?case by simp
next
  case (Cons c cs)
  let ?n = "ac_now c" and ?l = "ac_limit c" and ?p = "ac_permits c"
  have c: "limit_fits W ?l"
    using Cons.prems(3) Cons.prems(5) [of c] by (auto simp: limit_fits_def)
  consider (before) "truncate_time ?n W < w" | (in_window) "truncate_time ?n W = w"
    | (after) "w < truncate_time ?n W" by linarith
  then show ?case
  proof cases
    case before
    obtain d e s' where eq: "try_acquire (ac_ctx c) ?n ?l ?p s = ((d, e), s')"
      by (metis prod.exhaust)
    have s': "inv s'" using acquire_inv [OF Cons.prems(1), of ?l "ac_ctx c" ?n ?p] c eq by simp
    have "spent s' t = 0" if "truncate_time t W = w" for t
      using acquire_other_window [OF Cons.prems(1) c, of t ?n "ac_ctx c" ?p] before that eq
        Cons.prems(6) [OF that] spent_nonneg [OF s', of t] by simp
    then have "granted_in W w cs (run_calls try_acquire s' cs) \<le> R"
      using Cons.prems s' by (intro Cons.IH) auto
    with before show ?thesis by (simp add: eq)
  next
    case in_window
    have "granted_in W w (c # cs) (run_calls try_acquire s (c # cs)) \<le> max 0 (R - spent s ?n)"
      using Cons.prems in_window later_windows [OF Cons.prems(4)]
      by (intro inside_window_budget [OF _ _ in_window]) auto
    then show ?thesis using Cons.prems(2) spent_nonneg [OF Cons.prems(1), of ?n] by simp
  next
    case after
    have "truncate_time (ac_now x) W \<noteq> w" if "x \<in> set (c # cs)" for x
      using later_windows [OF Cons.prems(4) that] after by simp
    then show ?thesis using passed_window [of "c # cs" w s] Cons.prems(2) by simp
  qed
qed

end

text \<open>
  Nothing is held back: a valid call gets all of what is left of the budget, up to what it
  asks for, and exactly that is recorded.
\<close>

locale exact_window_limiter = window_limiter try_acquire inv W spent
  for try_acquire ::
      "ctx \<Rightarrow> int \<Rightarrow> limit \<Rightarrow> int \<Rightarrow> 's \<Rightarrow> (decision \<times> limiter_error option) \<times> 's"
    and inv :: "'s \<Rightarrow> bool"
    and W :: int
    and spent :: "'s \<Rightarrow> int \<Rightarrow> int" +
  assumes acquire_exact:
      "inv s \<Longrightarrow> limit_fits W lim \<Longrightarrow> acquire_checks ctx lim p = None
        \<Longrightarrow> granted (fst (fst (try_acquire ctx now lim p s)))
              = min p (max 0 (lim_requests lim - spent s now))"
    and records_exact:
      "inv s \<Longrightarrow> limit_fits W lim \<Longrightarrow> acquire_checks ctx lim p = None
        \<Longrightarrow> spent (snd (try_acquire ctx now lim p s)) now
              = spent s now + granted (fst (fst (try_acquire ctx now lim p s)))"
begin

lemma inside_window_exact:
  assumes "inv s" and "R \<le> max_int64" and "truncate_time t0 W = w"
    and "\<And>c. c \<in> set cs \<Longrightarrow> truncate_time (ac_now c) W = w
          \<and> lim_window (ac_limit c) = W \<and> lim_requests (ac_limit c) = R
          \<and> acquire_checks (ac_ctx c) (ac_limit c) (ac_permits c) = None"
  shows "granted_in W w cs (run_calls try_acquire s cs)
      = min (max 0 (R - spent s t0)) (asked_in W w cs) \<and> 0 \<le> asked_in W w cs"
  using assms
proof (induction cs arbitrary: s t0)
  case Nil
  then show ?case by simp
next
  case (Cons c cs)
  let ?n = "ac_now c" and ?l = "ac_limit c" and ?p = "ac_permits c"
  obtain d e s' where eq: "try_acquire (ac_ctx c) ?n ?l ?p s = ((d, e), s')"
    by (metis prod.exhaust)
  have c: "truncate_time ?n W = w" "limit_fits W ?l" "acquire_checks (ac_ctx c) ?l ?p = None"
    "lim_requests ?l = R"
    using Cons.prems(2) Cons.prems(4) [of c] by (auto simp: limit_fits_def)
  have s': "inv s'" using acquire_inv [OF Cons.prems(1), of ?l "ac_ctx c" ?n ?p] c eq by simp
  have "spent s ?n = spent s t0"
    using spent_stable [OF Cons.prems(1)] c Cons.prems(3) by simp
  then have g: "granted d = min ?p (max 0 (R - spent s t0))" "spent s' ?n = spent s t0 + granted d"
    and p: "1 \<le> ?p"
    using acquire_exact [OF Cons.prems(1) c(2,3), of ?n]
      records_exact [OF Cons.prems(1) c(2,3), of ?n] c eq by (simp_all add: err_simps)
  have "granted_in W w cs (run_calls try_acquire s' cs)
      = min (max 0 (R - spent s' ?n)) (asked_in W w cs) \<and> 0 \<le> asked_in W w cs"
    using Cons.prems c by (intro Cons.IH [OF s']) auto
  then show ?case using g p by (auto simp: eq c(1) min_def max_def split: if_splits)
qed

end

subsection \<open>The local limiter keeps the contracts\<close>

definition local_inv :: "local_limiter \<Rightarrow> bool" where
  "local_inv l \<longleftrightarrow> 0 \<le> ll_used l \<and> ll_used l \<le> max_int64"

definition local_spent :: "int \<Rightarrow> local_limiter \<Rightarrow> int \<Rightarrow> int" where
  "local_spent W l t =
     (if ll_window l = W \<and> ll_window_start l = truncate_time t W then ll_used l else 0)"

definition call_valid :: "ctx \<Rightarrow> limit \<Rightarrow> int \<Rightarrow> bool" where
  "call_valid ctx lim p \<longleftrightarrow> acquire_checks ctx lim p = None"

lemma local_inv_new: "local_inv newLocalLimiter"
  by (simp add: local_inv_def newLocalLimiter_def max_int64_def)

lemma localTryAcquire_invalid:
  "\<not> call_valid ctx lim p \<Longrightarrow>
    \<exists>e. localTryAcquire ctx now lim p l = ((no_decision, Some e), l)"
  by (auto simp: call_valid_def localTryAcquire_def)

lemma localTryAcquire_valid:
  fixes now :: int
  assumes "local_inv l" and "call_valid ctx lim p" and "lim_requests lim \<le> max_int64"
  defines "used \<equiv> local_spent (lim_window lim) l now"
  defines "g \<equiv> min p (max 0 (lim_requests lim - used))"
  shows "localTryAcquire ctx now lim p l =
    ((\<lparr>granted = g,
       retry_after = (if g < p then truncate_time now (lim_window lim) + lim_window lim - now
                      else 0)\<rparr>, None),
     \<lparr>ll_window_start = truncate_time now (lim_window lim), ll_window = lim_window lim,
      ll_used = used + g\<rparr>)"
proof -
  have v: "acquire_checks ctx lim p = None" "1 \<le> p" "p \<le> lim_requests lim"
    using assms(2) by (auto simp: call_valid_def err_simps)
  have u: "0 \<le> used" "used \<le> max_int64"
    using assms(1) by (auto simp: used_def local_spent_def local_inv_def max_int64_def)
  have i: "i64 (lim_requests lim - used) = lim_requests lim - used" "i64 (used + g) = used + g"
    using u v assms(3) by (auto intro!: i64_id simp: max_int64_def g_def)
  show ?thesis
  proof (cases "ll_window l = lim_window lim \<and> ll_window_start l = truncate_time now (lim_window lim)")
    case True
    then have "used = ll_used l" by (simp add: used_def local_spent_def)
    then show ?thesis using i v(1) True unfolding g_def
      by (simp add: localTryAcquire_def Let_def min.commute max.commute)
  next
    case False
    then have "used = 0" by (auto simp: used_def local_spent_def)
    then show ?thesis using i v(1) False unfolding g_def
      by (auto simp: localTryAcquire_def Let_def min.commute max.commute)
  qed
qed

lemma localTryAcquire_cases:
  assumes "local_inv l" and "lim_requests lim \<le> max_int64"
  obtains (invalid) e where "\<not> call_valid ctx lim p"
      "localTryAcquire ctx now lim p l = ((no_decision, Some e), l)"
  | (valid) g u where "call_valid ctx lim p" "u = local_spent (lim_window lim) l now"
      "g = min p (max 0 (lim_requests lim - u))" "0 \<le> u" "0 \<le> g"
      "u + g \<le> max_int64" "0 < lim_window lim"
      "localTryAcquire ctx now lim p l =
        ((\<lparr>granted = g,
           retry_after = (if g < p then truncate_time now (lim_window lim) + lim_window lim - now
                          else 0)\<rparr>, None),
         \<lparr>ll_window_start = truncate_time now (lim_window lim), ll_window = lim_window lim,
          ll_used = u + g\<rparr>)"
proof (cases "call_valid ctx lim p")
  case True
  then have "1 \<le> p" "0 < lim_window lim" by (auto simp: call_valid_def err_simps)
  moreover have "0 \<le> local_spent (lim_window lim) l now"
    "local_spent (lim_window lim) l now \<le> max_int64"
    using assms(1) by (auto simp: local_spent_def local_inv_def max_int64_def)
  ultimately show ?thesis
    using True valid [OF True refl refl] localTryAcquire_valid [OF assms(1) True assms(2), of now] assms(2)
    by (auto simp: min_def max_def split: if_splits)
next
  case False
  then show ?thesis using localTryAcquire_invalid [OF False, of now l] invalid by blast
qed

interpretation local_window: exact_window_limiter localTryAcquire local_inv minute "local_spent minute"
proof
  fix s :: local_limiter and lim :: limit and ctx now p
  assume "local_inv s" "limit_fits minute lim"
  then have a: "local_inv s" "lim_requests lim \<le> max_int64" by (simp_all add: limit_fits_def)
  show "local_inv (snd (localTryAcquire ctx now lim p s))"
    by (rule localTryAcquire_cases [OF a, of ctx p now]) (use a in \<open>auto simp: local_inv_def\<close>)
next
  fix s s' :: local_limiter and lim :: limit and ctx now p d
  assume "local_inv s" "limit_fits minute lim"
    and eq: "localTryAcquire ctx now lim p s = ((d, None), s')"
  then have a: "local_inv s" "lim_requests lim \<le> max_int64" and w: "lim_window lim = minute"
    by (simp_all add: limit_fits_def)
  show "0 \<le> granted d \<and> granted d \<le> p"
    by (rule localTryAcquire_cases [OF a, of ctx p now]) (use eq in auto)
  assume "granted d < p"
  then show "0 < retry_after d \<and> retry_after d \<le> minute"
    using truncate_time_bounds [of minute now] w
    by (rule_tac localTryAcquire_cases [OF a, of ctx p now]) (use eq in auto)
next
  fix lim :: limit and ctx now p and s s' :: local_limiter and d e
  assume "localTryAcquire ctx now lim p s = ((d, Some e), s')"
  then show "granted d = 0"
    by (auto simp: localTryAcquire_def Let_def no_decision_def split: option.splits)
next
  show "0 < minute" by (simp add: profile_constants)
next
  fix s :: local_limiter and t
  assume "local_inv s"
  then show "0 \<le> local_spent minute s t" by (simp add: local_spent_def local_inv_def)
next
  fix s :: local_limiter and t t'
  assume "truncate_time t minute = truncate_time t' minute"
  then show "local_spent minute s t = local_spent minute s t'" by (simp add: local_spent_def)
next
  fix s :: local_limiter and lim :: limit and ctx now p t
  assume "local_inv s" "limit_fits minute lim"
  then have a: "local_inv s" "lim_requests lim \<le> max_int64" and w: "lim_window lim = minute"
    by (simp_all add: limit_fits_def)
  show "0 \<le> granted (fst (fst (localTryAcquire ctx now lim p s)))"
    by (rule localTryAcquire_cases [OF a, of ctx p now]) (simp_all add: no_decision_def)
  show "granted (fst (fst (localTryAcquire ctx now lim p s)))
      \<le> max 0 (lim_requests lim - local_spent minute s now)"
    by (rule localTryAcquire_cases [OF a, of ctx p now]) (auto simp: no_decision_def w)
  show "local_spent minute s now + granted (fst (fst (localTryAcquire ctx now lim p s)))
      \<le> local_spent minute (snd (localTryAcquire ctx now lim p s)) now"
    by (rule localTryAcquire_cases [OF a, of ctx p now])
      (auto simp: no_decision_def w local_spent_def)
  assume "truncate_time t minute \<noteq> truncate_time now minute"
  then show "local_spent minute (snd (localTryAcquire ctx now lim p s)) t \<le> local_spent minute s t"
    using a(1) by (rule_tac localTryAcquire_cases [OF a, of ctx p now])
      (auto simp: local_spent_def local_inv_def)
next
  fix s :: local_limiter and lim :: limit and ctx now p
  assume "local_inv s" "limit_fits minute lim" "acquire_checks ctx lim p = None"
  then have a: "local_inv s" "acquire_checks ctx lim p = None" "lim_window lim = minute"
    "lim_requests lim \<le> max_int64" by (simp_all add: limit_fits_def)
  then have v: "call_valid ctx lim p" by (simp add: call_valid_def)
  note eq = localTryAcquire_valid [OF a(1) v a(4), of now]
  show "granted (fst (fst (localTryAcquire ctx now lim p s)))
      = min p (max 0 (lim_requests lim - local_spent minute s now))"
    unfolding eq by (simp add: a(3))
  show "local_spent minute (snd (localTryAcquire ctx now lim p s)) now
      = local_spent minute s now + granted (fst (fst (localTryAcquire ctx now lim p s)))"
    unfolding eq by (simp add: a(3) local_spent_def)
qed

subsection \<open>The instrumented limiter\<close>

text \<open>
  The decorator reads the clock before and after the inner call and hands one observation
  to its observer. Its state is the inner limiter's state, the clock readings still to
  come and the observations made so far, newest last.
\<close>

record limiter_observation =
  lo_backend :: string
  lo_result :: string
  lo_duration :: int
  lo_requested :: int
  lo_granted :: int

record 's instrumented_limiter =
  il_inner :: 's
  il_clock :: "nat \<Rightarrow> int"
  il_seen :: "limiter_observation list"

datatype instrument_error = InnerNil | LabelEmpty | ObserverNil

definition newInstrumentedLimiter :: "bool \<Rightarrow> string \<Rightarrow> bool \<Rightarrow> instrument_error option" where
  "newInstrumentedLimiter limiter_nil backend observer_nil =
     then_err (fail_if limiter_nil InnerNil)
       (then_err (fail_if (backend = '''') LabelEmpty) (fail_if observer_nil ObserverNil))"

definition acquire_result :: "int \<Rightarrow> decision \<times> limiter_error option \<Rightarrow> string" where
  "acquire_result permits res =
     (if snd res \<noteq> None then ''error''
      else if granted (fst res) = permits then ''allowed''
      else if 0 < granted (fst res) then ''partial''
      else ''rejected'')"

definition instrumentedTryAcquire ::
  "(ctx \<Rightarrow> int \<Rightarrow> limit \<Rightarrow> int \<Rightarrow> 's \<Rightarrow> (decision \<times> limiter_error option) \<times> 's)
    \<Rightarrow> string \<Rightarrow> ctx \<Rightarrow> int \<Rightarrow> limit \<Rightarrow> int \<Rightarrow> 's instrumented_limiter
    \<Rightarrow> (decision \<times> limiter_error option) \<times> 's instrumented_limiter" where
  "instrumentedTryAcquire inner backend ctx now lim permits s =
     (let started = il_clock s 0;
          (res, inner') = inner ctx now lim permits (il_inner s);
          ended = il_clock s 1
      in (res,
          s\<lparr>il_inner := inner',
            il_clock := (\<lambda>i. il_clock s (i + 2)),
            il_seen := il_seen s @
              [\<lparr>lo_backend = backend, lo_result = acquire_result permits res,
                lo_duration = ended - started, lo_requested = permits,
                lo_granted = granted (fst res)\<rparr>]\<rparr>))"

lemma instrumented_fst [simp]:
  "fst (instrumentedTryAcquire inner b ctx now lim p s) = fst (inner ctx now lim p (il_inner s))"
  by (simp add: instrumentedTryAcquire_def Let_def split: prod.splits)

lemma instrumented_inner [simp]:
  "il_inner (snd (instrumentedTryAcquire inner b ctx now lim p s)) =
    snd (inner ctx now lim p (il_inner s))"
  by (simp add: instrumentedTryAcquire_def Let_def split: prod.splits)

lemma instrumented_seen:
  "il_seen (snd (instrumentedTryAcquire inner b ctx now lim p s)) =
    il_seen s @ [\<lparr>lo_backend = b, lo_result = acquire_result p (fst (inner ctx now lim p (il_inner s))),
      lo_duration = il_clock s 1 - il_clock s 0, lo_requested = p,
      lo_granted = granted (fst (fst (inner ctx now lim p (il_inner s))))\<rparr>]"
  by (simp add: instrumentedTryAcquire_def Let_def split: prod.splits)

text \<open>A decorated limiter meets every contract the limiter inside it meets.\<close>

locale observed_window_limiter = window_limiter try_acquire inv W spent
  for try_acquire ::
      "ctx \<Rightarrow> int \<Rightarrow> limit \<Rightarrow> int \<Rightarrow> 's \<Rightarrow> (decision \<times> limiter_error option) \<times> 's"
    and inv :: "'s \<Rightarrow> bool"
    and W :: int
    and spent :: "'s \<Rightarrow> int \<Rightarrow> int" +
  fixes backend :: string

sublocale observed_window_limiter < observed: window_limiter
  "instrumentedTryAcquire try_acquire backend" "\<lambda>s. inv (il_inner s)" W
  "\<lambda>s. spent (il_inner s)"
proof
  fix s :: "'s instrumented_limiter" and lim :: limit and ctx now p
  assume "inv (il_inner s)" "limit_fits W lim"
  then show "inv (il_inner (snd (instrumentedTryAcquire try_acquire backend ctx now lim p s)))"
    by (simp add: acquire_inv)
next
  fix s s' :: "'s instrumented_limiter" and lim :: limit and ctx now p d
  assume a: "inv (il_inner s)" "limit_fits W lim"
    and eq: "instrumentedTryAcquire try_acquire backend ctx now lim p s = ((d, None), s')"
  then have "try_acquire ctx now lim p (il_inner s) = ((d, None), il_inner s')"
    by (metis fst_conv snd_conv prod.collapse instrumented_fst instrumented_inner)
  note i = acquire_permits [OF a this] acquire_retry [OF a this]
  show "0 \<le> granted d \<and> granted d \<le> p" by (rule i)
  assume "granted d < p"
  then show "0 < retry_after d \<and> retry_after d \<le> W" by (rule i)
next
  fix lim :: limit and ctx now p d e and s s' :: "'s instrumented_limiter"
  assume "instrumentedTryAcquire try_acquire backend ctx now lim p s = ((d, Some e), s')"
  then have "try_acquire ctx now lim p (il_inner s) = ((d, Some e), il_inner s')"
    by (metis fst_conv snd_conv prod.collapse instrumented_fst instrumented_inner)
  then show "granted d = 0" by (rule acquire_error)
qed (unfold instrumented_fst instrumented_inner,
    (blast intro: window_pos spent_nonneg spent_stable acquire_nonneg acquire_within
      acquire_records acquire_other_window)+)

interpretation local_observed: observed_window_limiter localTryAcquire local_inv minute
  "local_spent minute" "''local''"
  by unfold_locales

subsection \<open>Properties\<close>



end
