(* ===== verification/Go_Strings.thy ===== *)
theory Go_Strings
  imports Prelude
begin

section \<open>Strings as Go has them\<close>

text \<open>
  A Go string is a sequence of bytes, as Isabelle's \<open>string\<close> is a list of 8-bit
  characters, and \<open>len\<close> is \<open>length\<close>. This theory holds what the program uses of the
  packages \<open>strings\<close>, \<open>strconv\<close> and \<open>unicode\<close>, with their values on every byte string.
\<close>

subsection \<open>Prefixes and substrings\<close>

definition has_prefix :: "string \<Rightarrow> string \<Rightarrow> bool" where
  "has_prefix s p \<longleftrightarrow> take (length p) s = p"

definition has_suffix :: "string \<Rightarrow> string \<Rightarrow> bool" where
  "has_suffix s p \<longleftrightarrow> length p \<le> length s \<and> drop (length s - length p) s = p"

definition trim_prefix :: "string \<Rightarrow> string \<Rightarrow> string" where
  "trim_prefix s p = (if has_prefix s p then drop (length p) s else s)"

fun contains :: "string \<Rightarrow> string \<Rightarrow> bool" where
  "contains [] sub \<longleftrightarrow> sub = []"
| "contains (c # s) sub \<longleftrightarrow> has_prefix (c # s) sub \<or> contains s sub"

definition contains_any :: "string \<Rightarrow> string \<Rightarrow> bool" where
  "contains_any s chars \<longleftrightarrow> list_ex (\<lambda>c. c \<in> set chars) s"

definition trim_right :: "string \<Rightarrow> string \<Rightarrow> string" where
  "trim_right s cutset = rev (dropWhile (\<lambda>c. c \<in> set cutset) (rev s))"

lemma has_prefix_iff: "has_prefix s p \<longleftrightarrow> (\<exists>r. s = p @ r)"
  unfolding has_prefix_def by (metis append_take_drop_id append_eq_conv_conj)

lemma has_prefix_append [simp]: "has_prefix (p @ r) p"
  by (auto simp: has_prefix_iff)

lemma trim_prefix_append [simp]: "trim_prefix (p @ r) p = r"
  by (simp add: trim_prefix_def)

lemma contains_iff: "contains s sub \<longleftrightarrow> (\<exists>a b. s = a @ sub @ b)"
proof (induction s)
  case Nil
  then show ?case by simp
next
  case (Cons c s)
  have "(\<exists>a b. c # s = a @ sub @ b) \<longleftrightarrow> (\<exists>b. c # s = sub @ b) \<or> (\<exists>a b. s = a @ sub @ b)"
    by (metis append_Cons append_Nil list.sel(3) neq_Nil_conv)
  then show ?case by (simp only: contains.simps has_prefix_iff Cons.IH)
qed

lemma contains_single: "contains s [c] \<longleftrightarrow> c \<in> set s"
  unfolding contains_iff by (metis append_Cons append_Nil in_set_conv_decomp)

lemma contains_any_iff: "contains_any s chars \<longleftrightarrow> set s \<inter> set chars \<noteq> {}"
  by (auto simp: contains_any_def list_ex_iff)

lemma trim_right_suffix: "\<exists>r. s = trim_right s cutset @ r \<and> set r \<subseteq> set cutset"
proof -
  define r where "r = rev (takeWhile (\<lambda>c. c \<in> set cutset) (rev s))"
  have "s = rev (takeWhile (\<lambda>c. c \<in> set cutset) (rev s) @ dropWhile (\<lambda>c. c \<in> set cutset) (rev s))"
    by simp
  then have "s = trim_right s cutset @ r" by (simp only: r_def trim_right_def rev_append)
  moreover have "set r \<subseteq> set cutset" by (auto simp: r_def dest: set_takeWhileD)
  ultimately show ?thesis by blast
qed

subsection \<open>Split and Join\<close>

fun split_on :: "char \<Rightarrow> string \<Rightarrow> string list" where
  "split_on c [] = [[]]"
| "split_on c (x # xs) =
     (if x = c then [] # split_on c xs
      else (case split_on c xs of [] \<Rightarrow> [[x]] | w # ws \<Rightarrow> (x # w) # ws))"

fun join :: "string \<Rightarrow> string list \<Rightarrow> string" where
  "join sep [] = []"
| "join sep [x] = x"
| "join sep (x # y # ys) = x @ sep @ join sep (y # ys)"

lemma split_on_nonempty [simp]: "split_on c s \<noteq> []"
  by (induction s) (auto split: list.splits)

lemma split_on_no_sep: "c \<notin> set s \<Longrightarrow> split_on c s = [s]"
  by (induction s) auto

lemma split_on_append_sep: "c \<notin> set w \<Longrightarrow> split_on c (w @ c # s) = w # split_on c s"
  by (induction w) auto

lemma split_on_join:
  "xs \<noteq> [] \<Longrightarrow> (\<And>x. x \<in> set xs \<Longrightarrow> c \<notin> set x) \<Longrightarrow> split_on c (join [c] xs) = xs"
proof (induction xs rule: induct_list012)
  case (3 x y zs)
  then have "split_on c (join [c] (y # zs)) = y # zs" by simp
  moreover have "c \<notin> set x" using 3 by simp
  ultimately show ?case by (simp add: split_on_append_sep)
qed (simp_all add: split_on_no_sep)

lemma split_on_parts: "x \<in> set (split_on c s) \<Longrightarrow> c \<notin> set x"
proof (induction s arbitrary: x)
  case Nil
  then show ?case by simp
next
  case (Cons a s)
  then show ?case by (cases "split_on c s") (auto split: if_splits)
qed

lemma join_split_on: "join [c] (split_on c s) = s"
proof (induction s)
  case Nil
  then show ?case by simp
next
  case (Cons a s)
  obtain w ws where "split_on c s = w # ws" by (metis split_on_nonempty neq_Nil_conv)
  with Cons show ?case by (cases ws) auto
qed

subsection \<open>Decimal numbers\<close>

definition digit_char :: "nat \<Rightarrow> char" where
  "digit_char d = char_of (48 + d)"

definition digit_of :: "char \<Rightarrow> nat option" where
  "digit_of c = (let n = (of_char c :: nat) in if 48 \<le> n \<and> n \<le> 57 then Some (n - 48) else None)"

fun nat_str :: "nat \<Rightarrow> string" where
  "nat_str n = (if n < 10 then [digit_char n] else nat_str (n div 10) @ [digit_char (n mod 10)])"

declare nat_str.simps [simp del]

text \<open>\<open>strconv.Itoa\<close>, \<open>strconv.FormatInt(_, 10)\<close> and Lua's \<open>"%.0f"\<close> on integers.\<close>

definition itoa :: "int \<Rightarrow> string" where
  "itoa n = (if n < 0 then CHR ''-'' # nat_str (nat (- n)) else nat_str (nat n))"

fun digits_val :: "nat \<Rightarrow> string \<Rightarrow> nat option" where
  "digits_val acc [] = Some acc"
| "digits_val acc (c # cs) =
     (case digit_of c of None \<Rightarrow> None | Some d \<Rightarrow> digits_val (10 * acc + d) cs)"

definition parse_nat :: "string \<Rightarrow> nat option" where
  "parse_nat s = (if s = [] then None else digits_val 0 s)"

text \<open>
  \<open>strconv.Atoi\<close>: an optional sign, at least one digit, only digits, and a value in the
  64-bit range.
\<close>

definition in_int64 :: "int \<Rightarrow> bool" where
  "in_int64 n \<longleftrightarrow> - 9223372036854775808 \<le> n \<and> n \<le> 9223372036854775807"

definition atoi :: "string \<Rightarrow> int option" where
  "atoi s =
     (let (neg, ds) =
        (case s of [] \<Rightarrow> (False, [])
         | c # cs \<Rightarrow> if c = CHR ''-'' then (True, cs) else if c = CHR ''+'' then (False, cs)
                    else (False, s))
      in case parse_nat ds of
           None \<Rightarrow> None
         | Some m \<Rightarrow>
            (let v = (if neg then - int m else int m) in if in_int64 v then Some v else None))"

lemma digit_of_digit_char: "d < 10 \<Longrightarrow> digit_of (digit_char d) = Some d"
  by (simp add: digit_of_def digit_char_def of_char_of)

lemma digits_val_append:
  "digits_val acc (xs @ ys) = Option.bind (digits_val acc xs) (\<lambda>a. digits_val a ys)"
  by (induction xs arbitrary: acc) (auto split: option.splits)

lemma nat_str_nonempty [simp]: "nat_str n \<noteq> []"
  by (subst nat_str.simps) simp

lemma digits_val_nat_str: "digits_val 0 (nat_str n) = Some n"
proof (induction n rule: nat_str.induct)
  case (1 n)
  show ?case
  proof (cases "n < 10")
    case True
    then show ?thesis by (subst nat_str.simps) (simp add: digit_of_digit_char)
  next
    case False
    with "1.IH" show ?thesis
      by (subst nat_str.simps) (simp add: digits_val_append digit_of_digit_char)
  qed
qed

lemma nat_str_digits: "c \<in> set (nat_str n) \<Longrightarrow> \<exists>d < 10. c = digit_char d"
proof (induction n rule: nat_str.induct)
  case (1 n)
  show ?case
  proof (cases "n < 10")
    case True
    with "1.prems" show ?thesis by (subst (asm) nat_str.simps) auto
  next
    case False
    have "c \<in> set (nat_str (n div 10)) \<or> c = digit_char (n mod 10)"
      using "1.prems" False by (subst (asm) nat_str.simps) auto
    then show ?thesis using "1.IH" [OF False] by (metis mod_less_divisor zero_less_numeral)
  qed
qed

lemma digit_char_neq:
  assumes "d < 10"
  shows "digit_char d \<noteq> CHR ''-''" and "digit_char d \<noteq> CHR ''+''" and "digit_char d \<noteq> CHR '':''"
    and "digit_char d \<noteq> CHR ''/''" and "digit_char d \<noteq> CHR ''.''"
proof -
  from assms have "d \<in> {0, 1, 2, 3, 4, 5, 6, 7, 8, 9}" by auto
  then show "digit_char d \<noteq> CHR ''-''" and "digit_char d \<noteq> CHR ''+''"
    and "digit_char d \<noteq> CHR '':''" and "digit_char d \<noteq> CHR ''/''" and "digit_char d \<noteq> CHR ''.''"
    by (auto simp: digit_char_def char_of_def)
qed

lemma nat_str_no_colon: "CHR '':'' \<notin> set (nat_str n)"
  using nat_str_digits digit_char_neq(3) by metis

lemma itoa_no_colon: "CHR '':'' \<notin> set (itoa n)"
  using nat_str_no_colon by (simp add: itoa_def)

lemma atoi_itoa: "in_int64 n \<Longrightarrow> atoi (itoa n) = Some n"
proof -
  assume n: "in_int64 n"
  obtain c cs where s: "nat_str (nat \<bar>n\<bar>) = c # cs" by (metis nat_str_nonempty neq_Nil_conv)
  then obtain d where "d < 10" "c = digit_char d" using nat_str_digits by (metis list.set_intros(1))
  then have c: "c \<noteq> CHR ''-''" "c \<noteq> CHR ''+''" by (simp_all add: digit_char_neq)
  have v: "parse_nat (c # cs) = Some (nat \<bar>n\<bar>)"
    using digits_val_nat_str [of "nat \<bar>n\<bar>"] by (simp only: parse_nat_def s list.distinct if_False)
  show ?thesis
  proof (cases "n < 0")
    case True
    then have "itoa n = CHR ''-'' # c # cs" using s by (simp add: itoa_def)
    with True v n show ?thesis by (simp add: atoi_def)
  next
    case False
    then have "itoa n = c # cs" using s by (simp add: itoa_def)
    with False v n c show ?thesis by (simp add: atoi_def)
  qed
qed

lemma nat_str_inject: "nat_str m = nat_str n \<longleftrightarrow> m = n"
  by (metis digits_val_nat_str option.inject)

lemma nat_str_no_sign: "nat_str n \<noteq> CHR ''-'' # xs"
  using nat_str_digits [of "CHR ''-''" n] digit_char_neq(1) by fastforce

lemma itoa_inject [simp]: "itoa m = itoa n \<longleftrightarrow> m = n"
  using nat_str_no_sign [of "nat m"] nat_str_no_sign [of "nat n"]
  by (auto simp: itoa_def nat_str_inject dest: sym)

subsection \<open>White space and case\<close>

text \<open>The UTF-8 encodings of the code points \<open>unicode.IsSpace\<close> accepts.\<close>

definition white_space :: "string list" where
  "white_space = map (map char_of)
     ([[9], [10], [11], [12], [13], [32], [194, 133], [194, 160], [225, 154, 128],
       [226, 128, 168], [226, 128, 169], [226, 128, 175], [226, 129, 159], [227, 128, 128]]
      @ map (\<lambda>k. [226, 128, 128 + k]) [0, 1, 2, 3, 4, 5, 6, 7, 8, 9, 10 :: nat])"

lemma white_space_nonempty: "w \<in> set white_space \<Longrightarrow> w \<noteq> []"
  by (auto simp: white_space_def)

function trim_left_space :: "string \<Rightarrow> string" where
  "trim_left_space s =
     (case find (\<lambda>w. has_prefix s w) white_space of
        None \<Rightarrow> s
      | Some w \<Rightarrow> trim_left_space (drop (length w) s))"
  by pat_completeness auto
termination
proof (relation "measure length")
  fix s w
  assume "find (\<lambda>w. has_prefix s w) white_space = Some w"
  then have "has_prefix s w" "w \<noteq> []"
    by (auto simp: find_Some_iff white_space_nonempty)
  then show "(drop (length w) s, s) \<in> measure length"
    by (auto simp: has_prefix_iff)
qed simp

function trim_right_space :: "string \<Rightarrow> string" where
  "trim_right_space s =
     (case find (\<lambda>w. has_suffix s w) white_space of
        None \<Rightarrow> s
      | Some w \<Rightarrow> trim_right_space (take (length s - length w) s))"
  by pat_completeness auto
termination
proof (relation "measure length")
  fix s w
  assume "find (\<lambda>w. has_suffix s w) white_space = Some w"
  then have "has_suffix s w" "w \<noteq> []"
    by (auto simp: find_Some_iff white_space_nonempty)
  then have "0 < length w" "length w \<le> length s" by (simp_all add: has_suffix_def)
  then show "(take (length s - length w) s, s) \<in> measure length" by (cases w) auto
qed simp

declare trim_left_space.simps [simp del] trim_right_space.simps [simp del]

definition trim_space :: "string \<Rightarrow> string" where
  "trim_space s = trim_right_space (trim_left_space s)"

definition lower_char :: "char \<Rightarrow> char" where
  "lower_char c = (let n = (of_char c :: nat) in if 65 \<le> n \<and> n \<le> 90 then char_of (n + 32) else c)"

definition is_ascii :: "string \<Rightarrow> bool" where
  "is_ascii s \<longleftrightarrow> list_all (\<lambda>c. of_char c < (128 :: nat)) s"

text \<open>
  \<open>strings.ToLower\<close>: byte by byte on ASCII; on other strings the case tables of package
  \<open>unicode\<close> decide, which are a parameter.
\<close>

definition to_lower :: "(string \<Rightarrow> string) \<Rightarrow> string \<Rightarrow> string" where
  "to_lower unicode_lower s = (if is_ascii s then map lower_char s else unicode_lower s)"

end
