(* ===== verification/Redis_Key.thy ===== *)
theory Redis_Key
  imports Go_Strings
begin

section \<open>Redis keys\<close>

text \<open>
  The package \<open>internal/runner/rediskey\<close>: the key namespace the runner and the controller's
  cleanup share. A scope is valid when its three components are not empty and hold no
  colon; then every key determines its family, its scope and its last component.
\<close>

definition rootPrefix :: string where "rootPrefix = ''kurama:v2''"
definition storeKind :: string where "storeKind = ''store''"
definition rateLimitKind :: string where "rateLimitKind = ''rate-limit''"
definition rateScheduleKind :: string where "rateScheduleKind = ''rate-schedule''"
definition separator :: string where "separator = '':''"
definition cleanupPatternTail :: string where "cleanupPatternTail = ''*''"

lemmas key_constants = rootPrefix_def storeKind_def rateLimitKind_def rateScheduleKind_def
  separator_def cleanupPatternTail_def

record scope =
  sc_namespace :: string
  sc_scenario :: string
  sc_uid :: string

datatype scope_error = ScopeEmpty string | ScopeColon string

text \<open>
  \<open>Validate\<close> ranges over a Go map literal, whose iteration order is not determined: the
  entries come as a list in the order of the iteration.
\<close>

fun check_scope_entries :: "(string \<times> string) list \<Rightarrow> scope_error option" where
  "check_scope_entries [] = None"
| "check_scope_entries ((name, value) # es) =
     (if value = '''' then Some (ScopeEmpty name)
      else if contains value separator then Some (ScopeColon name)
      else check_scope_entries es)"

definition scope_entries :: "scope \<Rightarrow> (string \<times> string) list" where
  "scope_entries s =
     [(''namespace'', sc_namespace s), (''scenario'', sc_scenario s), (''UID'', sc_uid s)]"

definition validateScope :: "scope \<Rightarrow> scope_error option" where
  "validateScope s = check_scope_entries (scope_entries s)"

definition NewScope :: "string \<Rightarrow> string \<Rightarrow> string \<Rightarrow> scope_error + scope" where
  "NewScope namespace scenario uid =
     (let s = \<lparr>sc_namespace = namespace, sc_scenario = scenario, sc_uid = uid\<rparr>
      in case validateScope s of Some e \<Rightarrow> Inl e | None \<Rightarrow> Inr s)"

definition kindPrefix :: "string \<Rightarrow> scope \<Rightarrow> string" where
  "kindPrefix kind s =
     join separator [rootPrefix, kind, sc_namespace s, sc_scenario s, sc_uid s]"

definition StorePrefix :: "scope \<Rightarrow> string" where
  "StorePrefix s = kindPrefix storeKind s"

definition RateLimitKey :: "scope \<Rightarrow> string" where
  "RateLimitKey s = kindPrefix rateLimitKind s"

definition RateSchedulePrefix :: "scope \<Rightarrow> string" where
  "RateSchedulePrefix s = kindPrefix rateScheduleKind s"

definition CleanupPatterns :: "scope \<Rightarrow> string list" where
  "CleanupPatterns s =
     [StorePrefix s @ separator @ cleanupPatternTail,
      RateLimitKey s,
      RateSchedulePrefix s @ separator @ cleanupPatternTail]"

text \<open>The key of a value store (\<open>RedisStore.key\<close>) and of a uniform schedule.\<close>

definition storeKey :: "scope \<Rightarrow> string \<Rightarrow> string" where
  "storeKey s store = StorePrefix s @ separator @ store"

definition scheduleKey :: "scope \<Rightarrow> int \<Rightarrow> int \<Rightarrow> int \<Rightarrow> string" where
  "scheduleKey s minRequests maxRequests windowMicros =
     join separator [RateSchedulePrefix s, itoa minRequests, itoa maxRequests, itoa windowMicros]"

subsection \<open>Validation\<close>

lemma check_scope_entries_None [err_simps]:
  "check_scope_entries es = None \<longleftrightarrow> (\<forall>(n, v) \<in> set es. v \<noteq> '''' \<and> CHR '':'' \<notin> set v)"
  by (induction es rule: check_scope_entries.induct)
    (auto simp: separator_def contains_single)

text \<open>Which error is reported depends on the iteration order; whether one is does not.\<close>

lemma validateScope_any_order:
  assumes "set es = set (scope_entries s)"
  shows "check_scope_entries es = None \<longleftrightarrow> validateScope s = None"
  by (simp only: validateScope_def check_scope_entries_None assms)

definition scope_parts :: "scope \<Rightarrow> string list" where
  "scope_parts s = [sc_namespace s, sc_scenario s, sc_uid s]"

lemma validateScope_None [err_simps]:
  "validateScope s = None \<longleftrightarrow> (\<forall>v \<in> set (scope_parts s). v \<noteq> '''' \<and> CHR '':'' \<notin> set v)"
  by (simp only: validateScope_def check_scope_entries_None) (auto simp: scope_entries_def scope_parts_def)

lemma NewScope_Inr:
  "NewScope n c u = Inr s \<longleftrightarrow>
    s = \<lparr>sc_namespace = n, sc_scenario = c, sc_uid = u\<rparr> \<and> validateScope s = None"
  by (auto simp: NewScope_def Let_def split: option.splits)

lemma scope_parts_inject: "scope_parts s = scope_parts s' \<longleftrightarrow> s = s'"
  by (auto simp: scope_parts_def)

subsection \<open>What a key determines\<close>

text \<open>The colon-free components of a key of a valid scope.\<close>

definition key_parts :: "string \<Rightarrow> scope \<Rightarrow> string list" where
  "key_parts kind s = [''kurama'', ''v2'', kind] @ scope_parts s"

lemma kindPrefix_join: "kindPrefix kind s = join '':'' (key_parts kind s)"
  by (simp add: kindPrefix_def key_parts_def scope_parts_def key_constants)

lemma split_on_join_append:
  "xs \<noteq> [] \<Longrightarrow> (\<And>x. x \<in> set xs \<Longrightarrow> c \<notin> set x) \<Longrightarrow>
    split_on c (join [c] xs @ c # r) = xs @ split_on c r"
proof (induction xs rule: induct_list012)
  case (3 x y zs)
  then have "split_on c (join [c] (y # zs) @ c # r) = (y # zs) @ split_on c r" by simp
  moreover have "c \<notin> set x" using 3 by simp
  ultimately show ?case by (simp add: split_on_append_sep)
qed (simp_all add: split_on_append_sep)

definition kind_ok :: "string \<Rightarrow> bool" where
  "kind_ok kind \<longleftrightarrow> CHR '':'' \<notin> set kind"

lemma kinds_ok: "kind_ok storeKind" "kind_ok rateLimitKind" "kind_ok rateScheduleKind"
  by (simp_all add: kind_ok_def key_constants)

lemma key_parts_no_colon:
  "validateScope s = None \<Longrightarrow> kind_ok kind \<Longrightarrow> x \<in> set (key_parts kind s) \<Longrightarrow> CHR '':'' \<notin> set x"
  by (auto simp: key_parts_def kind_ok_def err_simps)

lemma split_kindPrefix:
  assumes "validateScope s = None" and "kind_ok kind"
  shows "split_on CHR '':'' (kindPrefix kind s) = key_parts kind s"
    and "split_on CHR '':'' (kindPrefix kind s @ CHR '':'' # r)
          = key_parts kind s @ split_on CHR '':'' r"
  unfolding kindPrefix_join
  by (rule split_on_join split_on_join_append;
      use key_parts_no_colon [OF assms] in \<open>auto simp: key_parts_def\<close>)+

lemma key_parts_inject:
  "key_parts kind s @ xs = key_parts kind' s' @ ys \<longleftrightarrow> kind = kind' \<and> s = s' \<and> xs = ys"
  by (auto simp: key_parts_def scope_parts_def)

lemma split_storeKey:
  "validateScope s = None \<Longrightarrow>
    split_on CHR '':'' (storeKey s store) = key_parts storeKind s @ split_on CHR '':'' store"
  by (simp add: storeKey_def StorePrefix_def separator_def split_kindPrefix(2) kinds_ok)

lemma split_RateLimitKey:
  "validateScope s = None \<Longrightarrow> split_on CHR '':'' (RateLimitKey s) = key_parts rateLimitKind s"
  by (simp add: RateLimitKey_def split_kindPrefix(1) kinds_ok)

lemma split_scheduleKey:
  "validateScope s = None \<Longrightarrow> split_on CHR '':'' (scheduleKey s a b w)
    = key_parts rateScheduleKind s @ [itoa a, itoa b, itoa w]"
  by (simp add: scheduleKey_def RateSchedulePrefix_def separator_def split_kindPrefix(2) kinds_ok
      split_on_append_sep split_on_no_sep itoa_no_colon)

text \<open>The keys the runner of one scenario may write.\<close>

inductive owns :: "scope \<Rightarrow> string \<Rightarrow> bool" for s where
  owns_store: "owns s (storeKey s store)"
| owns_limit: "owns s (RateLimitKey s)"
| owns_schedule: "owns s (scheduleKey s a b w)"

lemma owns_parts:
  assumes "owns s k" and "validateScope s = None"
  shows "\<exists>kind rest. kind \<in> {storeKind, rateLimitKind, rateScheduleKind}
    \<and> split_on CHR '':'' k = key_parts kind s @ rest"
  using assms
  by (cases rule: owns.cases)
    (fastforce simp: split_storeKey split_RateLimitKey split_scheduleKey)+

lemma owns_inject:
  assumes "owns s k" and "owns s' k" and "validateScope s = None" and "validateScope s' = None"
  shows "s = s'"
proof -
  obtain kind rest where "split_on CHR '':'' k = key_parts kind s @ rest"
    using owns_parts [OF assms(1,3)] by blast
  moreover obtain kind' rest' where "split_on CHR '':'' k = key_parts kind' s' @ rest'"
    using owns_parts [OF assms(2,4)] by blast
  ultimately show ?thesis by (simp add: key_parts_inject)
qed

subsection \<open>Cleanup patterns\<close>

text \<open>
  \<open>SCAN MATCH\<close> is the server's: a relation \<open>matches pattern key\<close> of which the code needs
  two documented facts, about text without the pattern characters of Redis.
\<close>

definition glob_free :: "string \<Rightarrow> bool" where
  "glob_free p \<longleftrightarrow> \<not> contains_any p (CHR 0x5C # ''*?[]^'')"

locale redis_match =
  fixes matches :: "string \<Rightarrow> string \<Rightarrow> bool"
  assumes matches_literal: "glob_free p \<Longrightarrow> matches p k \<longleftrightarrow> k = p"
    and matches_prefix: "glob_free p \<Longrightarrow> matches (p @ ''*'') k \<longleftrightarrow> has_prefix k p"
begin

lemma cleanup_iff:
  assumes "validateScope s = None"
    and "glob_free (sc_namespace s)" and "glob_free (sc_scenario s)" and "glob_free (sc_uid s)"
  shows "(\<exists>p \<in> set (CleanupPatterns s). matches p k) \<longleftrightarrow>
    (\<exists>r. k = StorePrefix s @ '':'' @ r) \<or> k = RateLimitKey s
    \<or> (\<exists>r. k = RateSchedulePrefix s @ '':'' @ r)"
proof -
  have g: "glob_free (kindPrefix kind s @ r)"
    if "kind \<in> {storeKind, rateLimitKind, rateScheduleKind}" "glob_free r" for kind r
    using that assms(2-4)
    by (auto simp: glob_free_def contains_any_iff kindPrefix_join key_parts_def scope_parts_def
        key_constants)
  have "glob_free ''''" "glob_free '':''"
    by (simp_all add: glob_free_def contains_any_def)
  then have "glob_free (StorePrefix s @ '':'')" "glob_free (RateSchedulePrefix s @ '':'')"
    "glob_free (RateLimitKey s)"
    using g [of storeKind "'':''"] g [of rateScheduleKind "'':''"] g [of rateLimitKind "''''"]
    by (simp_all add: StorePrefix_def RateSchedulePrefix_def RateLimitKey_def)
  then show ?thesis
    using matches_prefix [of "StorePrefix s @ '':''" k]
      matches_prefix [of "RateSchedulePrefix s @ '':''" k] matches_literal [of "RateLimitKey s" k]
    by (auto simp: CleanupPatterns_def separator_def cleanupPatternTail_def has_prefix_iff)
qed

lemma cleanup_owned:
  assumes "validateScope s = None"
    and "glob_free (sc_namespace s)" and "glob_free (sc_scenario s)" and "glob_free (sc_uid s)"
    and "owns s k"
  shows "\<exists>p \<in> set (CleanupPatterns s). matches p k"
  unfolding cleanup_iff [OF assms(1-4)]
  using assms(5) by (cases rule: owns.cases) (auto simp: storeKey_def scheduleKey_def separator_def)

lemma cleanup_foreign:
  assumes "validateScope s = None"
    and "glob_free (sc_namespace s)" and "glob_free (sc_scenario s)" and "glob_free (sc_uid s)"
    and "owns s' k" and "validateScope s' = None" and "s' \<noteq> s"
  shows "\<not> (\<exists>p \<in> set (CleanupPatterns s). matches p k)"
proof
  assume "\<exists>p \<in> set (CleanupPatterns s). matches p k"
  then have "\<exists>kind rest. kind_ok kind \<and> split_on CHR '':'' k = key_parts kind s @ rest"
    unfolding cleanup_iff [OF assms(1-4)] using kinds_ok
    by (auto simp: StorePrefix_def RateSchedulePrefix_def split_RateLimitKey split_kindPrefix assms(1))
  then obtain kind rest where "split_on CHR '':'' k = key_parts kind s @ rest" by blast
  moreover obtain kind' rest' where "split_on CHR '':'' k = key_parts kind' s' @ rest'"
    using owns_parts [OF assms(5,6)] by blast
  ultimately show False using assms(7) by (simp add: key_parts_inject)
qed

end

subsection \<open>Properties\<close>

lemma key_isolation:
  assumes "validateScope s = None" and "validateScope s' = None"
  shows "owns s k \<and> owns s' k \<longrightarrow> s = s'"
    and "storeKey s a = storeKey s' b \<longleftrightarrow> s = s' \<and> a = b"
    and "scheduleKey s x y w = scheduleKey s' x' y' w' \<longleftrightarrow> s = s' \<and> x = x' \<and> y = y' \<and> w = w'"
    and "RateLimitKey s = RateLimitKey s' \<longleftrightarrow> s = s'"
    and "storeKey s a \<noteq> RateLimitKey s'" and "storeKey s a \<noteq> scheduleKey s' x y w"
    and "scheduleKey s x y w \<noteq> RateLimitKey s'"
proof -
  note split = split_storeKey [OF assms(1)] split_storeKey [OF assms(2)]
    split_scheduleKey [OF assms(1)] split_scheduleKey [OF assms(2)]
    split_RateLimitKey [OF assms(1)] split_RateLimitKey [OF assms(2)]
  show "owns s k \<and> owns s' k \<longrightarrow> s = s'" using owns_inject assms by blast
  show "storeKey s a = storeKey s' b \<longleftrightarrow> s = s' \<and> a = b"
    by (metis split(1,2) key_parts_inject join_split_on)
  show "scheduleKey s x y w = scheduleKey s' x' y' w' \<longleftrightarrow> s = s' \<and> x = x' \<and> y = y' \<and> w = w'"
    using split(3,4) [of x y w] split(4) [of x' y' w'] by (metis key_parts_inject itoa_inject list.inject)
  show "RateLimitKey s = RateLimitKey s' \<longleftrightarrow> s = s'"
    by (metis split(5,6) key_parts_inject append_Nil2)
  have d: "storeKind \<noteq> rateLimitKind" "storeKind \<noteq> rateScheduleKind" "rateScheduleKind \<noteq> rateLimitKind"
    by (simp_all add: key_constants)
  show "storeKey s a \<noteq> RateLimitKey s'"
    using d(1) by (metis split(1,6) key_parts_inject append_Nil2)
  show "storeKey s a \<noteq> scheduleKey s' x y w"
    using d(2) by (metis split(1,4) key_parts_inject)
  show "scheduleKey s x y w \<noteq> RateLimitKey s'"
    using d(3) by (metis split(3,6) key_parts_inject append_Nil2)
qed

text \<open>C17. The keys of different scenarios never collide, and within one scenario a key tells
  its family and parameters: no two schedules, and no two stores, share a key.\<close>

theorem redis_keys_isolated:
  assumes "validateScope s = None" and "validateScope s' = None"
  shows "(owns s k \<and> owns s' k \<longrightarrow> s = s')
    \<and> (storeKey s a = storeKey s' b \<longleftrightarrow> s = s' \<and> a = b)
    \<and> (scheduleKey s x y w = scheduleKey s' x' y' w' \<longleftrightarrow> s = s' \<and> x = x' \<and> y = y' \<and> w = w')
    \<and> (RateLimitKey s = RateLimitKey s' \<longleftrightarrow> s = s')
    \<and> storeKey s a \<noteq> RateLimitKey s' \<and> storeKey s a \<noteq> scheduleKey s' x y w
    \<and> scheduleKey s x y w \<noteq> RateLimitKey s'"
  by (intro conjI key_isolation [OF assms])

theorem redis_keys_isolated_witness:
  "storeKey \<lparr>sc_namespace = ''a'', sc_scenario = ''b'', sc_uid = ''c''\<rparr> ''x:y''
    \<noteq> scheduleKey \<lparr>sc_namespace = ''a'', sc_scenario = ''b'', sc_uid = ''c''\<rparr> 1 2 3"
  using redis_keys_isolated [of "\<lparr>sc_namespace = ''a'', sc_scenario = ''b'', sc_uid = ''c''\<rparr>"
      "\<lparr>sc_namespace = ''a'', sc_scenario = ''b'', sc_uid = ''c''\<rparr>"]
  by (simp add: err_simps scope_parts_def)

end
