(* ===== verification/Redis_Server.thy ===== *)
theory Redis_Server
  imports Redis_Key
begin

section \<open>The Redis server\<close>

text \<open>
  Redis is not part of the program. Its commands are a parameter: a record of functions
  over an abstract server state, each taking the server's time in microseconds, and three
  locales with what the Redis documentation says of the commands the program relies on.
  The view of a server state the laws speak about is, for each key, whether it exists, its
  deadline if it has one, the fields of a hash and the elements of a list. A key whose
  deadline has passed is not there any more, whether or not the server removed it.

  The laws on hashes and lists hold for keys that no command of another type has written;
  the key families of the program are disjoint (theory \<open>Redis_Key\<close>).
\<close>

record 'r redis_ops =
  rd_hget :: "int \<Rightarrow> string \<Rightarrow> string \<Rightarrow> 'r \<Rightarrow> string option"
  rd_hset :: "int \<Rightarrow> string \<Rightarrow> (string \<times> string) list \<Rightarrow> 'r \<Rightarrow> 'r"
  rd_hincrby :: "int \<Rightarrow> string \<Rightarrow> string \<Rightarrow> int \<Rightarrow> 'r \<Rightarrow> 'r"
  rd_pexpire :: "int \<Rightarrow> string \<Rightarrow> int \<Rightarrow> 'r \<Rightarrow> 'r"
  rd_rpush :: "int \<Rightarrow> string \<Rightarrow> string \<Rightarrow> 'r \<Rightarrow> 'r"
  rd_ltrim :: "int \<Rightarrow> string \<Rightarrow> int \<Rightarrow> int \<Rightarrow> 'r \<Rightarrow> 'r"
  rd_llen :: "int \<Rightarrow> string \<Rightarrow> 'r \<Rightarrow> int"
  rd_lindex :: "int \<Rightarrow> string \<Rightarrow> int \<Rightarrow> 'r \<Rightarrow> string option"
  rd_persist :: "int \<Rightarrow> string \<Rightarrow> 'r \<Rightarrow> 'r"
  rd_expire_nx :: "int \<Rightarrow> string \<Rightarrow> int \<Rightarrow> 'r \<Rightarrow> 'r"
  rd_del :: "int \<Rightarrow> string list \<Rightarrow> 'r \<Rightarrow> 'r"
  rd_scan :: "int \<Rightarrow> string \<Rightarrow> 'r \<Rightarrow> string list"

record 'r redis_view =
  rv_exists :: "string \<Rightarrow> 'r \<Rightarrow> bool"
  rv_deadline :: "string \<Rightarrow> 'r \<Rightarrow> int option"
  rv_fields :: "string \<Rightarrow> 'r \<Rightarrow> (string \<Rightarrow> string option)"
  rv_items :: "string \<Rightarrow> 'r \<Rightarrow> string list"

definition alive :: "'r redis_view \<Rightarrow> int \<Rightarrow> string \<Rightarrow> 'r \<Rightarrow> bool" where
  "alive v t k r \<longleftrightarrow> rv_exists v k r \<and> (case rv_deadline v k r of None \<Rightarrow> True | Some d \<Rightarrow> t < d)"

lemma alive_antitone: "alive v t' k r \<Longrightarrow> t \<le> t' \<Longrightarrow> alive v t k r"
  by (auto simp: alive_def split: option.splits)

text \<open>The elements a list command sees at time \<open>t\<close>.\<close>

definition listing :: "'r redis_view \<Rightarrow> int \<Rightarrow> string \<Rightarrow> 'r \<Rightarrow> string list" where
  "listing v t k r = (if alive v t k r then rv_items v k r else [])"

text \<open>Nothing about a key changes.\<close>

definition same_key :: "'r redis_view \<Rightarrow> string \<Rightarrow> 'r \<Rightarrow> 'r \<Rightarrow> bool" where
  "same_key v k r r' \<longleftrightarrow> rv_exists v k r' = rv_exists v k r \<and> rv_deadline v k r' = rv_deadline v k r
     \<and> rv_fields v k r' = rv_fields v k r \<and> rv_items v k r' = rv_items v k r"

lemma same_key_refl [simp]: "same_key v k r r"
  by (simp add: same_key_def)

lemma same_key_trans: "same_key v k r r' \<Longrightarrow> same_key v k r' r'' \<Longrightarrow> same_key v k r r''"
  by (simp add: same_key_def)

lemma same_key_alive: "same_key v k r r' \<Longrightarrow> alive v t k r' = alive v t k r"
  by (simp add: same_key_def alive_def)

locale redis_hashes =
  fixes ops :: "'r redis_ops" and v :: "'r redis_view"
  assumes hget: "rd_hget ops t k f r = (if alive v t k r then rv_fields v k r f else None)"
    and hset_exists: "rv_exists v k (rd_hset ops t k fvs r)"
    and hset_deadline:
      "rv_deadline v k (rd_hset ops t k fvs r) = (if alive v t k r then rv_deadline v k r else None)"
    and hset_fields:
      "rv_fields v k (rd_hset ops t k fvs r) =
        (if alive v t k r then rv_fields v k r else Map.empty) ++ map_of (rev fvs)"
    and hset_other: "k' \<noteq> k \<Longrightarrow> same_key v k' r (rd_hset ops t k fvs r)"
    and hincrby_exists: "rv_exists v k (rd_hincrby ops t k f n r)"
    and hincrby_deadline:
      "alive v t k r \<Longrightarrow> rv_deadline v k (rd_hincrby ops t k f n r) = rv_deadline v k r"
    and hincrby_fields:
      "alive v t k r \<Longrightarrow> rv_fields v k r f = Some (itoa m) \<Longrightarrow> in_int64 m \<Longrightarrow> in_int64 (m + n)
        \<Longrightarrow> rv_fields v k (rd_hincrby ops t k f n r) = (rv_fields v k r)(f \<mapsto> itoa (m + n))"
    and hincrby_other: "k' \<noteq> k \<Longrightarrow> same_key v k' r (rd_hincrby ops t k f n r)"
    and pexpire_exists: "rv_exists v k (rd_pexpire ops t k ms r) = rv_exists v k r"
    and pexpire_deadline:
      "alive v t k r \<Longrightarrow> 0 < ms
        \<Longrightarrow> \<exists>d. rv_deadline v k (rd_pexpire ops t k ms r) = Some d \<and> t + 1000 * ms \<le> d"
    and pexpire_fields: "rv_fields v k (rd_pexpire ops t k ms r) = rv_fields v k r"
    and pexpire_other: "k' \<noteq> k \<Longrightarrow> same_key v k' r (rd_pexpire ops t k ms r)"

locale redis_lists =
  fixes ops :: "'r redis_ops" and v :: "'r redis_view"
  assumes rpush_items: "rv_items v k (rd_rpush ops t k x r) = listing v t k r @ [x]"
    and rpush_exists: "rv_exists v k (rd_rpush ops t k x r)"
    and rpush_deadline:
      "rv_deadline v k (rd_rpush ops t k x r) = (if alive v t k r then rv_deadline v k r else None)"
    and rpush_other: "k' \<noteq> k \<Longrightarrow> same_key v k' r (rd_rpush ops t k x r)"
    and ltrim_last:
      "alive v t k r \<Longrightarrow> rv_items v k r \<noteq> [] \<Longrightarrow> 0 < n
        \<Longrightarrow> rv_items v k (rd_ltrim ops t k (- int n) (-1) r) = take_last n (rv_items v k r)
          \<and> rv_exists v k (rd_ltrim ops t k (- int n) (-1) r)
          \<and> rv_deadline v k (rd_ltrim ops t k (- int n) (-1) r) = rv_deadline v k r"
    and ltrim_other: "k' \<noteq> k \<Longrightarrow> same_key v k' r (rd_ltrim ops t k a b r)"
    and llen: "rd_llen ops t k r = int (length (listing v t k r))"
    and lindex:
      "0 \<le> i \<Longrightarrow> rd_lindex ops t k i r =
        (if i < int (length (listing v t k r)) then Some (listing v t k r ! nat i) else None)"

locale redis_keyspace = redis_match matches
  for matches :: "string \<Rightarrow> string \<Rightarrow> bool" +
  fixes ops :: "'r redis_ops" and v :: "'r redis_view"
  assumes scan: "set (rd_scan ops t p r) = {k. alive v t k r \<and> matches p k}"
    and persist_deadline:
      "rv_deadline v k (rd_persist ops t k r) = (if alive v t k r then None else rv_deadline v k r)"
    and persist_exists: "rv_exists v k (rd_persist ops t k r) = rv_exists v k r"
    and persist_items: "rv_items v k (rd_persist ops t k r) = rv_items v k r"
    and persist_other: "k' \<noteq> k \<Longrightarrow> same_key v k' r (rd_persist ops t k r)"
    and expire_nx_deadline:
      "rv_deadline v k (rd_expire_nx ops t k ttl r) =
        (if alive v t k r \<and> rv_deadline v k r = None then Some (t + ttl) else rv_deadline v k r)"
    and expire_nx_exists: "rv_exists v k (rd_expire_nx ops t k ttl r) = rv_exists v k r"
    and expire_nx_items: "rv_items v k (rd_expire_nx ops t k ttl r) = rv_items v k r"
    and expire_nx_other: "k' \<noteq> k \<Longrightarrow> same_key v k' r (rd_expire_nx ops t k ttl r)"
    and del_gone: "k \<in> set ks \<Longrightarrow> \<not> rv_exists v k (rd_del ops t ks r)"
    and del_other: "k \<notin> set ks \<Longrightarrow> same_key v k r (rd_del ops t ks r)"

subsection \<open>A reference server\<close>

text \<open>
  One server that keeps the laws, for evaluation: every key has an entry with an optional
  deadline, the fields of a hash and the elements of a list.
\<close>

record redis_entry =
  re_deadline :: "int option"
  re_fields :: "string \<Rightarrow> string option"
  re_items :: "string list"

type_synonym ref_redis = "(string \<times> redis_entry) list"

definition ref_view :: "ref_redis redis_view" where
  "ref_view = \<lparr>rv_exists = (\<lambda>k r. map_of r k \<noteq> None),
     rv_deadline = (\<lambda>k r. case map_of r k of None \<Rightarrow> None | Some e \<Rightarrow> re_deadline e),
     rv_fields = (\<lambda>k r. case map_of r k of None \<Rightarrow> Map.empty | Some e \<Rightarrow> re_fields e),
     rv_items = (\<lambda>k r. case map_of r k of None \<Rightarrow> [] | Some e \<Rightarrow> re_items e)\<rparr>"

definition ref_entry :: "int \<Rightarrow> string \<Rightarrow> ref_redis \<Rightarrow> redis_entry" where
  "ref_entry t k r =
     (case map_of r k of
        None \<Rightarrow> \<lparr>re_deadline = None, re_fields = Map.empty, re_items = []\<rparr>
      | Some e \<Rightarrow> if alive ref_view t k r then e
          else \<lparr>re_deadline = None, re_fields = Map.empty, re_items = []\<rparr>)"

definition ref_put :: "string \<Rightarrow> redis_entry \<Rightarrow> ref_redis \<Rightarrow> ref_redis" where
  "ref_put k e r = (k, e) # filter (\<lambda>(k', _). k' \<noteq> k) r"

fun glob :: "string \<Rightarrow> string \<Rightarrow> bool" where
  "glob [] k \<longleftrightarrow> k = []"
| "glob (p # ps) [] \<longleftrightarrow> p = CHR ''*'' \<and> glob ps []"
| "glob (p # ps) (c # k) \<longleftrightarrow>
     (if p = CHR ''*'' then glob ps (c # k) \<or> glob (p # ps) k
      else (p = CHR ''?'' \<or> p = c) \<and> glob ps k)"

definition ref_ops :: "ref_redis redis_ops" where
  "ref_ops = \<lparr>
     rd_hget = (\<lambda>t k f r. if alive ref_view t k r then rv_fields ref_view k r f else None),
     rd_hset = (\<lambda>t k fvs r. let e = ref_entry t k r in
       ref_put k (e\<lparr>re_fields := re_fields e ++ map_of (rev fvs)\<rparr>) r),
     rd_hincrby = (\<lambda>t k f n r. let e = ref_entry t k r in
       ref_put k (e\<lparr>re_fields := (re_fields e)(f \<mapsto>
         itoa (n + (case re_fields e f of None \<Rightarrow> 0
                    | Some s \<Rightarrow> (case atoi s of None \<Rightarrow> 0 | Some m \<Rightarrow> m))))\<rparr>) r),
     rd_pexpire = (\<lambda>t k ms r. case map_of r k of None \<Rightarrow> r
       | Some e \<Rightarrow> ref_put k (e\<lparr>re_deadline := Some (t + 1000 * ms)\<rparr>) r),
     rd_rpush = (\<lambda>t k x r. let e = ref_entry t k r in
       ref_put k (e\<lparr>re_items := re_items e @ [x]\<rparr>) r),
     rd_ltrim = (\<lambda>t k a b r. case map_of r k of None \<Rightarrow> r
       | Some e \<Rightarrow> ref_put k (e\<lparr>re_items := take_last (nat (- a)) (re_items e)\<rparr>) r),
     rd_llen = (\<lambda>t k r. int (length (listing ref_view t k r))),
     rd_lindex = (\<lambda>t k i r. if i < int (length (listing ref_view t k r))
       then Some (listing ref_view t k r ! nat i) else None),
     rd_persist = (\<lambda>t k r. if alive ref_view t k r
       then ref_put k ((the (map_of r k))\<lparr>re_deadline := None\<rparr>) r else r),
     rd_expire_nx = (\<lambda>t k ttl r. if alive ref_view t k r \<and> rv_deadline ref_view k r = None
       then ref_put k ((the (map_of r k))\<lparr>re_deadline := Some (t + ttl)\<rparr>) r else r),
     rd_del = (\<lambda>t ks r. filter (\<lambda>(k, _). k \<notin> set ks) r),
     rd_scan = (\<lambda>t p r. filter (\<lambda>k. alive ref_view t k r \<and> glob p k) (map fst r))\<rparr>"

lemma map_of_ref_put: "map_of (ref_put k e r) k' = (if k' = k then Some e else map_of r k')"
proof -
  have "map_of (filter (\<lambda>(x, _). x \<noteq> k) r) k' = (if k' = k then None else map_of r k')"
    by (induction r) auto
  then show ?thesis by (simp add: ref_put_def)
qed

lemma map_of_filter_keys:
  "map_of (filter (\<lambda>(k, _). k \<notin> set ks) r) k = (if k \<in> set ks then None else map_of r k)"
  by (induction r) auto

lemma ref_view_put [simp]:
  "rv_exists ref_view k' (ref_put k e r) \<longleftrightarrow> k' = k \<or> rv_exists ref_view k' r"
  "rv_deadline ref_view k' (ref_put k e r) = (if k' = k then re_deadline e else rv_deadline ref_view k' r)"
  "rv_fields ref_view k' (ref_put k e r) = (if k' = k then re_fields e else rv_fields ref_view k' r)"
  "rv_items ref_view k' (ref_put k e r) = (if k' = k then re_items e else rv_items ref_view k' r)"
  by (simp_all add: ref_view_def map_of_ref_put)

lemma ref_entry_view:
  "re_deadline (ref_entry t k r) = (if alive ref_view t k r then rv_deadline ref_view k r else None)"
  "re_fields (ref_entry t k r) = (if alive ref_view t k r then rv_fields ref_view k r else Map.empty)"
  "re_items (ref_entry t k r) = listing ref_view t k r"
  by (auto simp: ref_entry_def listing_def alive_def ref_view_def split: option.splits)

lemma glob_free_chars: "glob_free (c # p) \<longleftrightarrow> c \<notin> set (CHR 0x5C # ''*?[]^'') \<and> glob_free p"
  by (auto simp: glob_free_def contains_any_def)

lemma glob_literal: "glob_free p \<Longrightarrow> glob p k \<longleftrightarrow> k = p"
  by (induction p k rule: glob.induct) (auto simp: glob_free_chars)

lemma glob_star: "glob ''*'' k"
  by (induction k) simp_all

lemma glob_prefix: "glob_free p \<Longrightarrow> glob (p @ ''*'') k \<longleftrightarrow> has_prefix k p"
proof (induction p arbitrary: k)
  case Nil
  then show ?case by (simp add: glob_star has_prefix_def)
next
  case (Cons a p)
  then show ?case by (cases k) (auto simp: glob_free_chars has_prefix_def)
qed

lemma ref_same_key_put [simp]: "k' \<noteq> k \<Longrightarrow> same_key ref_view k' r (ref_put k e r)"
  by (simp add: same_key_def)

lemma ref_alive_map_of: "alive ref_view t k r \<Longrightarrow> \<exists>e. map_of r k = Some e"
  by (auto simp: alive_def ref_view_def split: option.splits)

lemma ref_view_entry:
  assumes "map_of r k = Some e"
  shows "rv_exists ref_view k r" "rv_deadline ref_view k r = re_deadline e"
    "rv_fields ref_view k r = re_fields e" "rv_items ref_view k r = re_items e"
  using assms by (simp_all add: ref_view_def)

lemma ref_same_key_filter: "k \<notin> set ks \<Longrightarrow> same_key ref_view k r (filter (\<lambda>(k, _). k \<notin> set ks) r)"
  by (simp add: same_key_def ref_view_def map_of_filter_keys)

interpretation ref_hashes: redis_hashes ref_ops ref_view
proof
  fix t k f m n and r :: ref_redis
  assume "alive ref_view t k r" "rv_fields ref_view k r f = Some (itoa m)" "in_int64 m"
    "in_int64 (m + n)"
  then show "rv_fields ref_view k (rd_hincrby ref_ops t k f n r) =
      (rv_fields ref_view k r)(f \<mapsto> itoa (m + n))"
    by (simp add: ref_ops_def Let_def ref_entry_view atoi_itoa add.commute)
next
  fix t k ms and r :: ref_redis
  assume "alive ref_view t k r"
  then obtain e where "map_of r k = Some e" using ref_alive_map_of by blast
  then show "\<exists>d. rv_deadline ref_view k (rd_pexpire ref_ops t k ms r) = Some d \<and> t + 1000 * ms \<le> d"
    by (simp add: ref_ops_def)
next
  fix t k ms and r :: ref_redis
  show "rv_exists ref_view k (rd_pexpire ref_ops t k ms r) = rv_exists ref_view k r"
    "rv_fields ref_view k (rd_pexpire ref_ops t k ms r) = rv_fields ref_view k r"
    by (cases "map_of r k"; simp add: ref_ops_def ref_view_entry)+
next
  fix t k ms and k' :: string and r :: ref_redis
  assume "k' \<noteq> k"
  then show "same_key ref_view k' r (rd_pexpire ref_ops t k ms r)"
    by (cases "map_of r k") (simp_all add: ref_ops_def)
qed (simp_all add: ref_ops_def Let_def ref_entry_view)

interpretation ref_lists: redis_lists ref_ops ref_view
proof
  fix t k and n :: nat and r :: ref_redis
  assume a: "alive ref_view t k r" "rv_items ref_view k r \<noteq> []" "0 < n"
  obtain e where "map_of r k = Some e" using ref_alive_map_of [OF a(1)] by blast
  then show "rv_items ref_view k (rd_ltrim ref_ops t k (- int n) (-1) r) = take_last n (rv_items ref_view k r)
      \<and> rv_exists ref_view k (rd_ltrim ref_ops t k (- int n) (-1) r)
      \<and> rv_deadline ref_view k (rd_ltrim ref_ops t k (- int n) (-1) r) = rv_deadline ref_view k r"
    by (simp add: ref_ops_def ref_view_entry)
next
  fix t k a b and k' :: string and r :: ref_redis
  assume "k' \<noteq> k"
  then show "same_key ref_view k' r (rd_ltrim ref_ops t k a b r)"
    by (cases "map_of r k") (simp_all add: ref_ops_def)
qed (simp_all add: ref_ops_def Let_def ref_entry_view)

interpretation ref_keyspace: redis_keyspace glob ref_ops ref_view
proof
  fix p k
  show "glob_free p \<Longrightarrow> glob p k \<longleftrightarrow> k = p" by (rule glob_literal)
  show "glob_free p \<Longrightarrow> glob (p @ ''*'') k \<longleftrightarrow> has_prefix k p" by (rule glob_prefix)
next
  fix t p and r :: ref_redis
  have "k \<in> fst ` set r" if "alive ref_view t k r" for k
    using ref_alive_map_of [OF that] by (force dest: map_of_SomeD)
  then show "set (rd_scan ref_ops t p r) = {k. alive ref_view t k r \<and> glob p k}"
    by (auto simp: ref_ops_def)
next
  fix t k ttl and k' :: string and r :: ref_redis
  have e: "\<exists>e. map_of r k = Some e" if "alive ref_view t k r" using ref_alive_map_of [OF that] .
  show "rv_deadline ref_view k (rd_persist ref_ops t k r) =
      (if alive ref_view t k r then None else rv_deadline ref_view k r)"
    "rv_exists ref_view k (rd_persist ref_ops t k r) = rv_exists ref_view k r"
    "rv_items ref_view k (rd_persist ref_ops t k r) = rv_items ref_view k r"
    "rv_deadline ref_view k (rd_expire_nx ref_ops t k ttl r) =
      (if alive ref_view t k r \<and> rv_deadline ref_view k r = None then Some (t + ttl)
       else rv_deadline ref_view k r)"
    "rv_exists ref_view k (rd_expire_nx ref_ops t k ttl r) = rv_exists ref_view k r"
    "rv_items ref_view k (rd_expire_nx ref_ops t k ttl r) = rv_items ref_view k r"
    using e by (auto simp: ref_ops_def ref_view_entry)
  assume "k' \<noteq> k"
  then show "same_key ref_view k' r (rd_persist ref_ops t k r)"
    "same_key ref_view k' r (rd_expire_nx ref_ops t k ttl r)"
    by (simp_all add: ref_ops_def)
next
  fix t k ks and r :: ref_redis
  show "k \<in> set ks \<Longrightarrow> \<not> rv_exists ref_view k (rd_del ref_ops t ks r)"
    by (simp add: ref_ops_def ref_view_def map_of_filter_keys)
  show "k \<notin> set ks \<Longrightarrow> same_key ref_view k r (rd_del ref_ops t ks r)"
    by (simp add: ref_ops_def ref_same_key_filter)
qed

subsection \<open>Properties\<close>

text \<open>C18. The cleanup patterns of a scenario match every key its runner may write and no key
  of another scenario, for any server whose \<open>MATCH\<close> treats text without pattern characters
  as text. Without such characters in the scope the cleanup is exact.\<close>

theorem cleanup_exact:
  assumes "redis_match matches" and "validateScope s = None" and "validateScope s' = None"
    and "glob_free (sc_namespace s)" and "glob_free (sc_scenario s)" and "glob_free (sc_uid s)"
  shows "(owns s k \<longrightarrow> (\<exists>p \<in> set (CleanupPatterns s). matches p k))
    \<and> (owns s' k \<and> s' \<noteq> s \<longrightarrow> (\<forall>p \<in> set (CleanupPatterns s). \<not> matches p k))"
  using redis_match.cleanup_owned [OF assms(1,2,4-6)]
    redis_match.cleanup_foreign [OF assms(1,2,4-6) _ assms(3)] by blast

theorem cleanup_exact_witness:
  "\<not> glob ''kurama:v2:rate-limit:n:s:u'' (RateLimitKey \<lparr>sc_namespace = ''n'', sc_scenario = ''s'', sc_uid = ''v''\<rparr>)"
  using cleanup_exact [OF ref_keyspace.redis_match_axioms,
      of "\<lparr>sc_namespace = ''n'', sc_scenario = ''s'', sc_uid = ''u''\<rparr>"
        "\<lparr>sc_namespace = ''n'', sc_scenario = ''s'', sc_uid = ''v''\<rparr>"
        "RateLimitKey \<lparr>sc_namespace = ''n'', sc_scenario = ''s'', sc_uid = ''v''\<rparr>"]
  by (simp add: owns.intros err_simps scope_parts_def glob_free_def contains_any_def
      CleanupPatterns_def RateLimitKey_def kindPrefix_def key_constants)

end
