(* ===== verification/Redis_Limiter.thy ===== *)
theory Redis_Limiter
  imports Redis_Server Rate_Limiter
begin

section \<open>The distributed rate limiter\<close>

text \<open>
  \<open>RedisRateLimiter.TryAcquire\<close> and the Lua script it runs on the server. The script is
  atomic and reads the server's clock once, so it is one step of the server at one time.
  Its numbers are doubles in Lua; they are integers here, which is exact below \<open>2 ^ 53\<close>
  (microseconds until the year 2255).

  A call may be answered, may never reach the server, or may be executed without its
  answer arriving. The client's own retries are further calls in this sense, so a history
  of calls covers them.
\<close>

datatype fault = Delivered | RequestLost | ReplyLost

record 'r redis_conn =
  cn_server :: 'r
  cn_faults :: "nat \<Rightarrow> fault"

definition next_faults :: "'r redis_conn \<Rightarrow> 'r redis_conn" where
  "next_faults c = c\<lparr>cn_faults := (\<lambda>i. cn_faults c (Suc i))\<rparr>"

lemma next_faults_server [simp]: "cn_server (next_faults c) = cn_server c"
  by (simp add: next_faults_def)

text \<open>\<open>math.ceil(a / b)\<close> for a positive \<open>b\<close>.\<close>

definition ceil_div :: "int \<Rightarrow> int \<Rightarrow> int" where
  "ceil_div a b = - ((- a) div b)"

lemma ceil_div_ge: "0 < b \<Longrightarrow> a \<le> b * ceil_div a b"
proof -
  assume "0 < b"
  then have "0 \<le> - a mod b" by simp
  moreover have "b * (- a div b) + - a mod b = - a" by (rule mult_div_mod_eq)
  ultimately show ?thesis unfolding ceil_div_def mult_minus_right by linarith
qed

text \<open>The result is the script's reply, or \<open>None\<close> where the script fails.\<close>

definition acquire_rate_limit ::
  "'r redis_ops \<Rightarrow> int \<Rightarrow> string \<Rightarrow> int \<Rightarrow> int \<Rightarrow> int \<Rightarrow> 'r \<Rightarrow> int list option \<times> 'r" where
  "acquire_rate_limit ops now_micros key requests window_micros requested_permits r =
     (let window_start = now_micros - now_micros mod window_micros;
          window_token = itoa window_start;
          stored_window = rd_hget ops now_micros key ''window'' r;
          (count, r1) =
            (if stored_window = None \<or> stored_window \<noteq> Some window_token
             then (Some 0, rd_hset ops now_micros key
                     [(''window'', window_token), (''count'', itoa 0)] r)
             else (atoi (case rd_hget ops now_micros key ''count'' r of
                     None \<Rightarrow> ''0'' | Some c \<Rightarrow> c), r))
      in case count of
           None \<Rightarrow> (None, r1)
         | Some count \<Rightarrow>
            (let remaining = max (requests - count) 0;
                 granted = min requested_permits remaining;
                 r2 = (if 0 < granted then rd_hincrby ops now_micros key ''count'' granted r1 else r1);
                 retry_after_micros = window_start + window_micros - now_micros;
                 ttl_millis = ceil_div (retry_after_micros + window_micros) 1000;
                 r3 = rd_pexpire ops now_micros key ttl_millis r2
             in (Some (if granted = requested_permits then [granted, 0]
                       else [granted, retry_after_micros]), r3)))"

definition redisTryAcquire ::
  "'r redis_ops \<Rightarrow> string \<Rightarrow> ctx \<Rightarrow> int \<Rightarrow> limit \<Rightarrow> int \<Rightarrow> 'r redis_conn
    \<Rightarrow> (decision \<times> limiter_error option) \<times> 'r redis_conn" where
  "redisTryAcquire ops key ctx now lim permits c =
     (case acquire_checks ctx lim permits of
        Some e \<Rightarrow> ((no_decision, Some e), c)
      | None \<Rightarrow>
         (let windowMicros = lim_window lim div 1000
          in if windowMicros < 1 then ((no_decision, Some WindowBelowMicrosecond), c)
             else if cn_faults c 0 = RequestLost
             then ((no_decision, Some RedisAcquire), next_faults c)
             else
               (case acquire_rate_limit ops (now div 1000) key (lim_requests lim) windowMicros
                       permits (cn_server c) of
                  (None, r') \<Rightarrow> ((no_decision, Some RedisAcquire), (next_faults c)\<lparr>cn_server := r'\<rparr>)
                | (Some result, r') \<Rightarrow>
                   (if cn_faults c 0 = ReplyLost
                    then ((no_decision, Some RedisAcquire), (next_faults c)\<lparr>cn_server := r'\<rparr>)
                    else if length result \<noteq> 2
                    then ((no_decision, Some (RedisResultLength (length result))),
                          (next_faults c)\<lparr>cn_server := r'\<rparr>)
                    else ((\<lparr>granted = result ! 0, retry_after = result ! 1 * 1000\<rparr>, None),
                          (next_faults c)\<lparr>cn_server := r'\<rparr>)))))"

subsection \<open>What the server records\<close>

definition window_start_micros :: "int \<Rightarrow> int \<Rightarrow> int" where
  "window_start_micros W t = t - t mod W"

definition recorded :: "'r redis_view \<Rightarrow> string \<Rightarrow> int \<Rightarrow> 'r \<Rightarrow> int \<Rightarrow> int" where
  "recorded v key W r t =
     (if alive v t key r \<and> rv_fields v key r ''window'' = Some (itoa (window_start_micros W t))
      then (case rv_fields v key r ''count'' of None \<Rightarrow> 0
            | Some c \<Rightarrow> (case atoi c of None \<Rightarrow> 0 | Some n \<Rightarrow> n))
      else 0)"

text \<open>
  The state the scripts keep: the hash holds a window and a count, and it does not expire
  before the end of its window.
\<close>

definition limiter_hash_ok :: "'r redis_view \<Rightarrow> string \<Rightarrow> int \<Rightarrow> 'r \<Rightarrow> bool" where
  "limiter_hash_ok v key W r \<longleftrightarrow>
     (\<forall>t. alive v t key r \<longrightarrow>
        (\<exists>w n. rv_fields v key r ''window'' = Some (itoa w)
           \<and> rv_fields v key r ''count'' = Some (itoa n) \<and> 0 \<le> n \<and> n \<le> max_int64
           \<and> (\<forall>t' < w + W. alive v t' key r)))"

lemma limiter_hash_okD:
  assumes "limiter_hash_ok v key W r" and "alive v t key r"
  obtains w n where "rv_fields v key r ''window'' = Some (itoa w)"
    "rv_fields v key r ''count'' = Some (itoa n)" "0 \<le> n" "n \<le> max_int64"
    "\<And>t'. t' < w + W \<Longrightarrow> alive v t' key r"
  using assms by (fastforce simp: limiter_hash_ok_def)

lemma atoi_count: "0 \<le> n \<Longrightarrow> n \<le> max_int64 \<Longrightarrow> atoi (itoa n) = Some n"
  by (rule atoi_itoa) (simp add: in_int64_def max_int64_def)

lemma recorded_bounds:
  "limiter_hash_ok v key W r \<Longrightarrow> 0 \<le> recorded v key W r t \<and> recorded v key W r t \<le> max_int64"
  by (cases "alive v t key r")
    (auto simp: recorded_def max_int64_def atoi_count elim!: limiter_hash_okD)

lemma recorded_fields:
  assumes "rv_fields v key r ''window'' = Some (itoa w)"
    and "rv_fields v key r ''count'' = Some (itoa n)" and "0 \<le> n" and "n \<le> max_int64"
    and "\<And>t'. t' < w + W \<Longrightarrow> alive v t' key r" and "0 < W"
  shows "recorded v key W r t = (if window_start_micros W t = w then n else 0)"
    and "limiter_hash_ok v key W r"
proof -
  have "window_start_micros W t = w \<Longrightarrow> alive v t key r"
    using pos_mod_bound [OF \<open>0 < W\<close>, of t] by (intro assms(5)) (simp add: window_start_micros_def)
  then show "recorded v key W r t = (if window_start_micros W t = w then n else 0)"
    using assms(1-4) by (auto simp: recorded_def atoi_count)
  show "limiter_hash_ok v key W r" using assms(1-5) by (auto simp: limiter_hash_ok_def)
qed

lemma recorded_window:
  assumes "limiter_hash_ok v key W r" and "0 < W"
    and "window_start_micros W t = window_start_micros W t'"
  shows "recorded v key W r t = recorded v key W r t'"
proof (cases "alive v t key r \<or> alive v t' key r")
  case True
  then obtain w n where f: "rv_fields v key r ''window'' = Some (itoa w)"
    "rv_fields v key r ''count'' = Some (itoa n)" "0 \<le> n" "n \<le> max_int64"
    "\<And>t'. t' < w + W \<Longrightarrow> alive v t' key r"
    using limiter_hash_okD [OF assms(1)] by metis
  show ?thesis using recorded_fields(1) [OF f assms(2)] assms(3) by simp
next
  case False
  then show ?thesis by (simp add: recorded_def)
qed

subsection \<open>The script\<close>

context redis_hashes
begin

text \<open>The first half of the script: after it, the hash is about the current window.\<close>

lemma hset_fresh:
  "rv_fields v key (rd_hset ops t key [(''window'', a), (''count'', b)] r) ''window'' = Some a"
  "rv_fields v key (rd_hset ops t key [(''window'', a), (''count'', b)] r) ''count'' = Some b"
  by (simp_all add: hset_fields)

lemma hset_alive: "alive v t key (rd_hset ops t key fvs r)"
  by (auto simp: alive_def hset_exists hset_deadline split: option.splits)

lemma script_load:
  fixes t :: int
  assumes "limiter_hash_ok v key W r"
  defines "ws \<equiv> window_start_micros W t" and "n \<equiv> recorded v key W r t"
  obtains r1 where
    "(if rd_hget ops t key ''window'' r = None \<or> rd_hget ops t key ''window'' r \<noteq> Some (itoa ws)
      then (Some 0, rd_hset ops t key [(''window'', itoa ws), (''count'', itoa 0)] r)
      else (atoi (case rd_hget ops t key ''count'' r of None \<Rightarrow> ''0'' | Some c \<Rightarrow> c), r)) = (Some n, r1)"
    "alive v t key r1" "rv_fields v key r1 ''window'' = Some (itoa ws)"
    "rv_fields v key r1 ''count'' = Some (itoa n)" "\<And>k. k \<noteq> key \<Longrightarrow> same_key v k r r1"
proof (cases "rd_hget ops t key ''window'' r = Some (itoa ws)")
  case True
  then have a: "alive v t key r" "rv_fields v key r ''window'' = Some (itoa ws)"
    by (simp_all add: hget split: if_splits)
  then obtain m where m: "rv_fields v key r ''count'' = Some (itoa m)" "0 \<le> m" "m \<le> max_int64"
    using limiter_hash_okD [OF assms(1) a(1)] by metis
  then have "n = m" using a by (simp add: n_def recorded_def ws_def atoi_count)
  then show ?thesis using that [of r] True a m by (simp add: hget atoi_count)
next
  case False
  then have "n = 0" by (auto simp: n_def recorded_def ws_def hget split: if_splits)
  then show ?thesis
    using that [of "rd_hset ops t key [(''window'', itoa ws), (''count'', itoa 0)] r"] False
    by (simp add: hset_fresh hset_alive hset_other)
qed

text \<open>The second half: the grant is recorded and the key outlives the next window.\<close>

lemma script_store:
  assumes "alive v t key r1" and "rv_fields v key r1 ''count'' = Some (itoa n)"
    and "in_int64 n" and "in_int64 (n + g)" and "0 < ms"
  defines "r2 \<equiv> (if 0 < g then rd_hincrby ops t key ''count'' g r1 else r1)"
  defines "r3 \<equiv> rd_pexpire ops t key ms r2"
  shows "rv_fields v key r3 = (rv_fields v key r1)(''count'' \<mapsto> itoa (n + max 0 g))"
    and "t' < t + 1000 * ms \<Longrightarrow> alive v t' key r3"
    and "k \<noteq> key \<Longrightarrow> same_key v k r1 r3"
proof -
  have alive2: "alive v t key r2"
    using assms(1) by (auto simp: r2_def alive_def hincrby_exists hincrby_deadline)
  have fields2: "rv_fields v key r2 = (rv_fields v key r1)(''count'' \<mapsto> itoa (n + max 0 g))"
    using assms(1-4) by (auto simp: r2_def hincrby_fields max_def)
  then show "rv_fields v key r3 = (rv_fields v key r1)(''count'' \<mapsto> itoa (n + max 0 g))"
    by (simp add: r3_def pexpire_fields)
  obtain d where "rv_deadline v key r3 = Some d" "t + 1000 * ms \<le> d"
    using pexpire_deadline [OF alive2 assms(5)] by (auto simp: r3_def)
  moreover have "rv_exists v key r3" using alive2 by (simp add: r3_def pexpire_exists alive_def)
  ultimately show "t' < t + 1000 * ms \<Longrightarrow> alive v t' key r3" by (simp add: alive_def)
  show "k \<noteq> key \<Longrightarrow> same_key v k r1 r3"
    unfolding r3_def r2_def
    by (auto intro: pexpire_other same_key_trans [OF hincrby_other pexpire_other])
qed

lemma acquire_script:
  fixes t :: int
  assumes ok: "limiter_hash_ok v key W r" and W: "0 < W" and R: "R \<le> max_int64" "1 \<le> p" "p \<le> R"
  defines "ws \<equiv> window_start_micros W t"
  defines "g \<equiv> min p (max 0 (R - recorded v key W r t))"
  obtains r' where
    "acquire_rate_limit ops t key R W p r =
      (Some (if g = p then [g, 0] else [g, ws + W - t]), r')"
    "limiter_hash_ok v key W r'"
    "\<And>t'. recorded v key W r' t' =
      (if window_start_micros W t' = ws then recorded v key W r t + g else 0)"
    "\<And>k. k \<noteq> key \<Longrightarrow> same_key v k r r'"
proof -
  define n where "n = recorded v key W r t"
  have n: "0 \<le> n" "n \<le> max_int64" using recorded_bounds [OF ok, of t] by (simp_all add: n_def)
  have g: "0 \<le> g" "n + g \<le> max_int64" "g = min p (max (R - n) 0)"
    using R n by (auto simp: g_def n_def)
  obtain r1 where load:
    "(if rd_hget ops t key ''window'' r = None \<or> rd_hget ops t key ''window'' r \<noteq> Some (itoa ws)
      then (Some 0, rd_hset ops t key [(''window'', itoa ws), (''count'', itoa 0)] r)
      else (atoi (case rd_hget ops t key ''count'' r of None \<Rightarrow> ''0'' | Some c \<Rightarrow> c), r)) = (Some n, r1)"
    and r1: "alive v t key r1" "rv_fields v key r1 ''window'' = Some (itoa ws)"
    "rv_fields v key r1 ''count'' = Some (itoa n)" "\<And>k. k \<noteq> key \<Longrightarrow> same_key v k r r1"
    using script_load [OF ok, of t] unfolding ws_def n_def by metis
  define ms where "ms = ceil_div ((ws + W - t) + W) 1000"
  have "ws \<le> t" "t < ws + W" using W by (simp_all add: ws_def window_start_micros_def)
  moreover have "ws + W - t + W \<le> 1000 * ms"
    unfolding ms_def by (rule ceil_div_ge) simp
  ultimately have ms: "0 < ms" "ws + W \<le> t + 1000 * ms" using W by linarith+
  have i: "in_int64 n" "in_int64 (n + g)" using n g by (simp_all add: in_int64_def max_int64_def)
  define r' where "r' = rd_pexpire ops t key ms (if 0 < g then rd_hincrby ops t key ''count'' g r1 else r1)"
  note store = script_store [OF r1(1,3) i ms(1), folded r'_def]
  have f: "rv_fields v key r' ''window'' = Some (itoa ws)" "rv_fields v key r' ''count'' = Some (itoa (n + g))"
    using store(1) r1(2) g(1) by (simp_all add: max_def)
  have "alive v t' key r'" if "t' < ws + W" for t' using store(2) ms that by simp
  note rec = recorded_fields [OF f _ g(2) this W]
  have "acquire_rate_limit ops t key R W p r = (Some (if g = p then [g, 0] else [g, ws + W - t]), r')"
    using load unfolding acquire_rate_limit_def Let_def ws_def window_start_micros_def
    by (simp add: g(3) [symmetric] r'_def ms_def ws_def window_start_micros_def)
  moreover have "\<And>k. k \<noteq> key \<Longrightarrow> same_key v k r r'"
    using store(3) r1(4) by (blast intro: same_key_trans)
  ultimately show ?thesis using that [of r'] rec n g unfolding n_def by simp
qed

end

subsection \<open>The limiter keeps the window contract\<close>

text \<open>
  Every runner of a scenario uses the same key, so one history of calls is what all of
  them ask the server, in the order in which it executes the scripts.
\<close>

abbreviation minute_micros :: int where
  "minute_micros \<equiv> 60000000"

definition redis_inv :: "'r redis_view \<Rightarrow> string \<Rightarrow> 'r redis_conn \<Rightarrow> bool" where
  "redis_inv v key c \<longleftrightarrow> limiter_hash_ok v key minute_micros (cn_server c)"

definition redis_spent :: "'r redis_view \<Rightarrow> string \<Rightarrow> 'r redis_conn \<Rightarrow> int \<Rightarrow> int" where
  "redis_spent v key c now = recorded v key minute_micros (cn_server c) (now div 1000)"

lemma micros_window:
  "window_start_micros minute_micros (t div 1000) = window_start_micros minute_micros (t' div 1000)
    \<longleftrightarrow> truncate_time t minute = truncate_time t' minute"
proof -
  have "t div 1000 div 60000000 = t div minute" for t
    by (simp add: profile_constants zdiv_zmult2_eq [symmetric])
  then show ?thesis
    by (simp add: window_start_micros_def truncate_time_def minus_mod_eq_mult_div profile_constants)
qed

context redis_hashes
begin

lemma redisTryAcquire_cases:
  assumes "redis_inv v key c" and "limit_fits minute lim"
  obtains (refused) e c' where "redisTryAcquire ops key ctx now lim p c = ((no_decision, Some e), c')"
      "cn_server c' = cn_server c" "acquire_checks ctx lim p \<noteq> None \<or> cn_faults c 0 = RequestLost"
  | (served) g d c' where "acquire_checks ctx lim p = None"
      "redisTryAcquire ops key ctx now lim p c = (d, c')"
      "g = min p (max 0 (lim_requests lim - redis_spent v key c now))" "0 \<le> g"
      "d = (if cn_faults c 0 = ReplyLost then (no_decision, Some RedisAcquire)
            else (\<lparr>granted = g,
                retry_after = (if g = p then 0
                  else (window_start_micros minute_micros (now div 1000) + minute_micros
                        - now div 1000) * 1000)\<rparr>, None))"
      "redis_inv v key c'"
      "\<And>t. redis_spent v key c' t =
        (if truncate_time t minute = truncate_time now minute then redis_spent v key c now + g else 0)"
      "\<And>k. k \<noteq> key \<Longrightarrow> same_key v k (cn_server c) (cn_server c')"
proof (cases "acquire_checks ctx lim p = None \<and> cn_faults c 0 \<noteq> RequestLost")
  case False
  have "\<not> lim_window lim div 1000 < 1"
    using assms(2) by (simp add: limit_fits_def profile_constants)
  with False have "\<exists>e c'. redisTryAcquire ops key ctx now lim p c = ((no_decision, Some e), c')
      \<and> cn_server c' = cn_server c"
    by (cases "acquire_checks ctx lim p") (simp_all add: redisTryAcquire_def Let_def)
  then show ?thesis using refused False by blast
next
  case True
  then have v: "1 \<le> p" "p \<le> lim_requests lim" by (simp_all add: err_simps)
  have lim: "lim_requests lim \<le> max_int64" "lim_window lim div 1000 = minute_micros"
    using assms(2) by (simp_all add: limit_fits_def profile_constants)
  define g where "g = min p (max 0 (lim_requests lim - redis_spent v key c now))"
  obtain r' where script:
    "acquire_rate_limit ops (now div 1000) key (lim_requests lim) minute_micros p (cn_server c) =
      (Some (if g = p then [g, 0] else
        [g, window_start_micros minute_micros (now div 1000) + minute_micros - now div 1000]), r')"
    "limiter_hash_ok v key minute_micros r'"
    "\<And>t. recorded v key minute_micros r' t =
      (if window_start_micros minute_micros t = window_start_micros minute_micros (now div 1000)
       then redis_spent v key c now + g else 0)"
    "\<And>k. k \<noteq> key \<Longrightarrow> same_key v k (cn_server c) r'"
    using acquire_script [of key minute_micros "cn_server c" "lim_requests lim" p "now div 1000"]
      assms(1) lim(1) v unfolding redis_inv_def redis_spent_def g_def by auto
  define c' where "c' = (next_faults c)\<lparr>cn_server := r'\<rparr>"
  have eq: "redisTryAcquire ops key ctx now lim p c =
      (if cn_faults c 0 = ReplyLost then (no_decision, Some RedisAcquire)
       else (\<lparr>granted = g, retry_after = (if g = p then 0
           else (window_start_micros minute_micros (now div 1000) + minute_micros
                 - now div 1000) * 1000)\<rparr>, None), c')"
    using True script(1) lim(2) by (simp add: redisTryAcquire_def Let_def c'_def)
  have spent: "redis_spent v key c' t =
      (if truncate_time t minute = truncate_time now minute then redis_spent v key c now + g else 0)" for t
    unfolding redis_spent_def [of v key c'] by (simp add: c'_def script(3) micros_window)
  have "0 \<le> g" using v(1) by (simp add: g_def)
  moreover have "redis_inv v key c'" "\<And>k. k \<noteq> key \<Longrightarrow> same_key v k (cn_server c) (cn_server c')"
    using script(2,4) by (simp_all add: redis_inv_def c'_def)
  ultimately show ?thesis using True by (intro served [OF _ eq g_def _ refl _ spent]) simp_all
qed

end

locale redis_limiter = redis_hashes ops v
  for ops :: "'r redis_ops" and v :: "'r redis_view" +
  fixes key :: string

sublocale redis_limiter < redis_window: window_limiter "redisTryAcquire ops key" "redis_inv v key"
  minute "redis_spent v key"
proof
  fix s :: "'r redis_conn" and lim :: limit and ctx now p
  assume a: "redis_inv v key s" "limit_fits minute lim"
  show "redis_inv v key (snd (redisTryAcquire ops key ctx now lim p s))"
    by (rule redisTryAcquire_cases [OF a, of ctx now p]) (use a in \<open>simp_all add: redis_inv_def\<close>)
  show "0 \<le> granted (fst (fst (redisTryAcquire ops key ctx now lim p s)))"
    by (rule redisTryAcquire_cases [OF a, of ctx now p]) (simp_all add: no_decision_def)
  show "granted (fst (fst (redisTryAcquire ops key ctx now lim p s)))
      \<le> max 0 (lim_requests lim - redis_spent v key s now)"
    by (rule redisTryAcquire_cases [OF a, of ctx now p]) (auto simp: no_decision_def)
  show "redis_spent v key s now + granted (fst (fst (redisTryAcquire ops key ctx now lim p s)))
      \<le> redis_spent v key (snd (redisTryAcquire ops key ctx now lim p s)) now"
    by (rule redisTryAcquire_cases [OF a, of ctx now p])
      (auto simp: no_decision_def redis_spent_def)
  fix t
  assume "truncate_time t minute \<noteq> truncate_time now minute"
  moreover have "0 \<le> redis_spent v key s t"
    using a(1) recorded_bounds [of v key minute_micros "cn_server s"] by (simp add: redis_inv_def redis_spent_def)
  ultimately show "redis_spent v key (snd (redisTryAcquire ops key ctx now lim p s)) t
      \<le> redis_spent v key s t"
    by (rule_tac redisTryAcquire_cases [OF a, of ctx now p]) (auto simp: redis_spent_def)
next
  fix s s' :: "'r redis_conn" and lim :: limit and ctx now p d
  assume a: "redis_inv v key s" "limit_fits minute lim"
    and eq: "redisTryAcquire ops key ctx now lim p s = ((d, None), s')"
  show "0 \<le> granted d \<and> granted d \<le> p"
    by (rule redisTryAcquire_cases [OF a, of ctx now p]) (use eq in \<open>auto split: if_splits\<close>)
  have "0 \<le> now div 1000 mod minute_micros" "now div 1000 mod minute_micros < minute_micros"
    by simp_all
  then show "0 < retry_after d \<and> retry_after d \<le> minute" if "granted d < p"
    by (rule_tac redisTryAcquire_cases [OF a, of ctx now p])
      (use eq that in \<open>auto simp: window_start_micros_def profile_constants split: if_splits\<close>)
next
  fix lim :: limit and ctx now p d e and s s' :: "'r redis_conn"
  assume "redisTryAcquire ops key ctx now lim p s = ((d, Some e), s')"
  then show "granted d = 0"
    by (auto simp: redisTryAcquire_def Let_def no_decision_def
        split: option.splits if_splits prod.splits)
next
  show "0 < minute" by (simp add: profile_constants)
next
  fix s :: "'r redis_conn" and t
  assume "redis_inv v key s"
  then show "0 \<le> redis_spent v key s t"
    using recorded_bounds [of v key minute_micros "cn_server s"] by (simp add: redis_inv_def redis_spent_def)
next
  fix s :: "'r redis_conn" and t t'
  assume "redis_inv v key s" "truncate_time t minute = truncate_time t' minute"
  then show "redis_spent v key s t = redis_spent v key s t'"
    unfolding redis_spent_def redis_inv_def
    by (intro recorded_window) (simp_all add: micros_window)
qed

context redis_limiter
begin

lemma redis_budget:
  assumes "\<not> rv_exists v key (cn_server c)" and "0 \<le> R" and "R \<le> max_int64"
    and "sorted (map ac_now cs)"
    and "\<And>x. x \<in> set cs \<Longrightarrow> lim_window (ac_limit x) = minute \<and> lim_requests (ac_limit x) \<le> R"
  shows "granted_in minute w cs (run_calls (redisTryAcquire ops key) c cs) \<le> R"
proof -
  have "\<not> alive v t key (cn_server c)" for t using assms(1) by (simp add: alive_def)
  then show ?thesis using assms(2-5)
    by (intro redis_window.window_budget)
      (auto simp: redis_inv_def limiter_hash_ok_def redis_spent_def recorded_def)
qed

end

interpretation ref_limiter: redis_limiter ref_ops ref_view key
  for key :: string
  by unfold_locales

subsection \<open>Properties\<close>

text \<open>C3. All replicas together stay within the budget of a window.\<close>

theorem redis_window_budget:
  fixes c :: "'r redis_conn"
  assumes "redis_hashes ops v" and "\<not> rv_exists v key (cn_server c)"
    and "0 \<le> R" and "R \<le> max_int64" and "sorted (map ac_now cs)"
    and "\<And>x. x \<in> set cs \<Longrightarrow> lim_window (ac_limit x) = minute \<and> lim_requests (ac_limit x) \<le> R"
  shows "granted_in minute w cs (run_calls (redisTryAcquire ops key) c cs) \<le> R"
  using assms by (intro redis_limiter.redis_budget) (simp_all add: redis_limiter_def)

theorem redis_window_budget_witness:
  "granted_in minute 0
     [\<lparr>ac_ctx = None, ac_now = 5000, ac_limit = \<lparr>lim_requests = 3, lim_window = minute\<rparr>, ac_permits = 2\<rparr>,
      \<lparr>ac_ctx = None, ac_now = 7000, ac_limit = \<lparr>lim_requests = 3, lim_window = minute\<rparr>, ac_permits = 2\<rparr>]
     (run_calls (redisTryAcquire ref_ops ''k'') \<lparr>cn_server = [], cn_faults = (\<lambda>_. Delivered)\<rparr>
       [\<lparr>ac_ctx = None, ac_now = 5000, ac_limit = \<lparr>lim_requests = 3, lim_window = minute\<rparr>, ac_permits = 2\<rparr>,
        \<lparr>ac_ctx = None, ac_now = 7000, ac_limit = \<lparr>lim_requests = 3, lim_window = minute\<rparr>, ac_permits = 2\<rparr>])
     \<le> 3"
  by (rule redis_window_budget [OF ref_hashes.redis_hashes_axioms])
    (auto simp: max_int64_def ref_view_def)

end
