(* ===== verification/Rate_Schedule.thy ===== *)
theory Rate_Schedule
  imports Redis_Limiter
begin

section \<open>Rate schedules\<close>

text \<open>
  The package \<open>internal/runner/rateschedule\<close>: the constant schedule, the uniform schedule
  whose value all replicas share through Redis, the Lua script that selects it, and the
  instrumented decorator.

  A call takes the context, the server's time in nanoseconds, the caller's random source and
  the schedule's state; its result is \<open>None\<close> where the code would panic. The locales state
  what the scheduler relies on (\<open>rate_schedule\<close>) and what makes replicas agree
  (\<open>window_schedule\<close>).
\<close>

subsection \<open>Schedules\<close>

datatype schedule_error =
    ScheduleContext ctx_error
  | ScheduleRedis

type_synonym 's schedule_call =
  "ctx \<Rightarrow> int \<Rightarrow> rng \<Rightarrow> 's \<Rightarrow> ((int \<times> schedule_error option) \<times> rng \<times> 's) option"

definition fixedRequestsPerMinute :: "int \<Rightarrow> 's schedule_call" where
  "fixedRequestsPerMinute rpm ctx now r s =
     (case ctx of
        Some e \<Rightarrow> Some ((0, Some (ScheduleContext e)), r, s)
      | None \<Rightarrow> Some ((rpm, None), r, s))"

record redis_uniform_config =
  uc_min_requests :: int
  uc_max_requests :: int
  uc_window :: int

record redis_uniform =
  ru_key :: string
  ru_min_requests :: int
  ru_range_size :: int
  ru_window :: int

datatype uniform_error =
    UniformClientNil
  | UniformScope scope_error
  | MinRequestsNotPositive
  | MaxRequestsBelowMin
  | WindowNotWholeMinutes
  | UniformRandomNil
  | RangeTooLarge

definition newRedisUniform ::
  "bool \<Rightarrow> scope \<Rightarrow> redis_uniform_config \<Rightarrow> bool \<Rightarrow> uniform_error + redis_uniform" where
  "newRedisUniform client_nil s c random_nil =
     (if client_nil then Inl UniformClientNil
      else case validateScope s of
        Some e \<Rightarrow> Inl (UniformScope e)
      | None \<Rightarrow>
         if uc_min_requests c < 1 then Inl MinRequestsNotPositive
         else if uc_max_requests c < uc_min_requests c then Inl MaxRequestsBelowMin
         else if uc_window c < minute \<or> uc_window c mod minute \<noteq> 0 then Inl WindowNotWholeMinutes
         else if random_nil then Inl UniformRandomNil
         else
           (let rangeSize = i64 (i64 (uc_max_requests c - uc_min_requests c) + 1)
            in if rangeSize < 1 then Inl RangeTooLarge
               else Inr \<lparr>ru_key = scheduleKey s (uc_min_requests c) (uc_max_requests c)
                                      (uc_window c div 1000),
                         ru_min_requests = uc_min_requests c, ru_range_size = rangeSize,
                         ru_window = uc_window c\<rparr>))"

text \<open>
  The script. Lua's \<open>tonumber\<close> is \<open>atoi\<close> on what the script itself stores; a stored value
  that is no number gives a nil reply, which the client reports as an error.
\<close>

definition select_uniform_window ::
  "'r redis_ops \<Rightarrow> int \<Rightarrow> string \<Rightarrow> int \<Rightarrow> int \<Rightarrow> 'r \<Rightarrow> int option \<times> 'r" where
  "select_uniform_window ops now_micros key window_micros candidate r =
     (let window_start = now_micros - now_micros mod window_micros;
          window_token = itoa window_start;
          stored_window = rd_hget ops now_micros key ''window'' r;
          (selected, r1) =
            (if stored_window = None \<or> stored_window \<noteq> Some window_token
             then (Some candidate, rd_hset ops now_micros key
                     [(''window'', window_token), (''rpm'', itoa candidate)] r)
             else (Option.bind (rd_hget ops now_micros key ''rpm'' r) atoi, r));
          remaining_micros = window_start + window_micros - now_micros;
          ttl_millis = ceil_div (remaining_micros + window_micros) 1000
      in (selected, rd_pexpire ops now_micros key ttl_millis r1))"

definition redisRequestsPerMinute ::
  "'r redis_ops \<Rightarrow> redis_uniform \<Rightarrow> 'r redis_conn schedule_call" where
  "redisRequestsPerMinute ops u ctx now r c =
     (case ctx of
        Some e \<Rightarrow> Some ((0, Some (ScheduleContext e)), r, c)
      | None \<Rightarrow>
         (case rand_n (ru_range_size u) r of
            None \<Rightarrow> None
          | Some (d, r') \<Rightarrow>
             (let candidate = i64 (ru_min_requests u + d)
              in if cn_faults c 0 = RequestLost
                 then Some ((0, Some ScheduleRedis), r', next_faults c)
                 else
                   (case select_uniform_window ops (now div 1000) (ru_key u) (ru_window u div 1000)
                           candidate (cn_server c) of
                      (selected, srv) \<Rightarrow>
                        (case (if cn_faults c 0 = ReplyLost then None else selected) of
                           None \<Rightarrow> Some ((0, Some ScheduleRedis), r', (next_faults c)\<lparr>cn_server := srv\<rparr>)
                         | Some v \<Rightarrow> Some ((v, None), r', (next_faults c)\<lparr>cn_server := srv\<rparr>))))))"

subsection \<open>The instrumented schedule\<close>

record schedule_observation =
  so_type :: string
  so_result :: string
  so_requests_per_minute :: int
  so_duration :: int

record 's instrumented_schedule =
  is_inner :: 's
  is_clock :: "nat \<Rightarrow> int"
  is_seen :: "schedule_observation list"

definition newInstrumentedSchedule :: "bool \<Rightarrow> string \<Rightarrow> bool \<Rightarrow> instrument_error option" where
  "newInstrumentedSchedule schedule_nil scheduleType observer_nil =
     then_err (fail_if schedule_nil InnerNil)
       (then_err (fail_if (scheduleType = '''') LabelEmpty) (fail_if observer_nil ObserverNil))"

definition instrumentedRequestsPerMinute ::
  "'s schedule_call \<Rightarrow> string \<Rightarrow> 's instrumented_schedule schedule_call" where
  "instrumentedRequestsPerMinute inner scheduleType ctx now r s =
     (let started = is_clock s 0
      in case inner ctx now r (is_inner s) of
           None \<Rightarrow> None
         | Some ((rpm, err), r', inner') \<Rightarrow>
             Some ((rpm, err), r',
               s\<lparr>is_inner := inner', is_clock := (\<lambda>i. is_clock s (i + 2)),
                 is_seen := is_seen s @
                   [\<lparr>so_type = scheduleType,
                     so_result = (if err = None then ''success'' else ''error''),
                     so_requests_per_minute = rpm, so_duration = is_clock s 1 - started\<rparr>]\<rparr>))"

subsection \<open>The contracts\<close>

locale rate_schedule =
  fixes rpm_call :: "'s schedule_call" and inv :: "'s \<Rightarrow> bool" and lo hi :: int
  assumes schedule_total: "inv s \<Longrightarrow> rpm_call ctx now r s \<noteq> None"
    and schedule_inv: "inv s \<Longrightarrow> rpm_call ctx now r s = Some (res, r', s') \<Longrightarrow> inv s'"
    and schedule_range:
      "inv s \<Longrightarrow> rpm_call ctx now r s = Some ((n, None), r', s') \<Longrightarrow> lo \<le> n \<and> n \<le> hi"

text \<open>A history of calls, from any number of runners: context, time and random source.\<close>

type_synonym schedule_history = "(ctx \<times> int \<times> rng) list"

fun run_schedule ::
  "'s schedule_call \<Rightarrow> 's \<Rightarrow> schedule_history \<Rightarrow> (int \<times> schedule_error option) list option" where
  "run_schedule f s [] = Some []"
| "run_schedule f s ((ctx, now, r) # cs) =
     (case f ctx now r s of
        None \<Rightarrow> None
      | Some (res, _, s') \<Rightarrow> map_option ((#) res) (run_schedule f s' cs))"

definition call_time :: "ctx \<times> int \<times> rng \<Rightarrow> int" where
  "call_time c = fst (snd c)"

lemma call_time_triple [simp]: "call_time (ctx, now, r) = now"
  by (simp add: call_time_def)

text \<open>\<open>chosen s t\<close> is the value the state holds for the window of the time \<open>t\<close>.\<close>

locale window_schedule = rate_schedule rpm_call inv lo hi
  for rpm_call :: "'s schedule_call" and inv :: "'s \<Rightarrow> bool" and lo hi :: int +
  fixes W :: int and chosen :: "'s \<Rightarrow> int \<Rightarrow> int option"
  assumes schedule_window_pos: "0 < W"
    and chosen_stable:
      "inv s \<Longrightarrow> truncate_time t W = truncate_time t' W \<Longrightarrow> chosen s t = chosen s t'"
    and chosen_returned:
      "inv s \<Longrightarrow> rpm_call ctx now r s = Some ((n, None), r', s') \<Longrightarrow> chosen s now \<in> {None, Some n}"
    and chosen_after:
      "inv s \<Longrightarrow> rpm_call ctx now r s = Some ((n, None), r', s') \<Longrightarrow> chosen s' now = Some n"
    and chosen_kept:
      "inv s \<Longrightarrow> rpm_call ctx now r s = Some (res, r', s') \<Longrightarrow> chosen s now = Some x
        \<Longrightarrow> chosen s' now = Some x"
begin

lemma run_schedule_total: "inv s \<Longrightarrow> \<exists>rs. run_schedule rpm_call s cs = Some rs \<and> length rs = length cs"
proof (induction cs arbitrary: s)
  case Nil
  then show ?case by simp
next
  case (Cons c cs)
  obtain ctx now r where c: "c = (ctx, now, r)" by (cases c)
  obtain res r' s' where "rpm_call ctx now r s = Some (res, r', s')"
    using schedule_total [OF Cons.prems] by (metis option.exhaust prod.exhaust)
  then show ?case using Cons.IH [OF schedule_inv [OF Cons.prems]] by (fastforce simp: c)
qed

lemma answers_chosen:
  assumes "inv s" and "run_schedule rpm_call s cs = Some rs"
    and "sorted (map call_time cs)" and "\<And>c. c \<in> set cs \<Longrightarrow> t0 \<le> call_time c"
    and "chosen s t0 = Some x"
    and "j < length cs" and "truncate_time (call_time (cs ! j)) W = truncate_time t0 W"
    and "rs ! j = (n, None)"
  shows "n = x"
  using assms
proof (induction cs arbitrary: s rs j t0)
  case Nil
  then show ?case by simp
next
  case (Cons c cs)
  obtain ctx now r where c: "c = (ctx, now, r)" by (cases c)
  obtain res r' s' rs' where step: "rpm_call ctx now r s = Some (res, r', s')"
    "run_schedule rpm_call s' cs = Some rs'" "rs = res # rs'"
    using Cons.prems(2) by (auto simp: c split: option.splits prod.splits)
  have now: "t0 \<le> now" "call_time c = now" using Cons.prems(4) [of c] by (simp_all add: c)
  have here: "truncate_time now W = truncate_time t0 W"
  proof (cases j)
    case 0
    then show ?thesis using Cons.prems(7) now by simp
  next
    case (Suc i)
    then have "now \<le> call_time (cs ! i)" using Cons.prems(3,6) now by auto
    then have "truncate_time now W \<le> truncate_time t0 W"
      using truncate_time_mono [OF schedule_window_pos] Cons.prems(7) Suc by fastforce
    then show ?thesis using truncate_time_mono [OF schedule_window_pos now(1)] by simp
  qed
  then have ch: "chosen s now = Some x"
    using chosen_stable [OF Cons.prems(1) here] Cons.prems(5) by simp
  show ?case
  proof (cases j)
    case 0
    then have "res = (n, None)" using Cons.prems(8) step(3) by simp
    then show ?thesis using chosen_returned [OF Cons.prems(1)] step(1) ch by fastforce
  next
    case (Suc i)
    show ?thesis
    proof (rule Cons.IH [OF schedule_inv [OF Cons.prems(1) step(1)] step(2), of now i])
      show "chosen s' now = Some x" by (rule chosen_kept [OF Cons.prems(1) step(1) ch])
    qed (use Cons.prems Suc here now step(3) in auto)
  qed
qed

lemma answers_agree:
  assumes "inv s" and "run_schedule rpm_call s cs = Some rs" and "sorted (map call_time cs)"
    and "i < j" and "j < length cs"
    and "truncate_time (call_time (cs ! i)) W = truncate_time (call_time (cs ! j)) W"
    and "rs ! i = (m, None)" and "rs ! j = (n, None)"
  shows "m = n"
  using assms
proof (induction cs arbitrary: s rs i j)
  case Nil
  then show ?case by simp
next
  case (Cons c cs)
  obtain ctx now r where c: "c = (ctx, now, r)" by (cases c)
  obtain res r' s' rs' where step: "rpm_call ctx now r s = Some (res, r', s')"
    "run_schedule rpm_call s' cs = Some rs'" "rs = res # rs'"
    using Cons.prems(2) by (auto simp: c split: option.splits prod.splits)
  note s' = schedule_inv [OF Cons.prems(1) step(1)]
  obtain j' where j: "j = Suc j'" using Cons.prems(4) by (cases j) auto
  show ?case
  proof (cases i)
    case 0
    then have "res = (m, None)" using Cons.prems(7) step(3) by simp
    then have "chosen s' now = Some m" using chosen_after [OF Cons.prems(1)] step(1) by simp
    then show ?thesis
      using answers_chosen [OF s' step(2), of now m j' n] Cons.prems(3,5,6,8) 0 j step(3)
      by (simp add: c)
  next
    case (Suc i')
    then show ?thesis using Cons.IH [OF s' step(2), of i' j'] Cons.prems j step(3) by simp
  qed
qed

lemma answer_in_range:
  assumes "inv s" and "run_schedule rpm_call s cs = Some rs" and "(n, None) \<in> set rs"
  shows "lo \<le> n \<and> n \<le> hi"
  using assms
proof (induction cs arbitrary: s rs)
  case Nil
  then show ?case by simp
next
  case (Cons c cs)
  obtain ctx now r where c: "c = (ctx, now, r)" by (cases c)
  obtain res r' s' rs' where step: "rpm_call ctx now r s = Some (res, r', s')"
    "run_schedule rpm_call s' cs = Some rs'" "rs = res # rs'"
    using Cons.prems(2) by (auto simp: c split: option.splits prod.splits)
  show ?case
    using Cons.IH [OF schedule_inv [OF Cons.prems(1) step(1)] step(2)] Cons.prems(3)
      schedule_range [OF Cons.prems(1)] step by auto
qed

end

interpretation fixed_schedule: window_schedule "fixedRequestsPerMinute rpm" "\<lambda>_. True" rpm rpm minute
  "\<lambda>_ _. Some rpm" for rpm :: int
  by unfold_locales (auto simp: fixedRequestsPerMinute_def profile_constants split: option.splits)

subsection \<open>The uniform schedule keeps the contracts\<close>

definition uniform_ok :: "redis_uniform \<Rightarrow> bool" where
  "uniform_ok u \<longleftrightarrow> 1 \<le> ru_min_requests u \<and> 1 \<le> ru_range_size u
     \<and> ru_min_requests u + ru_range_size u - 1 \<le> max_int64 \<and> minute \<le> ru_window u
     \<and> ru_window u mod minute = 0"

definition uniform_max :: "redis_uniform \<Rightarrow> int" where
  "uniform_max u = ru_min_requests u + ru_range_size u - 1"

lemma newRedisUniform_Inr:
  assumes "newRedisUniform client_nil s c random_nil = Inr u" and "uc_max_requests c \<le> max_int64"
  shows "uniform_ok u" and "ru_min_requests u = uc_min_requests c" and "uniform_max u = uc_max_requests c"
    and "ru_window u = uc_window c" and "validateScope s = None"
    and "ru_key u = scheduleKey s (uc_min_requests c) (uc_max_requests c) (uc_window c div 1000)"
proof -
  have m: "validateScope s = None" "1 \<le> uc_min_requests c" "uc_min_requests c \<le> uc_max_requests c"
    "minute \<le> uc_window c" "uc_window c mod minute = 0"
    and u: "u = \<lparr>ru_key = scheduleKey s (uc_min_requests c) (uc_max_requests c) (uc_window c div 1000),
      ru_min_requests = uc_min_requests c,
      ru_range_size = i64 (i64 (uc_max_requests c - uc_min_requests c) + 1), ru_window = uc_window c\<rparr>"
    using assms(1) by (auto simp: newRedisUniform_def Let_def split: if_splits option.splits)
  have i: "i64 (i64 (uc_max_requests c - uc_min_requests c) + 1) = uc_max_requests c - uc_min_requests c + 1"
    using m(2,3) assms(2) by (simp add: i64_id max_int64_def)
  show "uniform_ok u" using m assms(2) by (simp add: uniform_ok_def u i)
  show "uniform_max u = uc_max_requests c" by (simp add: uniform_max_def u i)
  show "ru_min_requests u = uc_min_requests c" "ru_window u = uc_window c" "validateScope s = None"
    "ru_key u = scheduleKey s (uc_min_requests c) (uc_max_requests c) (uc_window c div 1000)"
    using m by (simp_all add: u)
qed

text \<open>
  The last check of the constructor cannot fail: the range cannot overflow, because the
  minimum is at least one.
\<close>

lemma range_never_too_large:
  "uc_max_requests c \<le> max_int64 \<Longrightarrow> newRedisUniform client_nil s c random_nil \<noteq> Inl RangeTooLarge"
  by (auto simp: newRedisUniform_def Let_def i64_id max_int64_def split: option.splits)

definition schedule_hash_ok :: "'r redis_view \<Rightarrow> redis_uniform \<Rightarrow> 'r \<Rightarrow> bool" where
  "schedule_hash_ok v u r \<longleftrightarrow>
     (\<forall>t. alive v t (ru_key u) r \<longrightarrow>
        (\<exists>w n. rv_fields v (ru_key u) r ''window'' = Some (itoa w)
           \<and> rv_fields v (ru_key u) r ''rpm'' = Some (itoa n)
           \<and> ru_min_requests u \<le> n \<and> n \<le> uniform_max u
           \<and> (\<forall>t' < w + ru_window u div 1000. alive v t' (ru_key u) r)))"

definition chosen_rpm :: "'r redis_view \<Rightarrow> redis_uniform \<Rightarrow> 'r \<Rightarrow> int \<Rightarrow> int option" where
  "chosen_rpm v u r t =
     (if alive v t (ru_key u) r
         \<and> rv_fields v (ru_key u) r ''window'' = Some (itoa (window_start_micros (ru_window u div 1000) t))
      then Option.bind (rv_fields v (ru_key u) r ''rpm'') atoi else None)"

lemma chosen_rpm_fields:
  assumes "rv_fields v (ru_key u) r ''window'' = Some (itoa w)"
    and "rv_fields v (ru_key u) r ''rpm'' = Some (itoa n)"
    and "ru_min_requests u \<le> n" and "n \<le> uniform_max u" and "uniform_ok u"
    and "\<And>t'. t' < w + ru_window u div 1000 \<Longrightarrow> alive v t' (ru_key u) r"
  shows "chosen_rpm v u r t = (if window_start_micros (ru_window u div 1000) t = w then Some n else None)"
    and "schedule_hash_ok v u r"
proof -
  have "in_int64 n" using assms(3-5) by (simp add: uniform_ok_def uniform_max_def in_int64_def max_int64_def)
  moreover have "window_start_micros (ru_window u div 1000) t = w \<Longrightarrow> alive v t (ru_key u) r"
  proof (rule assms(6))
    have "0 < ru_window u div 1000"
      using assms(5) by (simp add: uniform_ok_def profile_constants pos_imp_zdiv_pos_iff)
    then have "t mod (ru_window u div 1000) < ru_window u div 1000" by simp
    then show "window_start_micros (ru_window u div 1000) t = w \<Longrightarrow> t < w + ru_window u div 1000"
      by (simp add: window_start_micros_def)
  qed
  ultimately show "chosen_rpm v u r t =
      (if window_start_micros (ru_window u div 1000) t = w then Some n else None)"
    using assms(1,2) by (auto simp: chosen_rpm_def atoi_itoa)
  show "schedule_hash_ok v u r" using assms by (auto simp: schedule_hash_ok_def)
qed

lemma chosen_rpm_cases:
  assumes "schedule_hash_ok v u r" and "uniform_ok u"
  obtains (none) "\<And>t. chosen_rpm v u r t = None"
  | (window) w n where "rv_fields v (ru_key u) r ''window'' = Some (itoa w)"
      "rv_fields v (ru_key u) r ''rpm'' = Some (itoa n)"
      "ru_min_requests u \<le> n" "n \<le> uniform_max u"
      "\<And>t'. t' < w + ru_window u div 1000 \<Longrightarrow> alive v t' (ru_key u) r"
      "\<And>t. chosen_rpm v u r t = (if window_start_micros (ru_window u div 1000) t = w then Some n else None)"
proof (cases "\<exists>t. alive v t (ru_key u) r")
  case True
  then obtain w n where f: "rv_fields v (ru_key u) r ''window'' = Some (itoa w)"
    "rv_fields v (ru_key u) r ''rpm'' = Some (itoa n)" "ru_min_requests u \<le> n" "n \<le> uniform_max u"
    "\<And>t'. t' < w + ru_window u div 1000 \<Longrightarrow> alive v t' (ru_key u) r"
    using assms(1) unfolding schedule_hash_ok_def by blast
  then show ?thesis using chosen_rpm_fields(1) [OF f(1-4) assms(2) f(5)] window by blast
next
  case False
  then have "\<And>t. chosen_rpm v u r t = None" by (simp add: chosen_rpm_def)
  then show ?thesis by (rule none)
qed

lemma uniform_micros:
  assumes "uniform_ok u"
  shows "0 < ru_window u div 1000" and "ru_window u = 1000 * (ru_window u div 1000)"
proof -
  obtain k where "ru_window u = minute * k" "1 \<le> k"
    using assms by (auto simp: uniform_ok_def profile_constants elim: dvdE)
  then show "0 < ru_window u div 1000" "ru_window u = 1000 * (ru_window u div 1000)"
    by (simp_all add: profile_constants)
qed

context redis_hashes
begin

lemma select_script:
  fixes t :: int
  assumes ok: "schedule_hash_ok v u r" and u: "uniform_ok u"
    and cand: "ru_min_requests u \<le> candidate" "candidate \<le> uniform_max u"
  defines "W \<equiv> ru_window u div 1000"
  obtains n r' where "select_uniform_window ops t (ru_key u) W candidate r = (Some n, r')"
    "ru_min_requests u \<le> n" "n \<le> uniform_max u" "schedule_hash_ok v u r'"
    "chosen_rpm v u r t \<in> {None, Some n}"
    "\<And>t'. chosen_rpm v u r' t' =
      (if window_start_micros W t' = window_start_micros W t then Some n else None)"
    "\<And>k. k \<noteq> ru_key u \<Longrightarrow> same_key v k r r'"
proof -
  define ws where "ws = window_start_micros W t"
  define ms where "ms = ceil_div ((ws + W - t) + W) 1000"
  have W: "0 < W" using uniform_micros [OF u] by (simp add: W_def)
  have "ws \<le> t" "t < ws + W" using W by (simp_all add: ws_def window_start_micros_def)
  moreover have "ws + W - t + W \<le> 1000 * ms"
    unfolding ms_def by (rule ceil_div_ge) simp
  ultimately have ms: "0 < ms" "ws + W \<le> t + 1000 * ms" using W by linarith+
  define fresh where "fresh \<longleftrightarrow> rd_hget ops t (ru_key u) ''window'' r \<noteq> Some (itoa ws)"
  define r1 where "r1 = (if fresh then rd_hset ops t (ru_key u)
      [(''window'', itoa ws), (''rpm'', itoa candidate)] r else r)"
  have "\<exists>n. (if fresh then Some candidate else Option.bind (rd_hget ops t (ru_key u) ''rpm'' r) atoi) = Some n
      \<and> alive v t (ru_key u) r1 \<and> rv_fields v (ru_key u) r1 ''window'' = Some (itoa ws)
      \<and> rv_fields v (ru_key u) r1 ''rpm'' = Some (itoa n) \<and> ru_min_requests u \<le> n
      \<and> n \<le> uniform_max u \<and> chosen_rpm v u r t \<in> {None, Some n}"
  proof (cases fresh)
    case True
    then have "chosen_rpm v u r t = None"
      by (auto simp: fresh_def chosen_rpm_def hget ws_def W_def split: if_splits)
    then show ?thesis using True cand by (simp add: r1_def hset_alive hset_fields)
  next
    case False
    then have a: "alive v t (ru_key u) r" "rv_fields v (ru_key u) r ''window'' = Some (itoa ws)"
      by (simp_all add: fresh_def hget split: if_splits)
    then obtain n where n: "rv_fields v (ru_key u) r ''rpm'' = Some (itoa n)"
      "ru_min_requests u \<le> n" "n \<le> uniform_max u"
      using ok unfolding schedule_hash_ok_def by blast
    moreover have "in_int64 n"
      using n(2,3) u by (simp add: uniform_ok_def uniform_max_def in_int64_def max_int64_def)
    ultimately show ?thesis
      using False a by (simp add: r1_def hget atoi_itoa chosen_rpm_def ws_def W_def)
  qed
  then obtain n where n: "(if fresh then Some candidate
        else Option.bind (rd_hget ops t (ru_key u) ''rpm'' r) atoi) = Some n"
    "alive v t (ru_key u) r1" "rv_fields v (ru_key u) r1 ''window'' = Some (itoa ws)"
    "rv_fields v (ru_key u) r1 ''rpm'' = Some (itoa n)" "ru_min_requests u \<le> n"
    "n \<le> uniform_max u" "chosen_rpm v u r t \<in> {None, Some n}" by blast
  define r' where "r' = rd_pexpire ops t (ru_key u) ms r1"
  have run: "select_uniform_window ops t (ru_key u) W candidate r = (Some n, r')"
    using n(1) by (cases fresh) (auto simp: select_uniform_window_def Let_def r'_def r1_def ms_def
        ws_def window_start_micros_def fresh_def)
  have alive: "alive v t' (ru_key u) r'" if "t' < ws + W" for t'
    using pexpire_deadline [OF n(2) ms(1)] n(2) that ms(2)
    by (auto simp: alive_def r'_def pexpire_exists split: option.splits)
  note after = chosen_rpm_fields [of v u r' ws n, OF _ _ n(5,6) u alive [unfolded W_def]]
  have fields: "rv_fields v (ru_key u) r' = rv_fields v (ru_key u) r1"
    by (simp add: r'_def pexpire_fields)
  have other: "same_key v k r r'" if "k \<noteq> ru_key u" for k
    using same_key_trans [OF hset_other [OF that] pexpire_other [OF that]] pexpire_other [OF that]
    by (simp add: r'_def r1_def)
  show ?thesis
    by (rule that [OF run n(5,6) _ n(7) _ other])
      (use after n(3,4) in \<open>simp_all add: fields W_def ws_def\<close>)
qed

lemma redisRequestsPerMinute_cases:
  assumes "schedule_hash_ok v u (cn_server c)" and u: "uniform_ok u"
  defines "W \<equiv> ru_window u div 1000"
  obtains (failed) e c' r' where "redisRequestsPerMinute ops u ctx now r c = Some ((0, Some e), r', c')"
      "cn_server c' = cn_server c"
  | (served) n res c' r' where "redisRequestsPerMinute ops u ctx now r c = Some (res, r', c')"
      "res \<in> {(n, None), (0, Some ScheduleRedis)}"
      "ru_min_requests u \<le> n" "n \<le> uniform_max u" "schedule_hash_ok v u (cn_server c')"
      "chosen_rpm v u (cn_server c) (now div 1000) \<in> {None, Some n}"
      "\<And>t'. chosen_rpm v u (cn_server c') t' =
        (if window_start_micros W t' = window_start_micros W (now div 1000) then Some n else None)"
proof (cases ctx)
  case (Some e)
  then show ?thesis using failed by (simp add: redisRequestsPerMinute_def)
next
  case None
  obtain d r' where d: "rand_n (ru_range_size u) r = Some (d, r')" "0 \<le> d" "d < ru_range_size u"
    using rand_n_total [of "ru_range_size u" r] u by (auto simp: uniform_ok_def)
  have i: "i64 (ru_min_requests u + d) = ru_min_requests u + d"
    using d u by (intro i64_id) (simp_all add: uniform_ok_def max_int64_def)
  show ?thesis
  proof (cases "cn_faults c 0 = RequestLost")
    case True
    then show ?thesis using failed None d by (simp add: redisRequestsPerMinute_def Let_def)
  next
    case False
    have b: "ru_min_requests u \<le> ru_min_requests u + d" "ru_min_requests u + d \<le> uniform_max u"
      using d by (simp_all add: uniform_max_def)
    obtain n srv where script:
      "select_uniform_window ops (now div 1000) (ru_key u) W (ru_min_requests u + d) (cn_server c) = (Some n, srv)"
      "ru_min_requests u \<le> n" "n \<le> uniform_max u" "schedule_hash_ok v u srv"
      "chosen_rpm v u (cn_server c) (now div 1000) \<in> {None, Some n}"
      "\<And>t'. chosen_rpm v u srv t' =
        (if window_start_micros W t' = window_start_micros W (now div 1000) then Some n else None)"
      unfolding W_def by (rule select_script [OF assms(1) u b, of "now div 1000"]) blast
    show ?thesis
      by (rule served [of "if cn_faults c 0 = ReplyLost then (0, Some ScheduleRedis) else (n, None)" r'
          "(next_faults c)\<lparr>cn_server := srv\<rparr>" n])
        (use None d i False script in \<open>simp_all add: redisRequestsPerMinute_def Let_def W_def\<close>)
  qed
qed

end

lemma schedule_windows:
  assumes "uniform_ok u"
  shows "window_start_micros (ru_window u div 1000) (t div 1000)
        = window_start_micros (ru_window u div 1000) (t' div 1000)
    \<longleftrightarrow> truncate_time t (ru_window u) = truncate_time t' (ru_window u)"
proof -
  define W where "W = ru_window u div 1000"
  have W: "0 < W" "ru_window u = 1000 * W" using uniform_micros [OF assms] by (simp_all add: W_def)
  have "t div 1000 div W = t div ru_window u" for t
    using W by (simp add: zdiv_zmult2_eq)
  then show ?thesis using W(1)
    by (simp add: window_start_micros_def truncate_time_def minus_mod_eq_mult_div W(2) flip: W_def)
qed

locale redis_schedule = redis_hashes ops v
  for ops :: "'r redis_ops" and v :: "'r redis_view" +
  fixes u :: redis_uniform
  assumes uniform: "uniform_ok u"

sublocale redis_schedule < shared_schedule: window_schedule "redisRequestsPerMinute ops u"
  "\<lambda>c. schedule_hash_ok v u (cn_server c)" "ru_min_requests u" "uniform_max u" "ru_window u"
  "\<lambda>c t. chosen_rpm v u (cn_server c) (t div 1000)"
proof
  fix s :: "'r redis_conn" and ctx now r
  assume a: "schedule_hash_ok v u (cn_server s)"
  show "redisRequestsPerMinute ops u ctx now r s \<noteq> None"
    by (rule redisRequestsPerMinute_cases [OF a uniform, of ctx now r]) auto
  fix res r' s'
  assume step: "redisRequestsPerMinute ops u ctx now r s = Some (res, r', s')"
  show "schedule_hash_ok v u (cn_server s')"
    by (rule redisRequestsPerMinute_cases [OF a uniform, of ctx now r]) (use a step in auto)
  show "chosen_rpm v u (cn_server s') (now div 1000) = Some x"
    if "chosen_rpm v u (cn_server s) (now div 1000) = Some x" for x
    by (rule redisRequestsPerMinute_cases [OF a uniform, of ctx now r]) (use that step in auto)
next
  fix s s' :: "'r redis_conn" and ctx now r n r'
  assume a: "schedule_hash_ok v u (cn_server s)"
    and step: "redisRequestsPerMinute ops u ctx now r s = Some ((n, None), r', s')"
  show "ru_min_requests u \<le> n \<and> n \<le> uniform_max u"
    by (rule redisRequestsPerMinute_cases [OF a uniform, of ctx now r]) (use step in auto)
  show "chosen_rpm v u (cn_server s) (now div 1000) \<in> {None, Some n}"
    by (rule redisRequestsPerMinute_cases [OF a uniform, of ctx now r]) (use step in auto)
  show "chosen_rpm v u (cn_server s') (now div 1000) = Some n"
    by (rule redisRequestsPerMinute_cases [OF a uniform, of ctx now r]) (use step in auto)
next
  show "0 < ru_window u" using uniform by (simp add: uniform_ok_def profile_constants)
next
  fix s :: "'r redis_conn" and t t'
  assume a: "schedule_hash_ok v u (cn_server s)"
    and w: "truncate_time t (ru_window u) = truncate_time t' (ru_window u)"
  show "chosen_rpm v u (cn_server s) (t div 1000) = chosen_rpm v u (cn_server s) (t' div 1000)"
    by (rule chosen_rpm_cases [OF a uniform])
      (use w schedule_windows [OF uniform, of t t'] in simp_all)
qed

context redis_schedule
begin

lemma replicas_agree:
  assumes "\<not> rv_exists v (ru_key u) (cn_server c)" and "sorted (map call_time cs)"
  shows "\<exists>rs. run_schedule (redisRequestsPerMinute ops u) c cs = Some rs \<and> length rs = length cs
    \<and> (\<forall>i j m n. i < j \<longrightarrow> j < length cs \<longrightarrow> rs ! i = (m, None) \<longrightarrow> rs ! j = (n, None)
        \<longrightarrow> truncate_time (call_time (cs ! i)) (ru_window u) = truncate_time (call_time (cs ! j)) (ru_window u)
        \<longrightarrow> m = n)
    \<and> (\<forall>n. (n, None) \<in> set rs \<longrightarrow> ru_min_requests u \<le> n \<and> n \<le> uniform_max u)"
proof -
  have ok: "schedule_hash_ok v u (cn_server c)"
    using assms(1) by (simp add: schedule_hash_ok_def alive_def)
  obtain rs where rs: "run_schedule (redisRequestsPerMinute ops u) c cs = Some rs" "length rs = length cs"
    using shared_schedule.run_schedule_total [OF ok] by blast
  show ?thesis
    using rs shared_schedule.answers_agree [OF ok rs(1) assms(2)]
      shared_schedule.answer_in_range [OF ok rs(1)] by blast
qed

end

definition example_uniform :: redis_uniform where
  "example_uniform = \<lparr>ru_key = ''k'', ru_min_requests = 10, ru_range_size = 11, ru_window = minute\<rparr>"

interpretation ref_schedule: redis_schedule ref_ops ref_view example_uniform
  by unfold_locales (simp add: uniform_ok_def example_uniform_def profile_constants max_int64_def)

subsection \<open>Properties\<close>

text \<open>C12. All replicas send at the same rate: whatever each of them proposes and whichever calls
  or replies are lost, two successful answers of one window are equal, every answer lies
  between the configured bounds, and no call panics.\<close>

theorem uniform_replicas_agree:
  fixes c :: "'r redis_conn"
  assumes "redis_hashes ops v" and "newRedisUniform client_nil s cfg random_nil = Inr u"
    and "uc_max_requests cfg \<le> max_int64"
    and "\<not> rv_exists v (ru_key u) (cn_server c)" and "sorted (map call_time cs)"
  shows "\<exists>rs. run_schedule (redisRequestsPerMinute ops u) c cs = Some rs \<and> length rs = length cs
    \<and> (\<forall>i j m n. i < j \<longrightarrow> j < length cs \<longrightarrow> rs ! i = (m, None) \<longrightarrow> rs ! j = (n, None)
        \<longrightarrow> truncate_time (call_time (cs ! i)) (uc_window cfg)
              = truncate_time (call_time (cs ! j)) (uc_window cfg)
        \<longrightarrow> m = n)
    \<and> (\<forall>n. (n, None) \<in> set rs \<longrightarrow> uc_min_requests cfg \<le> n \<and> n \<le> uc_max_requests cfg)"
proof -
  note u = newRedisUniform_Inr [OF assms(2,3)]
  have "redis_schedule ops v u"
    using assms(1) u(1) by (simp add: redis_schedule_def redis_schedule_axioms_def)
  from redis_schedule.replicas_agree [OF this assms(4,5)] show ?thesis by (simp add: u(2-4))
qed

theorem uniform_replicas_agree_witness:
  "\<exists>rs. run_schedule (redisRequestsPerMinute ref_ops
        \<lparr>ru_key = scheduleKey \<lparr>sc_namespace = ''n'', sc_scenario = ''s'', sc_uid = ''u''\<rparr> 10 20 60000000,
         ru_min_requests = 10, ru_range_size = 11, ru_window = minute\<rparr>)
      \<lparr>cn_server = [], cn_faults = (\<lambda>_. Delivered)\<rparr> [(None, 0, \<lambda>_. 7), (None, 5, \<lambda>_. 9)] = Some rs
    \<and> length rs = length [(None :: ctx, 0 :: int, \<lambda>_ :: nat. 7 :: nat), (None, 5, \<lambda>_. 9)]"
proof -
  let ?s = "\<lparr>sc_namespace = ''n'', sc_scenario = ''s'', sc_uid = ''u''\<rparr>"
  let ?cfg = "\<lparr>uc_min_requests = 10, uc_max_requests = 20, uc_window = minute\<rparr>"
  let ?u = "\<lparr>ru_key = scheduleKey ?s 10 20 60000000, ru_min_requests = 10, ru_range_size = 11,
    ru_window = minute\<rparr>"
  have "validateScope ?s = None" by (simp add: err_simps scope_parts_def)
  then have "newRedisUniform False ?s ?cfg False = Inr ?u"
    by (simp add: newRedisUniform_def Let_def profile_constants i64_def)
  from uniform_replicas_agree [OF ref_hashes.redis_hashes_axioms this,
      of "\<lparr>cn_server = [], cn_faults = (\<lambda>_. Delivered)\<rparr>" "[(None, 0, \<lambda>_. 7), (None, 5, \<lambda>_. 9)]"]
  show ?thesis by (auto simp: max_int64_def ref_view_def)
qed

end
