(* ===== verification/Runner_Config.thy ===== *)
theory Runner_Config
  imports Go_Strings
begin

section \<open>The runner's configuration\<close>

text \<open>
  \<open>internal/runner/config.go\<close> and the three files that validate it
  (\<open>config_validation.go\<close>, \<open>operation_validation.go\<close>, \<open>store_validation.go\<close>). A Go map is
  an association list in the order of one iteration; where the order decides only which
  error is reported, that is a lemma. What the validation asks of \<open>net/url\<close> and of the
  Unicode tables is the record \<open>go_lib\<close>.
\<close>

subsection \<open>Types\<close>

definition MaxConfigBytes :: nat where "MaxConfigBytes = 1048576"
definition MaxRequestBodyBytes :: nat where "MaxRequestBodyBytes = 65536"
definition MaxResponseBodyBytes :: nat where "MaxResponseBodyBytes = 1048576"
definition MaxRequestsPerMinute :: int where "MaxRequestsPerMinute = 6000"
definition MaxScheduleWindowMinutes :: int where "MaxScheduleWindowMinutes = 1440"
definition MaxProfileBurstSize :: int where "MaxProfileBurstSize = 100"
definition MaxProfileDelayDivisor :: int where "MaxProfileDelayDivisor = 100"
definition MaxOperations :: nat where "MaxOperations = 64"
definition MaxStores :: nat where "MaxStores = 32"
definition MaxStoreCapacity :: int where "MaxStoreCapacity = 100000"
definition MaxSecretHeaders :: nat where "MaxSecretHeaders = 64"
definition MaxSecretHeaderBytes :: nat where "MaxSecretHeaderBytes = 16384"
definition SecretHeadersMountPath :: string where
  "SecretHeadersMountPath = ''/var/run/kurama/request-secrets''"

lemmas config_limits = MaxConfigBytes_def MaxRequestBodyBytes_def MaxResponseBodyBytes_def
  MaxRequestsPerMinute_def MaxScheduleWindowMinutes_def MaxProfileBurstSize_def
  MaxProfileDelayDivisor_def MaxOperations_def MaxStores_def MaxStoreCapacity_def
  MaxSecretHeaders_def MaxSecretHeaderBytes_def

record target_config =
  tc_base_url :: string

record rate_schedule_config =
  rs_type :: string
  rs_requests_per_minute :: int
  rs_min_requests_per_minute :: int
  rs_max_requests_per_minute :: int
  rs_window_minutes :: int

record rate_limiter_config =
  rl_type :: string

record rate_profile_config =
  rp_type :: string
  rp_min_burst_size :: int
  rp_max_burst_size :: int
  rp_delay_divisor :: int

record rate_config =
  rc_schedule :: rate_schedule_config
  rc_limiter :: "rate_limiter_config option"
  rc_profile :: "rate_profile_config option"

record store_config =
  st_name :: string
  st_capacity :: int

record secret_header_config =
  sh_name :: string
  sh_value_file :: string

record variable_source =
  vs_type :: string
  vs_store :: string
  vs_length :: int

record variable_config =
  vc_name :: string
  vc_source :: variable_source

record capture_config =
  cc_json_pointer :: string
  cc_store :: string

record request_config =
  rq_method :: string
  rq_path_template :: string
  rq_headers :: "(string \<times> string) list"
  rq_secret_headers :: "secret_header_config list"
  rq_body_template :: string
  rq_variables :: "variable_config list"

record operation_config =
  oc_name :: string
  oc_weight :: int
  oc_request :: request_config
  oc_expected_status_codes :: "int list"
  oc_capture :: "capture_config option"

record config =
  cf_target :: target_config
  cf_rate :: rate_config
  cf_stores :: "store_config list"
  cf_operations :: "operation_config list"

text \<open>The parts of a parsed \<open>url.URL\<close> the program reads.\<close>

record url =
  url_scheme :: string
  url_host :: string
  url_has_user :: bool
  url_path :: string
  url_raw_query :: string
  url_fragment :: string

record go_lib =
  go_parse_request_uri :: "string \<Rightarrow> url option"
  go_parse_url :: "string \<Rightarrow> url option"
  go_resolve_reference :: "url \<Rightarrow> url \<Rightarrow> url"
  go_url_string :: "url \<Rightarrow> string"
  go_unicode_lower :: "string \<Rightarrow> string"

subsection \<open>Errors\<close>

datatype name_error = NameMustMatch string

datatype template_error =
    MalformedMarker
  | TemplateVariableName string

datatype pointer_error =
    PointerNoSlash
  | PointerBadEscape

datatype variable_error =
    VariableName name_error
  | UUIDSetsOthers
  | Base62Length
  | StoreSetsLength
  | UndeclaredStore string
  | SourceTypeUnsupported string

datatype header_error =
    HeaderNameInvalid string
  | HeaderSensitive string
  | HeaderLineBreak string
  | HeaderTemplate string
  | HeaderTransport string
  | TooManySecretHeaders
  | SecretHeaderNameInvalid nat string
  | SecretHeaderTransport string
  | HeaderTwice string
  | SecretPathNotAllowed nat

datatype operation_error =
    OperationName name_error
  | WeightOutOfRange
  | MethodUnsupported string
  | PathSlash
  | PathCharacter
  | BodyTooLarge
  | GetWithBody
  | OperationHeaders header_error
  | NoExpectedStatus
  | StatusInvalid int
  | StatusDuplicate int
  | OperationVariable nat variable_error
  | VariableDuplicate nat string
  | OperationTemplate template_error
  | TemplateUndefined string
  | VariableUnused string
  | CapturePointer pointer_error
  | CaptureStore string

datatype store_config_error =
    TooManyStores
  | StoreName nat name_error
  | StoreDuplicate nat string
  | StoreCapacity nat

datatype target_error =
    TargetNotAbsolute
  | TargetScheme string
  | TargetCredentials
  | TargetQueryOrFragment

datatype schedule_config_error =
    FixedRPMRange
  | FixedSetsUniform
  | UniformSetsRPM
  | UniformMinRange
  | UniformMaxRange
  | UniformWindowRange
  | ScheduleTypeUnsupported string

datatype profile_config_error =
    ProfileSetsBurst string
  | ProfileMinBurst
  | ProfileMaxBurst
  | ProfileDivisor
  | ProfileUnsupported string

datatype config_error =
    ConfigTarget target_error
  | ConfigSchedule schedule_config_error
  | ConfigLimiter string
  | ConfigProfile profile_config_error
  | ConfigStores store_config_error
  | ConfigOperationCount
  | ConfigOperation nat operation_error
  | ConfigOperationDuplicate nat string

subsection \<open>Names and stores\<close>

definition name_char :: "char \<Rightarrow> bool" where
  "name_char c \<longleftrightarrow> (let n = (of_char c :: nat) in (97 \<le> n \<and> n \<le> 122) \<or> (48 \<le> n \<and> n \<le> 57) \<or> n = 45)"

text \<open>\<open>^[a-z][a-z0-9-]{0,62}$\<close>\<close>

definition name_pattern :: "string \<Rightarrow> bool" where
  "name_pattern s =
     (case s of [] \<Rightarrow> False
      | c # cs \<Rightarrow> (let n = (of_char c :: nat) in 97 \<le> n \<and> n \<le> 122)
                  \<and> list_all name_char cs \<and> length cs \<le> 62)"

definition validateName :: "string \<Rightarrow> name_error option" where
  "validateName name = fail_if (\<not> name_pattern name) (NameMustMatch name)"

record validated_stores =
  vs_names :: "string list"
  vs_capacities :: "(string \<times> int) list"

fun validate_stores_from ::
  "nat \<Rightarrow> validated_stores \<Rightarrow> store_config list \<Rightarrow> store_config_error + validated_stores" where
  "validate_stores_from i v [] = Inr v"
| "validate_stores_from i v (c # cs) =
     (case validateName (st_name c) of
        Some e \<Rightarrow> Inl (StoreName i e)
      | None \<Rightarrow>
         if st_name c \<in> set (vs_names v) then Inl (StoreDuplicate i (st_name c))
         else if st_capacity c < 1 \<or> MaxStoreCapacity < st_capacity c then Inl (StoreCapacity i)
         else validate_stores_from (Suc i)
                \<lparr>vs_names = vs_names v @ [st_name c],
                 vs_capacities = vs_capacities v @ [(st_name c, st_capacity c)]\<rparr> cs)"

definition validateStoreConfigs :: "store_config list \<Rightarrow> store_config_error + validated_stores" where
  "validateStoreConfigs configs =
     (if MaxStores < length configs then Inl TooManyStores
      else validate_stores_from 0 \<lparr>vs_names = [], vs_capacities = []\<rparr> configs)"

lemma validateName_None [err_simps]: "validateName n = None \<longleftrightarrow> name_pattern n"
  by (simp add: validateName_def err_simps)

lemma validate_stores_from_Inr:
  "validate_stores_from i v cs = Inr v' \<longleftrightarrow>
    v' = \<lparr>vs_names = vs_names v @ map st_name cs,
          vs_capacities = vs_capacities v @ map (\<lambda>c. (st_name c, st_capacity c)) cs\<rparr>
    \<and> (\<forall>c \<in> set cs. name_pattern (st_name c) \<and> 1 \<le> st_capacity c \<and> st_capacity c \<le> MaxStoreCapacity
         \<and> st_name c \<notin> set (vs_names v))
    \<and> distinct (map st_name cs)"
proof (induction cs arbitrary: i v)
  case Nil
  then show ?case by auto
next
  case (Cons c cs)
  then show ?case
    by (auto simp: err_simps split: option.splits)
      (auto simp: validateName_def fail_if_def image_iff split: if_splits)
qed

lemma validateStoreConfigs_Inr:
  "validateStoreConfigs cs = Inr v \<longleftrightarrow>
    length cs \<le> MaxStores \<and> distinct (map st_name cs)
    \<and> (\<forall>c \<in> set cs. name_pattern (st_name c) \<and> 1 \<le> st_capacity c \<and> st_capacity c \<le> MaxStoreCapacity)
    \<and> v = \<lparr>vs_names = map st_name cs, vs_capacities = map (\<lambda>c. (st_name c, st_capacity c)) cs\<rparr>"
  by (auto simp: validateStoreConfigs_def validate_stores_from_Inr)

subsection \<open>Target and rate\<close>

definition validateTarget :: "go_lib \<Rightarrow> target_config \<Rightarrow> target_error option" where
  "validateTarget lib target =
     (case go_parse_request_uri lib (tc_base_url target) of
        None \<Rightarrow> Some TargetNotAbsolute
      | Some parsed \<Rightarrow>
         if url_scheme parsed = '''' \<or> url_host parsed = '''' then Some TargetNotAbsolute
         else if url_scheme parsed \<noteq> ''http'' \<and> url_scheme parsed \<noteq> ''https''
         then Some (TargetScheme (url_scheme parsed))
         else if url_has_user parsed then Some TargetCredentials
         else if url_raw_query parsed \<noteq> '''' \<or> url_fragment parsed \<noteq> ''''
         then Some TargetQueryOrFragment
         else None)"

definition validateRateSchedule :: "rate_schedule_config \<Rightarrow> schedule_config_error option" where
  "validateRateSchedule s =
     (if rs_type s = ''fixed'' then
        (if rs_requests_per_minute s < 1 \<or> MaxRequestsPerMinute < rs_requests_per_minute s
         then Some FixedRPMRange
         else if rs_min_requests_per_minute s \<noteq> 0 \<or> rs_max_requests_per_minute s \<noteq> 0
                 \<or> rs_window_minutes s \<noteq> 0
         then Some FixedSetsUniform
         else None)
      else if rs_type s = ''uniform'' then
        (if rs_requests_per_minute s \<noteq> 0 then Some UniformSetsRPM
         else if rs_min_requests_per_minute s < 1
                 \<or> MaxRequestsPerMinute < rs_min_requests_per_minute s
         then Some UniformMinRange
         else if rs_max_requests_per_minute s < rs_min_requests_per_minute s
                 \<or> MaxRequestsPerMinute < rs_max_requests_per_minute s
         then Some UniformMaxRange
         else if rs_window_minutes s < 1 \<or> MaxScheduleWindowMinutes < rs_window_minutes s
         then Some UniformWindowRange
         else None)
      else Some (ScheduleTypeUnsupported (rs_type s)))"

definition normalizedProfileType :: "string \<Rightarrow> string" where
  "normalizedProfileType t = (if t = '''' then ''fixed'' else t)"

definition validateRateProfile :: "rate_profile_config option \<Rightarrow> profile_config_error option" where
  "validateRateProfile profile =
     (case profile of
        None \<Rightarrow> None
      | Some p \<Rightarrow>
         if rp_type p = '''' \<or> rp_type p = ''fixed'' \<or> rp_type p = ''uniform'' then
           (if rp_min_burst_size p \<noteq> 0 \<or> rp_max_burst_size p \<noteq> 0 \<or> rp_delay_divisor p \<noteq> 0
            then Some (ProfileSetsBurst (normalizedProfileType (rp_type p)))
            else None)
         else if rp_type p = ''burst'' then
           (if rp_min_burst_size p < 2 \<or> MaxProfileBurstSize < rp_min_burst_size p
            then Some ProfileMinBurst
            else if rp_max_burst_size p < rp_min_burst_size p
                    \<or> MaxProfileBurstSize < rp_max_burst_size p
            then Some ProfileMaxBurst
            else if rp_delay_divisor p \<noteq> 0
                    \<and> (rp_delay_divisor p < 2 \<or> MaxProfileDelayDivisor < rp_delay_divisor p)
            then Some ProfileDivisor
            else None)
         else Some (ProfileUnsupported (rp_type p)))"

subsection \<open>Template markers\<close>

text \<open>
  \<open>\{\{([^{}]*)\}\}\<close>: the marker that begins a string, as its inner text and what follows
  it, and the replacement of all markers from left to right.
\<close>

definition no_brace :: "char \<Rightarrow> bool" where
  "no_brace c \<longleftrightarrow> c \<noteq> CHR ''{'' \<and> c \<noteq> CHR ''}''"

definition match_marker :: "string \<Rightarrow> (string \<times> string) option" where
  "match_marker s =
     (if has_prefix s ''{{'' then
        (let inner = takeWhile no_brace (drop 2 s); rest = dropWhile no_brace (drop 2 s)
         in if has_prefix rest ''}}'' then Some (inner, drop 2 rest) else None)
      else None)"

lemma match_marker_Some:
  "match_marker s = Some (inner, rest) \<longleftrightarrow>
    s = ''{{'' @ inner @ ''}}'' @ rest \<and> list_all no_brace inner"
proof
  assume m: "match_marker s = Some (inner, rest)"
  then obtain t where t: "s = ''{{'' @ t" by (auto simp: match_marker_def has_prefix_iff split: if_splits)
  with m obtain r where r: "inner = takeWhile no_brace t" "dropWhile no_brace t = ''}}'' @ r" "rest = r"
    by (auto simp: match_marker_def has_prefix_iff Let_def split: if_splits)
  have "t = inner @ ''}}'' @ rest"
    using takeWhile_dropWhile_id [of no_brace t] by (simp only: r)
  moreover have "list_all no_brace inner" unfolding r(1) list_all_iff by (blast dest: set_takeWhileD)
  ultimately show "s = ''{{'' @ inner @ ''}}'' @ rest \<and> list_all no_brace inner" using t by simp
next
  assume a: "s = ''{{'' @ inner @ ''}}'' @ rest \<and> list_all no_brace inner"
  have b: "\<not> no_brace CHR ''}''" by (simp add: no_brace_def)
  then have "takeWhile no_brace (inner @ ''}}'' @ rest) = inner \<and>
      dropWhile no_brace (inner @ ''}}'' @ rest) = ''}}'' @ rest"
    using a by (induction inner) (auto simp: takeWhile_append2 list_all_iff)
  then show "match_marker s = Some (inner, rest)"
    using a by (simp add: match_marker_def has_prefix_def Let_def)
qed

lemma match_marker_shorter: "match_marker s = Some (inner, rest) \<Longrightarrow> length rest < length s"
  by (auto simp: match_marker_Some)

function replace_markers :: "(string \<Rightarrow> string) \<Rightarrow> string \<Rightarrow> string" where
  "replace_markers f [] = []"
| "replace_markers f (c # s) =
     (case match_marker (c # s) of
        Some (inner, rest) \<Rightarrow> f inner @ replace_markers f rest
      | None \<Rightarrow> c # replace_markers f s)"
  by pat_completeness auto
termination
  by (relation "measure (\<lambda>(_, s). length s)") (auto dest: match_marker_shorter)

function markers :: "string \<Rightarrow> string list" where
  "markers [] = []"
| "markers (c # s) =
     (case match_marker (c # s) of
        Some (inner, rest) \<Rightarrow> inner # markers rest
      | None \<Rightarrow> markers s)"
  by pat_completeness auto
termination
  by (relation "measure length") (auto dest: match_marker_shorter)

definition template_names :: "string \<Rightarrow> string list" where
  "template_names template = map trim_space (markers template)"

definition templateVariables :: "string \<Rightarrow> template_error + string list" where
  "templateVariables template =
     (let variables = remdups (template_names template);
          remaining = replace_markers (\<lambda>_. '''') template
      in if contains remaining ''{{'' \<or> contains remaining ''}}'' then Inl MalformedMarker
         else case find (\<lambda>n. \<not> name_pattern n) variables of
                Some n \<Rightarrow> Inl (TemplateVariableName n)
              | None \<Rightarrow> Inr variables)"

text \<open>\<open>replaceTemplateVariables\<close> of \<open>executor_variables.go\<close>: a missing name is empty.\<close>

definition replaceTemplateVariables ::
  "string \<Rightarrow> (string \<rightharpoonup> string) \<Rightarrow> (string \<Rightarrow> string) \<Rightarrow> string" where
  "replaceTemplateVariables template values escape =
     replace_markers (\<lambda>inner. escape (case values (trim_space inner) of None \<Rightarrow> '''' | Some v \<Rightarrow> v))
       template"

subsection \<open>Headers\<close>

definition validHeaderName :: "string \<Rightarrow> bool" where
  "validHeaderName name \<longleftrightarrow> name \<noteq> '''' \<and> \<not> contains_any name (map char_of [32, 9, 13, 10, 58 :: nat])"

definition isTransportHeader :: "go_lib \<Rightarrow> string \<Rightarrow> bool" where
  "isTransportHeader lib name \<longleftrightarrow> to_lower (go_unicode_lower lib) name
     \<in> {''host'', ''content-length'', ''transfer-encoding'', ''connection''}"

definition isSensitiveHeader :: "go_lib \<Rightarrow> string \<Rightarrow> bool" where
  "isSensitiveHeader lib name \<longleftrightarrow> to_lower (go_unicode_lower lib) name
     \<in> {''authorization'', ''proxy-authorization'', ''cookie'', ''set-cookie'', ''x-api-key''}"

text \<open>\<open>path.Clean\<close>: the segments are processed from left to right on a stack.\<close>

definition clean_step :: "bool \<Rightarrow> string list \<Rightarrow> string \<Rightarrow> string list" where
  "clean_step rooted stack seg =
     (if seg = '''' \<or> seg = ''.'' then stack
      else if seg = ''..'' then
        (if stack \<noteq> [] \<and> last stack \<noteq> ''..'' then butlast stack
         else if rooted then stack else stack @ [''..''])
      else stack @ [seg])"

definition clean_segments :: "string \<Rightarrow> string list" where
  "clean_segments path = foldl (clean_step (has_prefix path ''/'')) [] (split_on CHR ''/'' path)"

definition clean_path :: "string \<Rightarrow> string" where
  "clean_path path =
     (if has_prefix path ''/'' then ''/'' @ join ''/'' (clean_segments path)
      else if clean_segments path = [] then ''.''
      else join ''/'' (clean_segments path))"

definition secretHeaderPathAllowed :: "string \<Rightarrow> bool" where
  "secretHeaderPathAllowed path \<longleftrightarrow>
     has_prefix (clean_path path) ''/''
     \<and> has_prefix (clean_path path) (clean_path SecretHeadersMountPath @ ''/'')"

fun validate_plain_headers ::
  "go_lib \<Rightarrow> string list \<Rightarrow> (string \<times> string) list \<Rightarrow> header_error + string list" where
  "validate_plain_headers lib seen [] = Inr seen"
| "validate_plain_headers lib seen ((name, value) # hs) =
     (if \<not> validHeaderName name then Inl (HeaderNameInvalid name)
      else if isSensitiveHeader lib name then Inl (HeaderSensitive name)
      else if contains_any value (map char_of [13, 10 :: nat]) then Inl (HeaderLineBreak name)
      else if contains value ''{{'' \<or> contains value ''}}'' then Inl (HeaderTemplate name)
      else
        (let canonicalName = to_lower (go_unicode_lower lib) name
         in if isTransportHeader lib canonicalName then Inl (HeaderTransport name)
            else validate_plain_headers lib (canonicalName # seen) hs))"

fun validate_secret_headers ::
  "go_lib \<Rightarrow> string list \<Rightarrow> nat \<Rightarrow> secret_header_config list \<Rightarrow> header_error option" where
  "validate_secret_headers lib seen i [] = None"
| "validate_secret_headers lib seen i (h # hs) =
     (if \<not> validHeaderName (sh_name h) then Some (SecretHeaderNameInvalid i (sh_name h))
      else
        (let canonicalName = to_lower (go_unicode_lower lib) (sh_name h)
         in if isTransportHeader lib canonicalName then Some (SecretHeaderTransport (sh_name h))
            else if canonicalName \<in> set seen then Some (HeaderTwice (sh_name h))
            else if \<not> secretHeaderPathAllowed (sh_value_file h) then Some (SecretPathNotAllowed i)
            else validate_secret_headers lib (canonicalName # seen) (Suc i) hs))"

definition validateHeaders ::
  "go_lib \<Rightarrow> (string \<times> string) list \<Rightarrow> secret_header_config list \<Rightarrow> header_error option" where
  "validateHeaders lib headers secretHeaders =
     (case validate_plain_headers lib [] headers of
        Inl e \<Rightarrow> Some e
      | Inr seen \<Rightarrow>
         if MaxSecretHeaders < length secretHeaders then Some TooManySecretHeaders
         else validate_secret_headers lib seen 0 secretHeaders)"

subsection \<open>Operations\<close>

definition validateVariable :: "string list \<Rightarrow> variable_config \<Rightarrow> variable_error option" where
  "validateVariable stores v =
     (case validateName (vc_name v) of
        Some e \<Rightarrow> Some (VariableName e)
      | None \<Rightarrow>
         (let src = vc_source v
          in if vs_type src = ''randomUUID'' then
               (if vs_store src \<noteq> '''' \<or> vs_length src \<noteq> 0 then Some UUIDSetsOthers else None)
             else if vs_type src = ''randomBase62'' then
               (if vs_store src \<noteq> '''' \<or> vs_length src < 1 \<or> 128 < vs_length src
                then Some Base62Length else None)
             else if vs_type src = ''store'' then
               (if vs_length src \<noteq> 0 then Some StoreSetsLength
                else if vs_store src \<notin> set stores then Some (UndeclaredStore (vs_store src))
                else None)
             else Some (SourceTypeUnsupported (vs_type src))))"

fun validate_statuses :: "int list \<Rightarrow> int list \<Rightarrow> operation_error option" where
  "validate_statuses seen [] = None"
| "validate_statuses seen (x # xs) =
     (if x < 100 \<or> 599 < x then Some (StatusInvalid x)
      else if x \<in> set seen then Some (StatusDuplicate x)
      else validate_statuses (x # seen) xs)"

fun validate_variables ::
  "string list \<Rightarrow> string list \<Rightarrow> nat \<Rightarrow> variable_config list \<Rightarrow> operation_error option" where
  "validate_variables stores seen i [] = None"
| "validate_variables stores seen i (v # vs) =
     (case validateVariable stores v of
        Some e \<Rightarrow> Some (OperationVariable i e)
      | None \<Rightarrow>
         if vc_name v \<in> set seen then Some (VariableDuplicate i (vc_name v))
         else validate_variables stores (vc_name v # seen) (Suc i) vs)"

fun pointer_escapes_ok :: "string \<Rightarrow> bool" where
  "pointer_escapes_ok [] \<longleftrightarrow> True"
| "pointer_escapes_ok (c # cs) \<longleftrightarrow>
     (if c = CHR ''~'' then
        (case cs of [] \<Rightarrow> False
         | d # ds \<Rightarrow> (d = CHR ''0'' \<or> d = CHR ''1'') \<and> pointer_escapes_ok ds)
      else pointer_escapes_ok cs)"

definition validateJSONPointer :: "string \<Rightarrow> pointer_error option" where
  "validateJSONPointer pointer =
     (if \<not> has_prefix pointer ''/'' then Some PointerNoSlash
      else if \<not> pointer_escapes_ok pointer then Some PointerBadEscape
      else None)"

definition check_template_use :: "request_config \<Rightarrow> operation_error option" where
  "check_template_use r =
     (let variables = map vc_name (rq_variables r)
      in case templateVariables (rq_path_template r @ [CHR 0x0A] @ rq_body_template r) of
           Inl e \<Rightarrow> Some (OperationTemplate e)
         | Inr used \<Rightarrow>
             then_err (map_option TemplateUndefined (find (\<lambda>n. n \<notin> set variables) used))
                      (map_option VariableUnused (find (\<lambda>n. n \<notin> set used) variables)))"

definition validate_capture :: "string list \<Rightarrow> capture_config option \<Rightarrow> operation_error option" where
  "validate_capture stores capture =
     (case capture of
        None \<Rightarrow> None
      | Some c \<Rightarrow>
         then_err (map_option CapturePointer (validateJSONPointer (cc_json_pointer c)))
                  (fail_if (cc_store c \<notin> set stores) (CaptureStore (cc_store c))))"

definition validateOperation ::
  "go_lib \<Rightarrow> operation_config \<Rightarrow> string list \<Rightarrow> operation_error option" where
  "validateOperation lib oper stores =
     (let r = oc_request oper
      in then_err (map_option OperationName (validateName (oc_name oper)))
        (then_err (fail_if (oc_weight oper < 1 \<or> 10000 < oc_weight oper) WeightOutOfRange)
        (then_err (fail_if (rq_method r \<noteq> ''GET'' \<and> rq_method r \<noteq> ''POST'')
                     (MethodUnsupported (rq_method r)))
        (then_err (fail_if (\<not> has_prefix (rq_path_template r) ''/''
                            \<or> has_prefix (rq_path_template r) ''//'') PathSlash)
        (then_err (fail_if (contains_any (rq_path_template r) (map char_of [13, 10, 92, 35 :: nat]))
                     PathCharacter)
        (then_err (fail_if (MaxRequestBodyBytes < length (rq_body_template r)) BodyTooLarge)
        (then_err (fail_if (rq_method r = ''GET'' \<and> rq_body_template r \<noteq> '''') GetWithBody)
        (then_err (map_option OperationHeaders
                     (validateHeaders lib (rq_headers r) (rq_secret_headers r)))
        (then_err (fail_if (oc_expected_status_codes oper = []) NoExpectedStatus)
        (then_err (validate_statuses [] (oc_expected_status_codes oper))
        (then_err (validate_variables stores [] 0 (rq_variables r))
        (then_err (check_template_use r)
                  (validate_capture stores (oc_capture oper))))))))))))))"

fun validate_operations ::
  "go_lib \<Rightarrow> string list \<Rightarrow> string list \<Rightarrow> nat \<Rightarrow> operation_config list \<Rightarrow> config_error option" where
  "validate_operations lib stores seen i [] = None"
| "validate_operations lib stores seen i (x # xs) =
     (case validateOperation lib x stores of
        Some e \<Rightarrow> Some (ConfigOperation i e)
      | None \<Rightarrow>
         if oc_name x \<in> set seen then Some (ConfigOperationDuplicate i (oc_name x))
         else validate_operations lib stores (oc_name x # seen) (Suc i) xs)"

definition validateLimiterType :: "rate_limiter_config option \<Rightarrow> config_error option" where
  "validateLimiterType l =
     (case l of
        None \<Rightarrow> None
      | Some l \<Rightarrow> fail_if (rl_type l \<notin> {'''', ''local'', ''redis''}) (ConfigLimiter (rl_type l)))"

definition validateConfig :: "go_lib \<Rightarrow> config \<Rightarrow> config_error option" where
  "validateConfig lib c =
     then_err (map_option ConfigTarget (validateTarget lib (cf_target c)))
       (then_err (map_option ConfigSchedule (validateRateSchedule (rc_schedule (cf_rate c))))
       (then_err (validateLimiterType (rc_limiter (cf_rate c)))
       (then_err (map_option ConfigProfile (validateRateProfile (rc_profile (cf_rate c))))
       (case validateStoreConfigs (cf_stores c) of
          Inl e \<Rightarrow> Some (ConfigStores e)
        | Inr stores \<Rightarrow>
           then_err (fail_if (cf_operations c = [] \<or> MaxOperations < length (cf_operations c))
                       ConfigOperationCount)
                    (validate_operations lib (vs_names stores) [] 0 (cf_operations c))))))"

subsection \<open>Decoding\<close>

text \<open>
  \<open>DecodeConfig\<close>: at most one byte more than the limit is read; \<open>encoding/json\<close> is a
  parameter that decodes one document and returns what follows it.
\<close>

datatype decode_error =
    ReadConfig
  | ConfigTooLarge
  | DecodeFailed
  | TrailingDocuments
  | TrailingData
  | InvalidConfig config_error

datatype any_result = AnyEOF | AnyError | AnyValue

record 'c json_decoder =
  jd_config :: "string \<Rightarrow> ('c \<times> string) option"
  jd_any :: "string \<Rightarrow> any_result"

definition ensureJSONEOF :: "'c json_decoder \<Rightarrow> string \<Rightarrow> decode_error option" where
  "ensureJSONEOF jd rest =
     (case jd_any jd rest of
        AnyEOF \<Rightarrow> None
      | AnyError \<Rightarrow> Some TrailingData
      | AnyValue \<Rightarrow> Some TrailingDocuments)"

text \<open>The reader is the bytes it would deliver and whether it fails after them.\<close>

definition decodeConfig ::
  "go_lib \<Rightarrow> config json_decoder \<Rightarrow> string \<times> bool \<Rightarrow> decode_error + config" where
  "decodeConfig lib jd reader =
     (let data = take (MaxConfigBytes + 1) (fst reader)
      in if snd reader \<and> length (fst reader) \<le> MaxConfigBytes then Inl ReadConfig
         else if MaxConfigBytes < length data then Inl ConfigTooLarge
         else case jd_config jd data of
                None \<Rightarrow> Inl DecodeFailed
              | Some (c, rest) \<Rightarrow>
                 (case ensureJSONEOF jd rest of
                    Some e \<Rightarrow> Inl e
                  | None \<Rightarrow>
                     (case validateConfig lib c of
                        Some e \<Rightarrow> Inl (InvalidConfig e)
                      | None \<Rightarrow> Inr c)))"

subsection \<open>What the validation guarantees\<close>

lemma validate_statuses_None [err_simps]:
  "validate_statuses seen xs = None \<longleftrightarrow>
    (\<forall>x \<in> set xs. 100 \<le> x \<and> x \<le> 599) \<and> distinct xs \<and> set xs \<inter> set seen = {}"
  by (induction xs arbitrary: seen) auto

lemma validate_variables_None [err_simps]:
  "validate_variables stores seen i vs = None \<longleftrightarrow>
    (\<forall>v \<in> set vs. validateVariable stores v = None) \<and> distinct (map vc_name vs)
    \<and> vc_name ` set vs \<inter> set seen = {}"
  by (induction vs arbitrary: seen i) (auto split: option.splits)

lemma validate_operations_None [err_simps]:
  "validate_operations lib stores seen i xs = None \<longleftrightarrow>
    (\<forall>x \<in> set xs. validateOperation lib x stores = None) \<and> distinct (map oc_name xs)
    \<and> oc_name ` set xs \<inter> set seen = {}"
  by (induction xs arbitrary: seen i) (auto split: option.splits)

lemma map_option_None [err_simps]: "map_option f x = None \<longleftrightarrow> x = None"
  by simp

lemma find_none [err_simps]: "find P xs = None \<longleftrightarrow> (\<forall>x \<in> set xs. \<not> P x)"
  by (auto simp: find_None_iff)

lemma find_SomeD: "find P xs = Some x \<Longrightarrow> x \<in> set xs \<and> P x"
  by (induction xs) (auto split: if_splits)

lemma templateVariables_Inr:
  "templateVariables t = Inr used \<longleftrightarrow>
    used = remdups (template_names t) \<and> (\<forall>n \<in> set used. name_pattern n)
    \<and> \<not> contains (replace_markers (\<lambda>_. '''') t) ''{{'' \<and> \<not> contains (replace_markers (\<lambda>_. '''') t) ''}}''"
proof (cases "find (\<lambda>n. \<not> name_pattern n) (remdups (template_names t))")
  case None
  then show ?thesis
    using None [unfolded find_None_iff] by (auto simp: templateVariables_def Let_def)
next
  case (Some n)
  then show ?thesis using find_SomeD [OF Some] by (auto simp: templateVariables_def Let_def)
qed

lemma check_template_use_None [err_simps]:
  "check_template_use r = None \<longleftrightarrow>
    (\<exists>used. templateVariables (rq_path_template r @ [CHR 0x0A] @ rq_body_template r) = Inr used
      \<and> set used = vc_name ` set (rq_variables r))"
  by (auto simp: check_template_use_def Let_def err_simps split: sum.splits)

lemma validate_capture_None [err_simps]:
  "validate_capture stores capture = None \<longleftrightarrow>
    (\<forall>c. capture = Some c \<longrightarrow> validateJSONPointer (cc_json_pointer c) = None \<and> cc_store c \<in> set stores)"
  by (auto simp: validate_capture_def err_simps split: option.splits)

lemma validateOperation_None:
  assumes "validateOperation lib oper stores = None"
  shows "name_pattern (oc_name oper)" "1 \<le> oc_weight oper" "oc_weight oper \<le> 10000"
    "rq_method (oc_request oper) \<in> {''GET'', ''POST''}"
    "has_prefix (rq_path_template (oc_request oper)) ''/''"
    "\<not> has_prefix (rq_path_template (oc_request oper)) ''//''"
    "\<not> contains_any (rq_path_template (oc_request oper)) (map char_of [13, 10, 92, 35 :: nat])"
    "length (rq_body_template (oc_request oper)) \<le> MaxRequestBodyBytes"
    "validateHeaders lib (rq_headers (oc_request oper)) (rq_secret_headers (oc_request oper)) = None"
    "oc_expected_status_codes oper \<noteq> []"
    "validate_variables stores [] 0 (rq_variables (oc_request oper)) = None"
    "check_template_use (oc_request oper) = None"
    "validate_capture stores (oc_capture oper) = None"
  using assms by (auto simp: validateOperation_def Let_def then_err_None map_option_None fail_if_None
      validateName_None)

lemma validateConfig_None:
  assumes "validateConfig lib c = None"
  shows "validateTarget lib (cf_target c) = None"
    "validateRateSchedule (rc_schedule (cf_rate c)) = None"
    "validateLimiterType (rc_limiter (cf_rate c)) = None"
    "validateRateProfile (rc_profile (cf_rate c)) = None"
    "\<exists>v. validateStoreConfigs (cf_stores c) = Inr v"
    "cf_operations c \<noteq> []" "length (cf_operations c) \<le> MaxOperations"
    "\<And>x. x \<in> set (cf_operations c) \<Longrightarrow> validateOperation lib x (map st_name (cf_stores c)) = None"
    "distinct (map oc_name (cf_operations c))"
  using assms
  by (auto simp: validateConfig_def then_err_None map_option_None fail_if_None validate_operations_None
      validateStoreConfigs_Inr split: sum.splits)

subsection \<open>Markers of a concatenation\<close>

lemma match_marker_extend:
  "match_marker s = Some (inner, rest) \<Longrightarrow> match_marker (s @ t) = Some (inner, rest @ t)"
  by (simp add: match_marker_Some)

lemma markers_no_close: "\<not> contains s ''}}'' \<Longrightarrow> markers s = []"
proof (induction s)
  case Nil
  then show ?case by simp
next
  case (Cons c s)
  have "match_marker (c # s) = None"
  proof (rule ccontr)
    assume "match_marker (c # s) \<noteq> None"
    then obtain inner rest where "c # s = ''{{'' @ inner @ ''}}'' @ rest"
      by (auto simp: match_marker_Some)
    then have "contains (c # s) ''}}''"
      unfolding contains_iff by (metis append.assoc)
    then show False using Cons.prems by simp
  qed
  then show ?case using Cons by simp
qed

lemma append_overlap:
  "s @ t = u @ v \<Longrightarrow> (\<exists>w. s = u @ w \<and> v = w @ t) \<or> (\<exists>w. w \<noteq> [] \<and> u = s @ w \<and> t = w @ v)"
  by (auto simp: append_eq_append_conv2)

lemma marker_across_end:
  assumes "match_marker s = None" and "match_marker (s @ t) = Some (inner, rest)"
  shows "markers s = []"
proof -
  have m: "s @ t = (''{{'' @ inner @ ''}}'') @ rest" and i: "list_all no_brace inner"
    using assms(2) by (simp_all add: match_marker_Some)
  show ?thesis
  proof (cases "\<exists>w. s = (''{{'' @ inner @ ''}}'') @ w")
    case True
    then obtain w where "s = ''{{'' @ inner @ ''}}'' @ w" by auto
    then have "match_marker s = Some (inner, w)" using i by (simp only: match_marker_Some)
    then show ?thesis using assms(1) by simp
  next
    case False
    then obtain w where w: "w \<noteq> []" "''{{'' @ inner @ ''}}'' = s @ w"
      using append_overlap [OF m] by blast
    have "\<not> contains s ''}}''"
    proof
      assume "contains s ''}}''"
      then obtain a b where ab: "s = a @ ''}}'' @ b" by (auto simp: contains_iff)
      let ?cl = "\<lambda>x. length (filter (\<lambda>c. c = CHR ''}'') x)"
      have z: "filter (\<lambda>c. c = CHR ''}'') inner = []"
        using i by (auto simp: list_all_iff no_brace_def filter_empty_conv)
      have "last w = CHR ''}''" using arg_cong [OF w(2), of last] w(1) by (simp add: last_append)
      then have "CHR ''}'' \<in> set w" using last_in_set [OF w(1)] by simp
      then have "filter (\<lambda>c. c = CHR ''}'') w \<noteq> []" by (auto simp: filter_empty_conv)
      then have "1 \<le> ?cl w" by (simp add: Suc_le_eq)
      moreover have "?cl (''{{'' @ inner @ ''}}'') = 2" using z by simp
      moreover have "2 \<le> ?cl s" unfolding ab by simp
      ultimately show False using arg_cong [OF w(2), of ?cl] by simp
    qed
    then show ?thesis by (rule markers_no_close)
  qed
qed

lemma markers_prefix: "set (markers s) \<subseteq> set (markers (s @ t))"
proof (induction s rule: markers.induct)
  case 1
  then show ?case by simp
next
  case (2 c s)
  show ?case
  proof (cases "match_marker (c # s)")
    case (Some m)
    then show ?thesis using 2(2) match_marker_extend [of "c # s" _ _ t]
      by (cases m) fastforce
  next
    case None
    show ?thesis
    proof (cases "match_marker ((c # s) @ t)")
      case (Some m)
      then show ?thesis using marker_across_end [OF None, of t] by (cases m) simp
    next
      case N: None
      then show ?thesis using 2(1) None by simp
    qed
  qed
qed

lemma markers_skip: "CHR ''{'' \<notin> set u \<Longrightarrow> markers (u @ r) = markers r"
  by (induction u) (auto simp: match_marker_def has_prefix_def)

lemma markers_suffix: "set (markers t) \<subseteq> set (markers (s @ t))"
proof (induction "length s" arbitrary: s rule: less_induct)
  case less
  show ?case
  proof (cases s)
    case Nil
    then show ?thesis by simp
  next
    case (Cons c s')
    show ?thesis
    proof (cases "match_marker (s @ t)")
      case None
      then show ?thesis using less [of s'] Cons by simp
    next
      case (Some m)
      obtain inner rest where m: "m = (inner, rest)" by (cases m)
      then have eq: "s @ t = (''{{'' @ inner @ ''}}'') @ rest" and i: "list_all no_brace inner"
        using Some by (simp_all add: match_marker_Some)
      have step: "markers (s @ t) = inner # markers rest" using Some m Cons by simp
      have b: "CHR ''{'' \<notin> set inner" using i by (auto simp: list_all_iff no_brace_def)
      show ?thesis
      proof (cases "\<exists>w. s = (''{{'' @ inner @ ''}}'') @ w")
        case True
        then obtain w where w: "s = (''{{'' @ inner @ ''}}'') @ w" "rest = w @ t" using eq by auto
        then show ?thesis using less [of w] step by auto
      next
        case False
        then obtain w where w: "w \<noteq> []" "''{{'' @ inner @ ''}}'' = s @ w" "t = w @ rest"
          using append_overlap [OF eq] by blast
        have "markers t = markers rest"
        proof (cases s')
          case Nil
          then have "w = CHR ''{'' # inner @ ''}}''" using w(2) Cons by auto
          moreover have "match_marker (CHR ''{'' # inner @ ''}}'' @ rest) = None"
            using b by (cases inner) (auto simp: match_marker_def has_prefix_def)
          ultimately show ?thesis
            using w(3) markers_skip [of "inner @ ''}}''" rest] b by simp
        next
          case (Cons d s'')
          then have e: "inner @ ''}}'' = s'' @ w" using w(2) \<open>s = c # s'\<close> by simp
          have "CHR ''{'' \<notin> set (inner @ ''}}'')" using b by simp
          then have "CHR ''{'' \<notin> set w" unfolding e by simp
          then show ?thesis using w(3) by (simp add: markers_skip)
        qed
        then show ?thesis using step by auto
      qed
    qed
  qed
qed

lemma template_names_parts:
  "set (template_names a) \<union> set (template_names b) \<subseteq> set (template_names (a @ t @ b))"
  using markers_prefix [of a "t @ b"] markers_suffix [of b "a @ t"]
  by (auto simp: template_names_def)

subsection \<open>Header checks\<close>

definition plain_header_ok :: "go_lib \<Rightarrow> string \<times> string \<Rightarrow> bool" where
  "plain_header_ok lib h \<longleftrightarrow> validHeaderName (fst h) \<and> \<not> isSensitiveHeader lib (fst h)
     \<and> \<not> contains_any (snd h) (map char_of [13, 10 :: nat])
     \<and> \<not> contains (snd h) ''{{'' \<and> \<not> contains (snd h) ''}}''
     \<and> \<not> isTransportHeader lib (to_lower (go_unicode_lower lib) (fst h))"

lemma validate_plain_headers_Inr:
  "validate_plain_headers lib seen hs = Inr seen' \<longleftrightarrow>
    list_all (plain_header_ok lib) hs
    \<and> seen' = rev (map (to_lower (go_unicode_lower lib) \<circ> fst) hs) @ seen"
  by (induction lib seen hs rule: validate_plain_headers.induct)
    (auto simp: plain_header_ok_def Let_def)

lemma validate_secret_headers_None:
  "validate_secret_headers lib seen i hs = None \<longleftrightarrow>
    list_all (\<lambda>h. validHeaderName (sh_name h) \<and> secretHeaderPathAllowed (sh_value_file h)
      \<and> \<not> isTransportHeader lib (to_lower (go_unicode_lower lib) (sh_name h))) hs
    \<and> distinct (map (to_lower (go_unicode_lower lib) \<circ> sh_name) hs)
    \<and> (to_lower (go_unicode_lower lib) \<circ> sh_name) ` set hs \<inter> set seen = {}"
  by (induction lib seen i hs rule: validate_secret_headers.induct) (auto simp: Let_def)

lemma validateHeaders_None:
  "validateHeaders lib hs shs = None \<longleftrightarrow>
    list_all (plain_header_ok lib) hs \<and> length shs \<le> MaxSecretHeaders
    \<and> validate_secret_headers lib (rev (map (to_lower (go_unicode_lower lib) \<circ> fst) hs)) 0 shs = None"
proof (cases "validate_plain_headers lib [] hs")
  case (Inl e)
  then have "\<not> list_all (plain_header_ok lib) hs"
    using validate_plain_headers_Inr [of lib "[]" hs "rev (map (to_lower (go_unicode_lower lib) \<circ> fst) hs)"]
    by simp
  with Inl show ?thesis by (simp add: validateHeaders_def)
next
  case (Inr seen)
  then show ?thesis
    using validate_plain_headers_Inr [of lib "[]" hs seen] by (auto simp: validateHeaders_def)
qed

subsection \<open>Clean paths\<close>

definition plain_segment :: "string \<Rightarrow> bool" where
  "plain_segment x \<longleftrightarrow> x \<noteq> '''' \<and> x \<noteq> ''.'' \<and> x \<noteq> ''..'' \<and> CHR ''/'' \<notin> set x"

lemma clean_step_plain:
  "list_all plain_segment stack \<Longrightarrow> CHR ''/'' \<notin> set seg \<Longrightarrow>
    list_all plain_segment (clean_step True stack seg)"
  by (auto simp: clean_step_def plain_segment_def list_all_iff dest: in_set_butlastD)

lemma clean_segments_plain:
  assumes "has_prefix path ''/''"
  shows "list_all plain_segment (clean_segments path)"
proof -
  have "list_all plain_segment (foldl (clean_step True) stack segs)"
    if "list_all plain_segment stack" "\<And>x. x \<in> set segs \<Longrightarrow> CHR ''/'' \<notin> set x" for stack segs
    using that by (induction segs arbitrary: stack) (auto intro: clean_step_plain)
  then show ?thesis using assms by (auto simp: clean_segments_def split_on_parts)
qed

lemma clean_mount: "clean_path SecretHeadersMountPath = ''/var/run/kurama/request-secrets''"
  by (simp add: clean_path_def clean_segments_def SecretHeadersMountPath_def has_prefix_def clean_step_def)

lemma relative_step:
  assumes "\<forall>x \<in> set stack. x \<noteq> [] \<and> CHR ''/'' \<notin> set x" and "CHR ''/'' \<notin> set y"
  shows "\<forall>x \<in> set (clean_step False stack y). x \<noteq> [] \<and> CHR ''/'' \<notin> set x"
  using assms unfolding clean_step_def by (auto dest: in_set_butlastD)

lemma relative_segments:
  "(\<And>y. y \<in> set segs \<Longrightarrow> CHR ''/'' \<notin> set y) \<Longrightarrow> \<forall>x \<in> set stack. x \<noteq> '''' \<and> CHR ''/'' \<notin> set x \<Longrightarrow>
    \<forall>x \<in> set (foldl (clean_step False) stack segs). x \<noteq> '''' \<and> CHR ''/'' \<notin> set x"
proof (induction segs arbitrary: stack)
  case Nil
  then show ?case by simp
next
  case (Cons y ys)
  have "\<forall>x \<in> set (clean_step False stack y). x \<noteq> '''' \<and> CHR ''/'' \<notin> set x"
    by (rule relative_step [OF Cons.prems(2)]) (rule Cons.prems(1), rule list.set_intros)
  then show ?case
    unfolding foldl_Cons by (intro Cons.IH) (rule Cons.prems(1), erule list.set_intros)
qed

lemma allowed_relative:
  assumes "\<not> has_prefix path ''/''"
  shows "\<not> has_prefix (clean_path path) ''/''"
proof
  assume a: "has_prefix (clean_path path) ''/''"
  define segs where "segs = clean_segments path"
  have s: "x \<noteq> '''' \<and> CHR ''/'' \<notin> set x" if "x \<in> set segs" for x
    using relative_segments [of "split_on CHR ''/'' path" "[]"] that assms split_on_parts
    by (simp add: segs_def clean_segments_def)
  show False
  proof (cases segs)
    case Nil
    then show ?thesis using a assms by (simp add: clean_path_def segs_def has_prefix_def)
  next
    case (Cons x xs)
    then obtain c cs where "x = c # cs" "c \<noteq> CHR ''/''" using s [of x] by (cases x) auto
    then show ?thesis using a assms Cons by (cases xs) (auto simp: clean_path_def segs_def has_prefix_def)
  qed
qed

lemma secret_path_below:
  assumes "secretHeaderPathAllowed path"
  shows "has_prefix path ''/''"
    and "\<exists>rest. rest \<noteq> [] \<and> list_all plain_segment rest
      \<and> clean_segments path = [''var'', ''run'', ''kurama'', ''request-secrets''] @ rest"
proof -
  show r: "has_prefix path ''/''"
    using assms allowed_relative [of path] by (auto simp: secretHeaderPathAllowed_def)
  define segs where "segs = clean_segments path"
  have p: "list_all plain_segment segs" using clean_segments_plain [OF r] by (simp add: segs_def)
  obtain t where "''/'' @ join ''/'' segs = (''/var/run/kurama/request-secrets'' @ ''/'') @ t"
    using assms r unfolding secretHeaderPathAllowed_def clean_mount clean_path_def [of path] segs_def
    by (auto simp only: has_prefix_iff if_True)
  then have j: "join ''/'' segs = join ''/'' [''var'', ''run'', ''kurama'', ''request-secrets''] @ ''/'' @ t"
    by simp
  have ne: "segs \<noteq> []" using j by auto
  have "split_on CHR ''/'' (join ''/'' segs) = segs"
    using p ne by (intro split_on_join) (auto simp: list_all_iff plain_segment_def)
  moreover have "split_on CHR ''/'' (join ''/'' [''var'', ''run'', ''kurama'', ''request-secrets''] @ ''/'' @ t)
      = [''var'', ''run'', ''kurama'', ''request-secrets''] @ split_on CHR ''/'' t"
    by simp
  ultimately have e: "segs = [''var'', ''run'', ''kurama'', ''request-secrets''] @ split_on CHR ''/'' t"
    using j by simp
  then show "\<exists>rest. rest \<noteq> [] \<and> list_all plain_segment rest
      \<and> clean_segments path = [''var'', ''run'', ''kurama'', ''request-secrets''] @ rest"
    using p by (intro exI [of _ "split_on CHR ''/'' t"]) (auto simp: segs_def)
qed

subsection \<open>Properties\<close>

text \<open>A small accepted configuration, for evaluation.\<close>

definition example_operation :: operation_config where
  "example_operation = \<lparr>oc_name = ''a'', oc_weight = 1,
     oc_request = \<lparr>rq_method = ''GET'', rq_path_template = ''/x/{{id}}'', rq_headers = [],
       rq_secret_headers = [\<lparr>sh_name = ''X-K'', sh_value_file = ''/var/run/kurama/request-secrets/0''\<rparr>],
       rq_body_template = '''',
       rq_variables = [\<lparr>vc_name = ''id'', vc_source = \<lparr>vs_type = ''randomUUID'', vs_store = '''', vs_length = 0\<rparr>\<rparr>]\<rparr>,
     oc_expected_status_codes = [200], oc_capture = None\<rparr>"

lemma trim_space_plain:
  assumes "list_all (\<lambda>w. \<not> has_prefix s w \<and> \<not> has_suffix s w) white_space"
  shows "trim_space s = s"
proof -
  have "find (has_prefix s) white_space = None" "find (has_suffix s) white_space = None"
    using assms by (auto simp: find_None_iff list_all_iff)
  then show ?thesis
    by (simp add: trim_space_def trim_left_space.simps [of s] trim_right_space.simps [of s])
qed

lemma example_secret_path:
  "secretHeaderPathAllowed ''/var/run/kurama/request-secrets/0''"
  unfolding secretHeaderPathAllowed_def clean_mount
  by (simp add: clean_path_def clean_segments_def clean_step_def has_prefix_def)

lemma example_operation_ok: "validateOperation lib example_operation [] = None"
proof -
  have t: "trim_space ''id'' = ''id''"
    by (rule trim_space_plain) (simp add: white_space_def has_prefix_def has_suffix_def char_of_def bit_0)
  have n: "name_pattern ''a''" "name_pattern ''id''"
    by (simp_all add: name_pattern_def name_char_def)
  have "templateVariables (''/x/{{id}}'' @ [CHR 0x0A]) = Inr [''id'']"
    by (simp add: templateVariables_def template_names_def Let_def match_marker_def has_prefix_def
        no_brace_def t n)
  moreover have "validateHeaders lib [] [\<lparr>sh_name = ''X-K'', sh_value_file = ''/var/run/kurama/request-secrets/0''\<rparr>] = None"
    by (simp add: validateHeaders_None validate_secret_headers_None example_secret_path config_limits
        validHeaderName_def contains_any_def char_of_def bit_0 isTransportHeader_def to_lower_def is_ascii_def lower_char_def Let_def)
  ultimately show ?thesis
    by (simp add: validateOperation_def example_operation_def validateName_def validateVariable_def
        check_template_use_def validate_capture_def n has_prefix_def contains_any_def config_limits char_of_def bit_0
        Let_def)
qed

lemma accepted_operation_names:
  assumes "validateOperation lib x stores = None"
  shows "set (template_names (rq_path_template (oc_request x)))
      \<union> set (template_names (rq_body_template (oc_request x))) \<subseteq> vc_name ` set (rq_variables (oc_request x))"
proof -
  note op = validateOperation_None [OF assms]
  obtain used where u: "templateVariables (rq_path_template (oc_request x) @ [CHR 0x0A]
        @ rq_body_template (oc_request x)) = Inr used"
    "set used = vc_name ` set (rq_variables (oc_request x))"
    using op(12) unfolding check_template_use_None by blast
  then have "set (template_names (rq_path_template (oc_request x) @ [CHR 0x0A] @ rq_body_template (oc_request x)))
      = vc_name ` set (rq_variables (oc_request x))"
    by (auto simp: templateVariables_Inr)
  then show ?thesis
    using template_names_parts [of "rq_path_template (oc_request x)" "rq_body_template (oc_request x)" "[CHR 0x0A]"]
    by simp
qed


definition example_lib :: go_lib where
  "example_lib = \<lparr>go_parse_request_uri = (\<lambda>_. Some \<lparr>url_scheme = ''http'', url_host = ''h'', url_has_user = False,
       url_path = '''', url_raw_query = '''', url_fragment = ''''\<rparr>),
     go_parse_url = (\<lambda>s. Some \<lparr>url_scheme = '''', url_host = '''', url_has_user = False,
       url_path = s, url_raw_query = '''', url_fragment = ''''\<rparr>),
     go_resolve_reference = (\<lambda>base ref. base\<lparr>url_path := url_path ref\<rparr>),
     go_url_string = (\<lambda>u. url_scheme u @ ''://'' @ url_host u @ url_path u),
     go_unicode_lower = id\<rparr>"

definition example_config :: config where
  "example_config = \<lparr>cf_target = \<lparr>tc_base_url = ''http://h''\<rparr>,
     cf_rate = \<lparr>rc_schedule = \<lparr>rs_type = ''fixed'', rs_requests_per_minute = 60,
         rs_min_requests_per_minute = 0, rs_max_requests_per_minute = 0, rs_window_minutes = 0\<rparr>,
       rc_limiter = None, rc_profile = None\<rparr>,
     cf_stores = [], cf_operations = [example_operation]\<rparr>"

lemma example_config_ok: "validateConfig example_lib example_config = None"
  by (simp add: validateConfig_def example_config_def validateTarget_def example_lib_def
      validateRateSchedule_def validateLimiterType_def validateRateProfile_def validateStoreConfigs_def
      config_limits example_operation_ok)


text \<open>C10. A secret header file of an accepted operation lies strictly below the mount directory:
  the path is absolute, and following it segment by segment ends below
  \<open>/var/run/kurama/request-secrets\<close>, whatever dots it contains.\<close>

theorem secret_files_contained:
  assumes "validateOperation lib x stores = None"
    and "h \<in> set (rq_secret_headers (oc_request x))"
  shows "has_prefix (sh_value_file h) ''/''
    \<and> (\<exists>rest. rest \<noteq> [] \<and> list_all plain_segment rest
        \<and> clean_segments (sh_value_file h) = [''var'', ''run'', ''kurama'', ''request-secrets''] @ rest)"
proof -
  have "secretHeaderPathAllowed (sh_value_file h)"
    using validateOperation_None(9) [OF assms(1)] assms(2)
    by (auto simp: validateHeaders_None validate_secret_headers_None list_all_iff)
  then show ?thesis using secret_path_below by blast
qed

theorem secret_files_contained_witness:
  "has_prefix ''/var/run/kurama/request-secrets/0'' ''/''
    \<and> (\<exists>rest. rest \<noteq> [] \<and> list_all plain_segment rest
        \<and> clean_segments ''/var/run/kurama/request-secrets/0''
            = [''var'', ''run'', ''kurama'', ''request-secrets''] @ rest)"
  using secret_files_contained [OF example_operation_ok [of example_lib],
      of "\<lparr>sh_name = ''X-K'', sh_value_file = ''/var/run/kurama/request-secrets/0''\<rparr>"]
  by (simp add: example_operation_def)

text \<open>The headers of an accepted operation: no plain header is a credential or a transport
  header, no value can break the request's lines, and no secret header repeats another header
  in any spelling.\<close>

theorem accepted_headers:
  assumes "validateHeaders lib hs shs = None"
  defines "lower \<equiv> to_lower (go_unicode_lower lib)"
  shows "(\<forall>(n, v) \<in> set hs. lower n \<notin> {''authorization'', ''proxy-authorization'', ''cookie'',
          ''set-cookie'', ''x-api-key''}
        \<and> CHR 0x0D \<notin> set n \<and> CHR 0x0A \<notin> set n \<and> CHR '':'' \<notin> set n
        \<and> CHR 0x0D \<notin> set v \<and> CHR 0x0A \<notin> set v)
    \<and> distinct (map (lower \<circ> sh_name) shs)
    \<and> (lower \<circ> sh_name) ` set shs \<inter> (lower \<circ> fst) ` set hs = {}
    \<and> (\<forall>n \<in> fst ` set hs \<union> sh_name ` set shs.
         lower (lower n) \<notin> {''host'', ''content-length'', ''transfer-encoding'', ''connection''})"
proof -
  have p: "list_all (plain_header_ok lib) hs"
    and s: "validate_secret_headers lib (rev (map (lower \<circ> fst) hs)) 0 shs = None"
    using assms(1) by (simp_all add: validateHeaders_None lower_def)
  have c: "char_of (13::nat) = CHR 0x0D" "char_of (10::nat) = CHR 0x0A" "char_of (58::nat) = CHR '':''"
    by (simp_all add: char_of_def bit_0)
  have "lower n \<notin> {''authorization'', ''proxy-authorization'', ''cookie'', ''set-cookie'', ''x-api-key''}
        \<and> CHR 0x0D \<notin> set n \<and> CHR 0x0A \<notin> set n \<and> CHR '':'' \<notin> set n
        \<and> CHR 0x0D \<notin> set v \<and> CHR 0x0A \<notin> set v" if "(n, v) \<in> set hs" for n v
    using p that by (auto simp: list_all_iff plain_header_ok_def isSensitiveHeader_def lower_def
        validHeaderName_def contains_any_iff c)
  moreover have "lower (lower n) \<notin> {''host'', ''content-length'', ''transfer-encoding'', ''connection''}"
    if "n \<in> fst ` set hs \<union> sh_name ` set shs" for n
    using p s that
    by (auto simp: list_all_iff plain_header_ok_def isTransportHeader_def lower_def
        validate_secret_headers_None)
  ultimately show ?thesis
    using s by (auto simp: validate_secret_headers_None lower_def)
qed

theorem accepted_headers_witness:
  "distinct (map (to_lower id \<circ> sh_name) [\<lparr>sh_name = ''X-K'', sh_value_file = ''/var/run/kurama/request-secrets/0''\<rparr>])"
  using accepted_headers [OF validateOperation_None(9) [OF example_operation_ok [of example_lib]]]
  by (simp add: example_operation_def example_lib_def)

text \<open>
  The markers are checked on the path and the body joined by a line break, and sent
  separately. A marker that begins in the path and ends in the body passes the check.
\<close>

definition split_marker_operation :: operation_config where
  "split_marker_operation = \<lparr>oc_name = ''a'', oc_weight = 1,
     oc_request = \<lparr>rq_method = ''POST'', rq_path_template = ''/x/{{'', rq_headers = [],
       rq_secret_headers = [], rq_body_template = ''id}}'',
       rq_variables = [\<lparr>vc_name = ''id'', vc_source = \<lparr>vs_type = ''randomUUID'', vs_store = '''', vs_length = 0\<rparr>\<rparr>]\<rparr>,
     oc_expected_status_codes = [200], oc_capture = None\<rparr>"

text \<open>The validation accepts an operation whose marker is split between path and body; the
  path is then sent with the braces in it, whatever the variable's value.\<close>

theorem split_marker_accepted:
  "validateOperation lib split_marker_operation [] = None
   \<and> replaceTemplateVariables (rq_path_template (oc_request split_marker_operation)) values escape = ''/x/{{''"
proof -
  have w: "trim_left_space ''id'' = ''id''" "trim_right_space ''id'' = ''id''"
    by (simp_all add: trim_left_space.simps trim_right_space.simps white_space_def has_prefix_def
        has_suffix_def char_of_def bit_0)
  have "find (has_prefix (CHR 0x0A # ''id'')) white_space = Some [CHR 0x0A]"
    by (simp add: white_space_def has_prefix_def char_of_def bit_0)
  then have t: "trim_space (CHR 0x0A # ''id'') = ''id''"
    by (simp add: trim_space_def trim_left_space.simps [of "CHR 0x0A # ''id''"] w)
  have n: "name_pattern ''a''" "name_pattern ''id''"
    by (simp_all add: name_pattern_def name_char_def)
  have "templateVariables (''/x/{{'' @ [CHR 0x0A] @ ''id}}'') = Inr [''id'']"
    by (simp add: templateVariables_def template_names_def Let_def match_marker_def has_prefix_def
        no_brace_def t n)
  moreover have "validateHeaders lib [] [] = None" by (simp add: validateHeaders_def config_limits)
  ultimately have "validateOperation lib split_marker_operation [] = None"
    by (simp add: validateOperation_def split_marker_operation_def validateName_def validateVariable_def
        check_template_use_def validate_capture_def n has_prefix_def contains_any_def config_limits char_of_def bit_0
        Let_def)
  then show ?thesis
    by (simp add: replaceTemplateVariables_def split_marker_operation_def match_marker_def
        has_prefix_def no_brace_def)
qed

end
