(* ===== verification/Value_Store.thy ===== *)
theory Value_Store
  imports Runner_Config "HOL-Library.Sublist"
begin

section \<open>Value stores\<close>

text \<open>
  \<open>internal/runner/store.go\<close> and \<open>instrumented_store.go\<close>: the bounded pools of one runner
  process, kept as ring buffers, and the decorator. A call takes the context, the time of
  the call and the store's name; a result is \<open>None\<close> where the code would panic. Locking
  makes each call one step.

  The locale \<open>value_store\<close> is what the executor relies on; \<open>bounded_store\<close> adds what a
  store remembers: the newest values, oldest first.
\<close>

datatype store_error =
    StoreContext ctx_error
  | EmptyStoreValue
  | StoreNotFound string
  | RedisPutFailed
  | RedisLengthFailed
  | RedisIndexFailed

type_synonym 's store_put =
  "ctx \<Rightarrow> int \<Rightarrow> string \<Rightarrow> string \<Rightarrow> 's \<Rightarrow> (store_error option \<times> 's) option"

type_synonym 's store_random =
  "ctx \<Rightarrow> int \<Rightarrow> string \<Rightarrow> rng \<Rightarrow> 's \<Rightarrow> ((string \<times> bool \<times> store_error option) \<times> rng \<times> 's) option"

subsection \<open>The memory store\<close>

record memory_pool =
  mp_values :: "string list"
  mp_next :: int
  mp_limit :: int

type_synonym memory_store = "string \<rightharpoonup> memory_pool"

definition newMemoryStore :: "store_config list \<Rightarrow> store_config_error + memory_store" where
  "newMemoryStore configs =
     (case validateStoreConfigs configs of
        Inl e \<Rightarrow> Inl e
      | Inr validated \<Rightarrow>
          Inr (map_of (map (\<lambda>(name, capacity).
                 (name, \<lparr>mp_values = [], mp_next = 0, mp_limit = capacity\<rparr>)) (vs_capacities validated))))"

text \<open>The assignment into the ring panics outside it, and the remainder for a zero limit.\<close>

definition pool_put :: "string \<Rightarrow> memory_pool \<Rightarrow> memory_pool option" where
  "pool_put value pool =
     (if int (length (mp_values pool)) < mp_limit pool
      then Some (pool\<lparr>mp_values := mp_values pool @ [value]\<rparr>)
      else if mp_next pool < 0 \<or> int (length (mp_values pool)) \<le> mp_next pool \<or> mp_limit pool = 0
      then None
      else Some (pool\<lparr>mp_values := (mp_values pool)[nat (mp_next pool) := value],
                      mp_next := (mp_next pool + 1) mod mp_limit pool\<rparr>))"

definition memoryPut :: "memory_store store_put" where
  "memoryPut ctx now store value s =
     (case ctx of
        Some e \<Rightarrow> Some (Some (StoreContext e), s)
      | None \<Rightarrow>
         if value = '''' then Some (Some EmptyStoreValue, s)
         else
           (case s store of
              None \<Rightarrow> Some (Some (StoreNotFound store), s)
            | Some pool \<Rightarrow>
               (case pool_put value pool of
                  None \<Rightarrow> None
                | Some pool' \<Rightarrow> Some (None, s(store \<mapsto> pool')))))"

definition memoryRandom :: "memory_store store_random" where
  "memoryRandom ctx now store r s =
     (case ctx of
        Some e \<Rightarrow> Some (('''', False, Some (StoreContext e)), r, s)
      | None \<Rightarrow>
         (case s store of
            None \<Rightarrow> Some (('''', False, Some (StoreNotFound store)), r, s)
          | Some pool \<Rightarrow>
             if mp_values pool = [] then Some (('''', False, None), r, s)
             else
               (case rand_n (int (length (mp_values pool))) r of
                  None \<Rightarrow> None
                | Some (i, r') \<Rightarrow> Some ((mp_values pool ! nat i, True, None), r', s))))"

subsection \<open>The contracts\<close>

locale value_store =
  fixes put :: "'s store_put" and random :: "'s store_random" and inv :: "'s \<Rightarrow> bool"
  assumes put_total: "inv s \<Longrightarrow> put ctx t st x s \<noteq> None"
    and put_inv: "inv s \<Longrightarrow> put ctx t st x s = Some (err, s') \<Longrightarrow> inv s'"
    and random_total: "inv s \<Longrightarrow> random ctx t st r s \<noteq> None"
    and random_inv: "inv s \<Longrightarrow> random ctx t st r s = Some (res, r', s') \<Longrightarrow> inv s'"
    and random_nonempty:
      "inv s \<Longrightarrow> random ctx t st r s = Some ((x, True, None), r', s') \<Longrightarrow> x \<noteq> ''''"

text \<open>
  \<open>contents s t st\<close> is what a declared store holds at time \<open>t\<close>, oldest value first. A put that
  reports an error may still have stored the value (a lost reply).
\<close>

locale bounded_store = value_store put random inv
  for put :: "'s store_put" and random :: "'s store_random" and inv :: "'s \<Rightarrow> bool" +
  fixes contents :: "'s \<Rightarrow> int \<Rightarrow> string \<Rightarrow> string list" and capacity :: "string \<Rightarrow> nat option"
  assumes put_done:
      "inv s \<Longrightarrow> put ctx t st x s = Some (None, s')
        \<Longrightarrow> x \<noteq> '''' \<and> (\<exists>n. capacity st = Some n
              \<and> contents s' t st = take_last n (contents s t st @ [x]))"
    and put_failed:
      "inv s \<Longrightarrow> put ctx t st x s = Some (Some e, s')
        \<Longrightarrow> contents s' t st = contents s t st
          \<or> x \<noteq> '''' \<and> (\<exists>n. capacity st = Some n
              \<and> contents s' t st = take_last n (contents s t st @ [x]))"
    and put_elsewhere:
      "inv s \<Longrightarrow> put ctx t st x s = Some (err, s') \<Longrightarrow> st' \<noteq> st \<Longrightarrow> contents s' t' st' = contents s t' st'"
    and random_member:
      "inv s \<Longrightarrow> random ctx t st r s = Some ((x, True, None), r', s') \<Longrightarrow> x \<in> set (contents s t st)"
    and random_empty:
      "inv s \<Longrightarrow> random ctx t st r s = Some ((x, False, None), r', s') \<Longrightarrow> contents s t st = []"
    and random_reads:
      "inv s \<Longrightarrow> random ctx t st r s = Some (res, r', s') \<Longrightarrow> contents s' t' st' = contents s t' st'"
    and contents_kept:
      "inv s \<Longrightarrow> capacity st \<noteq> None \<Longrightarrow> contents s t st = contents s t' st"
begin

text \<open>
  A history of puts into one store, from any number of runners, with their results. The
  store then holds the newest of the values that were stored: all that were acknowledged,
  possibly some whose acknowledgement was lost, in the order of the calls.
\<close>

fun put_history ::
  "string \<Rightarrow> (ctx \<times> int \<times> string) list \<Rightarrow> 's \<Rightarrow> (store_error option list \<times> 's) option" where
  "put_history st [] s = Some ([], s)"
| "put_history st ((ctx, t, x) # cs) s =
     (case put ctx t st x s of
        None \<Rightarrow> None
      | Some (err, s') \<Rightarrow>
         (case put_history st cs s' of
            None \<Rightarrow> None
          | Some (errs, s'') \<Rightarrow> Some (err # errs, s'')))"

lemma put_history_total: "inv s \<Longrightarrow> \<exists>errs s'. put_history st cs s = Some (errs, s') \<and> inv s' \<and> length errs = length cs"
proof (induction cs arbitrary: s)
  case Nil
  then show ?case by simp
next
  case (Cons c cs)
  obtain ctx t x where c: "c = (ctx, t, x)" by (cases c)
  obtain err s1 where s1: "put ctx t st x s = Some (err, s1)"
    using put_total [OF Cons.prems] by (metis option.exhaust prod.exhaust)
  then show ?case using Cons.IH [OF put_inv [OF Cons.prems s1]] by (fastforce simp: c)
qed

lemma put_step:
  assumes "inv s" and "put ctx t st x s = Some (err, s')" and "capacity st = Some n"
    and "contents s t' st = take_last n zs"
  shows "contents s' t' st = take_last n (zs @ [x]) \<or> err \<noteq> None \<and> contents s' t' st = take_last n zs"
proof -
  have t: "contents s t st = take_last n zs" "contents s' t' st = contents s' t st"
    using contents_kept assms(1,3,4) put_inv [OF assms(1,2)] by (metis option.distinct(1))+
  show ?thesis
  proof (cases err)
    case None
    then show ?thesis using put_done [OF assms(1), of ctx t st x s'] assms(2,3) t by (auto simp: take_last_take_last_snoc)
  next
    case (Some e)
    then show ?thesis using put_failed [OF assms(1), of ctx t st x e s'] assms(2,3) t by (auto simp: take_last_take_last_snoc)
  qed
qed

lemma put_history_newest:
  assumes "inv s" and "put_history st cs s = Some (errs, s')" and "capacity st = Some n"
    and "contents s t st = take_last n zs"
  shows "\<exists>ys. contents s' t st = take_last n (zs @ ys)
    \<and> subseq ys (map (\<lambda>(_, _, x). x) cs)
    \<and> subseq (map (\<lambda>((_, _, x), _). x) (filter (\<lambda>(_, err). err = None) (zip cs errs))) ys"
  using assms
proof (induction cs arbitrary: s errs zs)
  case Nil
  then show ?case by (intro exI [of _ "[]"]) simp
next
  case (Cons c cs)
  obtain ctx t1 x where c: "c = (ctx, t1, x)" by (cases c)
  obtain err s1 errs1 where s1: "put ctx t1 st x s = Some (err, s1)"
    "put_history st cs s1 = Some (errs1, s')" "errs = err # errs1"
    using Cons.prems(2) by (auto simp: c split: option.splits prod.splits)
  note i1 = put_inv [OF Cons.prems(1) s1(1)]
  consider (stored) "contents s1 t st = take_last n (zs @ [x])"
    | (kept) "err \<noteq> None" "contents s1 t st = take_last n zs"
    using put_step [OF Cons.prems(1) s1(1) Cons.prems(3,4)] by blast
  then show ?case
  proof cases
    case stored
    from Cons.IH [OF i1 s1(2) Cons.prems(3) this] obtain ys where
      "contents s' t st = take_last n (zs @ x # ys)" "subseq ys (map (\<lambda>(_, _, x). x) cs)"
      "subseq (map (\<lambda>((_, _, x), _). x) (filter (\<lambda>(_, err). err = None) (zip cs errs1))) ys"
      by auto
    then show ?thesis by (intro exI [of _ "x # ys"]) (auto simp: c s1(3))
  next
    case kept
    from Cons.IH [OF i1 s1(2) Cons.prems(3) kept(2)] obtain ys where
      "contents s' t st = take_last n (zs @ ys)" "subseq ys (map (\<lambda>(_, _, x). x) cs)"
      "subseq (map (\<lambda>((_, _, x), _). x) (filter (\<lambda>(_, err). err = None) (zip cs errs1))) ys"
      by auto
    then show ?thesis using kept(1) by (intro exI [of _ ys]) (auto simp: c s1(3))
  qed
qed

text \<open>Successful puts into one store, one after the other.\<close>

fun put_all :: "int \<Rightarrow> string \<Rightarrow> string list \<Rightarrow> 's \<Rightarrow> 's option" where
  "put_all t st [] s = Some s"
| "put_all t st (x # xs) s =
     (case put None t st x s of
        Some (None, s') \<Rightarrow> put_all t st xs s'
      | _ \<Rightarrow> None)"

lemma put_all_newest:
  assumes "inv s" and "put_all t st xs s = Some s'" and "capacity st = Some n"
    and "contents s t st = take_last n ys"
  shows "contents s' t st = take_last n (ys @ xs)" and "inv s'"
  using assms
proof (induction xs arbitrary: s ys)
  case Nil
  { case 1 then show ?case by simp next case 2 then show ?case by simp }
next
  case (Cons x xs)
  { case 1
    then obtain s1 where s1: "put None t st x s = Some (None, s1)" "put_all t st xs s1 = Some s'"
      by (auto split: option.splits prod.splits)
    have "contents s1 t st = take_last n (ys @ [x])"
      using put_done [OF 1(1) s1(1)] 1(3,4) by (auto simp: take_last_take_last_snoc)
    then show ?case using Cons.IH(1) [OF put_inv [OF 1(1) s1(1)] s1(2) 1(3)] by simp
  next
    case 2
    then obtain s1 where s1: "put None t st x s = Some (None, s1)" "put_all t st xs s1 = Some s'"
      by (auto split: option.splits prod.splits)
    have "contents s1 t st = take_last n (ys @ [x])"
      using put_done [OF 2(1) s1(1)] 2(3,4) by (auto simp: take_last_take_last_snoc)
    then show ?case using Cons.IH(2) [OF put_inv [OF 2(1) s1(1)] s1(2) 2(3)] by simp }
qed

end

subsection \<open>The memory store keeps the contracts\<close>

definition pool_ok :: "memory_pool \<Rightarrow> bool" where
  "pool_ok p \<longleftrightarrow> 1 \<le> mp_limit p \<and> int (length (mp_values p)) \<le> mp_limit p
     \<and> 0 \<le> mp_next p \<and> mp_next p < mp_limit p
     \<and> (int (length (mp_values p)) < mp_limit p \<longrightarrow> mp_next p = 0)
     \<and> '''' \<notin> set (mp_values p)"

definition pool_contents :: "memory_pool \<Rightarrow> string list" where
  "pool_contents p = drop (nat (mp_next p)) (mp_values p) @ take (nat (mp_next p)) (mp_values p)"

lemma pool_contents_set: "set (pool_contents p) = set (mp_values p)"
  by (metis Un_commute append_take_drop_id pool_contents_def set_append)

lemma length_pool_contents: "length (pool_contents p) = length (mp_values p)"
  by (simp add: pool_contents_def)

lemma pool_put_refines:
  assumes "pool_ok p" and "x \<noteq> ''''"
  obtains p' where "pool_put x p = Some p'" "pool_ok p'" "mp_limit p' = mp_limit p"
    "pool_contents p' = take_last (nat (mp_limit p)) (pool_contents p @ [x])"
proof (cases "int (length (mp_values p)) < mp_limit p")
  case True
  then have n: "mp_next p = 0" and l: "length (mp_values p @ [x]) \<le> nat (mp_limit p)"
    using assms(1) by (auto simp: pool_ok_def)
  show ?thesis
    by (rule that [of "p\<lparr>mp_values := mp_values p @ [x]\<rparr>"])
      (use True n l assms in \<open>auto simp: pool_put_def pool_ok_def pool_contents_def take_last_all\<close>)
next
  case False
  define k where "k = nat (mp_next p)"
  define L where "L = length (mp_values p)"
  have k: "mp_next p = int k" "k < L" "mp_limit p = int L"
    using assms(1) False by (auto simp: pool_ok_def k_def L_def)
  define p' where "p' = p\<lparr>mp_values := (mp_values p)[k := x], mp_next := (int k + 1) mod int L\<rparr>"
  have run: "pool_put x p = Some p'"
    using k False by (auto simp: pool_put_def p'_def L_def)
  have ok: "pool_ok p'"
  proof -
    have "0 \<le> (int k + 1) mod int L" "(int k + 1) mod int L < int L" using k(2) by simp_all
    then show ?thesis using assms k set_update_subset_insert [of "mp_values p" k x]
      by (auto simp: pool_ok_def p'_def simp flip: L_def)
  qed
  have "take_last L (pool_contents p @ [x]) = drop (Suc k) (mp_values p) @ take k (mp_values p) @ [x]"
    using k by (simp add: take_last_def pool_contents_def L_def Suc_diff_le min_absorb2)
  also have "\<dots> = pool_contents p'"
  proof (cases "Suc k = L")
    case True
    then have "(int k + 1) mod int L = 0" by (metis mod_self of_nat_Suc add.commute)
    moreover have "(mp_values p)[k := x] = take k (mp_values p) @ [x]" "drop (Suc k) (mp_values p) = []"
      using True k(2) by (simp_all add: upd_conv_take_nth_drop L_def)
    ultimately show ?thesis by (simp add: pool_contents_def p'_def)
  next
    case False
    then have "(int k + 1) mod int L = int (Suc k)" using k by simp
    then show ?thesis using k False
      by (simp add: pool_contents_def p'_def nat_add_distrib L_def take_Suc_conv_app_nth)
  qed
  finally show ?thesis using that [OF run ok] k by (simp add: p'_def)
qed

definition memory_inv :: "(string \<Rightarrow> nat option) \<Rightarrow> memory_store \<Rightarrow> bool" where
  "memory_inv cap s \<longleftrightarrow>
     (\<forall>st. case s st of None \<Rightarrow> cap st = None | Some p \<Rightarrow> pool_ok p \<and> cap st = Some (nat (mp_limit p)))"

definition memory_contents :: "memory_store \<Rightarrow> int \<Rightarrow> string \<Rightarrow> string list" where
  "memory_contents s t st = (case s st of None \<Rightarrow> [] | Some p \<Rightarrow> pool_contents p)"

lemma memory_inv_Some: "memory_inv cap s \<Longrightarrow> s st = Some p \<Longrightarrow> pool_ok p \<and> cap st = Some (nat (mp_limit p))"
  by (auto simp: memory_inv_def split: option.splits dest: spec [of _ st])

lemma memory_inv_upd:
  "memory_inv cap s \<Longrightarrow> pool_ok p \<Longrightarrow> cap st = Some (nat (mp_limit p)) \<Longrightarrow> memory_inv cap (s(st \<mapsto> p))"
  by (simp add: memory_inv_def)

lemma memoryPut_cases:
  assumes "memory_inv cap s"
  obtains (refused) e where "memoryPut ctx t st x s = Some (Some e, s)"
  | (stored) p p' where "memoryPut ctx t st x s = Some (None, s(st \<mapsto> p'))" "ctx = None" "x \<noteq> ''''"
      "s st = Some p" "pool_ok p'" "mp_limit p' = mp_limit p" "cap st = Some (nat (mp_limit p))"
      "pool_contents p' = take_last (nat (mp_limit p)) (pool_contents p @ [x])"
proof (cases "ctx = None \<and> x \<noteq> '''' \<and> s st \<noteq> None")
  case True
  then obtain p where p: "s st = Some p" by auto
  note ok = memory_inv_Some [OF assms p]
  obtain p' where "pool_put x p = Some p'" "pool_ok p'" "mp_limit p' = mp_limit p"
    "pool_contents p' = take_last (nat (mp_limit p)) (pool_contents p @ [x])"
    using pool_put_refines [of p x] ok True by metis
  then show ?thesis using stored [of p' p] True p ok by (simp add: memoryPut_def)
next
  case False
  then have "\<exists>e. memoryPut ctx t st x s = Some (Some e, s)"
    by (auto simp: memoryPut_def split: option.splits)
  then show ?thesis using refused by blast
qed

lemma memoryRandom_cases:
  assumes "memory_inv cap s"
  obtains (refused) e where "memoryRandom ctx t st r s = Some (('''', False, Some e), r, s)"
  | (none) "memoryRandom ctx t st r s = Some (('''', False, None), r, s)" "ctx = None"
      "memory_contents s t st = []"
  | (found) x r' where "memoryRandom ctx t st r s = Some ((x, True, None), r', s)" "ctx = None"
      "x \<in> set (memory_contents s t st)" "x \<noteq> ''''"
proof (cases "ctx = None \<and> s st \<noteq> None")
  case True
  then obtain p where p: "s st = Some p" by auto
  note ok = memory_inv_Some [OF assms p]
  show ?thesis
  proof (cases "mp_values p = []")
    case True
    then have "memoryRandom ctx t st r s = Some (('''', False, None), r, s)" "ctx = None"
      "memory_contents s t st = []"
      using p \<open>ctx = None \<and> s st \<noteq> None\<close>
      by (simp_all add: memoryRandom_def memory_contents_def pool_contents_def)
    then show ?thesis by (rule none)
  next
    case False
    then obtain i r' where i: "rand_n (int (length (mp_values p))) r = Some (i, r')"
      "0 \<le> i" "i < int (length (mp_values p))"
      using rand_n_total [of "int (length (mp_values p))" r] by auto
    then have "mp_values p ! nat i \<in> set (mp_values p)" by (intro nth_mem) simp
    moreover from this have "mp_values p ! nat i \<noteq> ''''" using ok by (auto simp: pool_ok_def)
    ultimately show ?thesis
      using found [of "mp_values p ! nat i" r'] p False i True
      by (simp add: memoryRandom_def memory_contents_def pool_contents_set)
  qed
next
  case False
  then have "\<exists>e. memoryRandom ctx t st r s = Some (('''', False, Some e), r, s)"
    by (auto simp: memoryRandom_def split: option.splits)
  then show ?thesis using refused by blast
qed

interpretation memory: bounded_store memoryPut memoryRandom "memory_inv cap" memory_contents cap
  for cap :: "string \<Rightarrow> nat option"
proof
  fix s s' :: memory_store and ctx t st x err
  assume i: "memory_inv cap s"
  show "memoryPut ctx t st x s \<noteq> None"
    by (rule memoryPut_cases [OF i, of ctx t st x]) auto
  assume put: "memoryPut ctx t st x s = Some (err, s')"
  show "memory_inv cap s'"
    by (rule memoryPut_cases [OF i, of ctx t st x]) (use put i in \<open>auto intro: memory_inv_upd\<close>)
  fix st' t'
  assume "st' \<noteq> st"
  then show "memory_contents s' t' st' = memory_contents s t' st'"
    by (rule_tac memoryPut_cases [OF i, of ctx t st x]) (use put in \<open>auto simp: memory_contents_def\<close>)
next
  fix s s' :: memory_store and ctx t st x
  assume i: "memory_inv cap s" and put: "memoryPut ctx t st x s = Some (None, s')"
  show "x \<noteq> '''' \<and> (\<exists>n. cap st = Some n
      \<and> memory_contents s' t st = take_last n (memory_contents s t st @ [x]))"
    by (rule memoryPut_cases [OF i, of ctx t st x]) (use put in \<open>auto simp: memory_contents_def\<close>)
next
  fix s s' :: memory_store and ctx t st x e
  assume i: "memory_inv cap s" and put: "memoryPut ctx t st x s = Some (Some e, s')"
  have "s' = s" by (rule memoryPut_cases [OF i, of ctx t st x]) (use put in auto)
  then show "memory_contents s' t st = memory_contents s t st
      \<or> x \<noteq> '''' \<and> (\<exists>n. cap st = Some n \<and> memory_contents s' t st = take_last n (memory_contents s t st @ [x]))"
    by simp
next
  fix s s' :: memory_store and ctx t st r res r' x
  assume i: "memory_inv cap s"
  show "memoryRandom ctx t st r s \<noteq> None"
    by (rule memoryRandom_cases [OF i, of ctx t st r]) auto
  show "memory_inv cap s'" if "memoryRandom ctx t st r s = Some (res, r', s')"
    by (rule memoryRandom_cases [OF i, of ctx t st r]) (use that i in auto)
  show "memory_contents s' t' st' = memory_contents s t' st'"
    if "memoryRandom ctx t st r s = Some (res, r', s')" for t' st'
    by (rule memoryRandom_cases [OF i, of ctx t st r]) (use that i in auto)
  show "x \<noteq> ''''" if "memoryRandom ctx t st r s = Some ((x, True, None), r', s')"
    by (rule memoryRandom_cases [OF i, of ctx t st r]) (use that in auto)
  show "x \<in> set (memory_contents s t st)" if "memoryRandom ctx t st r s = Some ((x, True, None), r', s')"
    by (rule memoryRandom_cases [OF i, of ctx t st r]) (use that in auto)
  show "memory_contents s t st = []" if "memoryRandom ctx t st r s = Some ((x, False, None), r', s')"
    by (rule memoryRandom_cases [OF i, of ctx t st r]) (use that in auto)
qed (simp add: memory_contents_def)

definition capacity_of :: "store_config list \<Rightarrow> string \<Rightarrow> nat option" where
  "capacity_of configs st = map_option nat (map_of (map (\<lambda>c. (st_name c, st_capacity c)) configs) st)"

lemma newMemoryStore_inv:
  assumes "newMemoryStore configs = Inr s"
  shows "memory_inv (capacity_of configs) s" and "memory_contents s t st = []"
proof -
  have s: "s = map_of (map (\<lambda>c. (st_name c, \<lparr>mp_values = [], mp_next = 0, mp_limit = st_capacity c\<rparr>)) configs)"
    and c: "\<And>c. c \<in> set configs \<Longrightarrow> 1 \<le> st_capacity c"
    using assms by (auto simp: newMemoryStore_def validateStoreConfigs_Inr o_def split: sum.splits)
  let ?caps = "map_of (map (\<lambda>c. (st_name c, st_capacity c)) configs)"
  have eq: "s st = map_option (\<lambda>n. \<lparr>mp_values = [], mp_next = 0, mp_limit = n\<rparr>) (?caps st)" for st
    unfolding s by (induction configs) auto
  have pos: "1 \<le> n" if "?caps st = Some n" for n st
    using map_of_SomeD [OF that] c by auto
  have "case s st of None \<Rightarrow> capacity_of configs st = None
      | Some p \<Rightarrow> pool_ok p \<and> capacity_of configs st = Some (nat (mp_limit p))" for st
    using eq [of st] pos [of st] by (cases "?caps st") (simp_all add: capacity_of_def pool_ok_def)
  then show "memory_inv (capacity_of configs) s" by (simp add: memory_inv_def)
  show "memory_contents s t st = []"
    using eq [of st] by (cases "?caps st") (simp_all add: memory_contents_def pool_contents_def)
qed

subsection \<open>The instrumented store\<close>

record store_observation =
  ob_backend :: string
  ob_store :: string
  ob_operation :: string
  ob_result :: string
  ob_duration :: int

record 's instrumented_store =
  iv_inner :: 's
  iv_clock :: "nat \<Rightarrow> int"
  iv_seen :: "store_observation list"

datatype instrument_store_error = StoreNil | BackendEmpty | StoreObserverNil

definition newInstrumentedStore :: "bool \<Rightarrow> string \<Rightarrow> bool \<Rightarrow> instrument_store_error option" where
  "newInstrumentedStore store_nil backend observer_nil =
     then_err (fail_if store_nil StoreNil)
       (then_err (fail_if (backend = '''') BackendEmpty) (fail_if observer_nil StoreObserverNil))"

definition observe ::
  "string \<Rightarrow> string \<Rightarrow> string \<Rightarrow> string \<Rightarrow> int \<Rightarrow> 's instrumented_store \<Rightarrow> 's instrumented_store" where
  "observe backend store oper result started s =
     s\<lparr>iv_clock := (\<lambda>i. iv_clock s (Suc i)),
       iv_seen := iv_seen s @ [\<lparr>ob_backend = backend, ob_store = store, ob_operation = oper,
         ob_result = result, ob_duration = iv_clock s 0 - started\<rparr>]\<rparr>"

definition tick :: "'s instrumented_store \<Rightarrow> int \<times> 's instrumented_store" where
  "tick s = (iv_clock s 0, s\<lparr>iv_clock := (\<lambda>i. iv_clock s (Suc i))\<rparr>)"

definition instrumentedPut :: "'s store_put \<Rightarrow> string \<Rightarrow> 's instrumented_store store_put" where
  "instrumentedPut inner backend ctx t store x s =
     (let (started, s1) = tick s
      in case inner ctx t store x (iv_inner s1) of
           None \<Rightarrow> None
         | Some (err, inner') \<Rightarrow>
            Some (err, observe backend store ''put''
              (if err \<noteq> None then ''error'' else ''success'') started (s1\<lparr>iv_inner := inner'\<rparr>)))"

definition instrumentedRandom :: "'s store_random \<Rightarrow> string \<Rightarrow> 's instrumented_store store_random" where
  "instrumentedRandom inner backend ctx t store r s =
     (let (started, s1) = tick s
      in case inner ctx t store r (iv_inner s1) of
           None \<Rightarrow> None
         | Some ((x, ok, err), r', inner') \<Rightarrow>
            Some ((x, ok, err), r', observe backend store ''random''
              (if err \<noteq> None then ''error'' else if \<not> ok then ''empty'' else ''success'')
              started (s1\<lparr>iv_inner := inner'\<rparr>)))"

lemma observe_inner [simp]: "iv_inner (observe b st oper res d s) = iv_inner s"
  by (simp add: observe_def)

lemma instrumentedPut_inner:
  "instrumentedPut inner b ctx t st x s = Some (err, s') \<Longrightarrow>
    inner ctx t st x (iv_inner s) = Some (err, iv_inner s')"
  by (auto simp: instrumentedPut_def tick_def split: option.splits prod.splits)

lemma instrumentedPut_None:
  "instrumentedPut inner b ctx t st x s = None \<longleftrightarrow> inner ctx t st x (iv_inner s) = None"
  by (auto simp: instrumentedPut_def tick_def split: option.splits prod.splits)

lemma instrumentedRandom_inner:
  "instrumentedRandom inner b ctx t st r s = Some (res, r', s') \<Longrightarrow>
    inner ctx t st r (iv_inner s) = Some (res, r', iv_inner s')"
  by (auto simp: instrumentedRandom_def tick_def split: option.splits prod.splits)

lemma instrumentedRandom_None:
  "instrumentedRandom inner b ctx t st r s = None \<longleftrightarrow> inner ctx t st r (iv_inner s) = None"
  by (auto simp: instrumentedRandom_def tick_def split: option.splits prod.splits)

locale observed_store = bounded_store put random inv contents capacity
  for put :: "'s store_put" and random :: "'s store_random" and inv :: "'s \<Rightarrow> bool"
    and contents :: "'s \<Rightarrow> int \<Rightarrow> string \<Rightarrow> string list" and capacity :: "string \<Rightarrow> nat option" +
  fixes label :: string

sublocale observed_store < observed: bounded_store "instrumentedPut put label"
  "instrumentedRandom random label" "\<lambda>s. inv (iv_inner s)" "\<lambda>s. contents (iv_inner s)" capacity
  by unfold_locales
    (auto simp only: instrumentedPut_None instrumentedRandom_None
      dest!: instrumentedPut_inner instrumentedRandom_inner
      dest: put_total random_total put_inv random_inv random_nonempty put_done put_failed
        put_elsewhere random_member random_empty random_reads contents_kept)

interpretation memory_observed: observed_store memoryPut memoryRandom "memory_inv cap" memory_contents
  cap label for cap :: "string \<Rightarrow> nat option" and label :: string
  by unfold_locales

subsection \<open>Properties\<close>

lemma memory_random_values:
  assumes "memory_inv cap s"
  shows "{x. \<exists>r r' s'. memoryRandom None t st r s = Some ((x, True, None), r', s')} = set (memory_contents s t st)"
proof (intro set_eqI iffI)
  fix x assume "x \<in> {x. \<exists>r r' s'. memoryRandom None t st r s = Some ((x, True, None), r', s')}"
  then show "x \<in> set (memory_contents s t st)" using memory.random_member [OF assms] by blast
next
  fix x assume "x \<in> set (memory_contents s t st)"
  then obtain p where p: "s st = Some p" "x \<in> set (mp_values p)"
    by (cases "s st") (auto simp: memory_contents_def pool_contents_set)
  then obtain i where i: "i < length (mp_values p)" "x = mp_values p ! i" by (auto simp: in_set_conv_nth)
  then have "memoryRandom None t st (\<lambda>_. i) s = Some ((x, True, None), (\<lambda>_. i), s)"
    using p by (auto simp: memoryRandom_def rand_n_def)
  then show "x \<in> {x. \<exists>r r' s'. memoryRandom None t st r s = Some ((x, True, None), r', s')}" by blast
qed

lemma put_all_memory_inv:
  "memory_inv cap s \<Longrightarrow> memory.put_all t st xs s = Some s' \<Longrightarrow> memory_inv cap s'"
proof (induction xs arbitrary: s)
  case Nil
  then show ?case by simp
next
  case (Cons x xs)
  then obtain s1 where "memoryPut None t st x s = Some (None, s1)" "memory.put_all t st xs s1 = Some s'"
    by (auto split: option.splits prod.splits)
  then show ?case using Cons.IH [OF memory.put_inv [OF Cons.prems(1)]] by blast
qed

lemma put_all_memory_total:
  assumes "memory_inv cap s" and "cap st \<noteq> None" and "'''' \<notin> set xs"
  shows "\<exists>s'. memory.put_all t st xs s = Some s'"
  using assms(1,3)
proof (induction xs arbitrary: s)
  case Nil
  then show ?case by simp
next
  case (Cons x xs)
  have "s st \<noteq> None"
    using spec [OF Cons.prems(1) [unfolded memory_inv_def], of st] assms(2) by (cases "s st") simp_all
  then obtain p where p: "s st = Some p" by blast
  have x: "pool_ok p" "x \<noteq> ''''"
    using memory_inv_Some [OF Cons.prems(1) p] Cons.prems(2) by auto
  obtain p' where "pool_put x p = Some p'" by (rule pool_put_refines [OF x])
  then have s1: "memoryPut None t st x s = Some (None, s(st \<mapsto> p'))"
    using p x(2) by (simp add: memoryPut_def)
  have "\<exists>s'. memory.put_all t st xs (s(st \<mapsto> p')) = Some s'"
    by (rule Cons.IH [OF memory.put_inv [OF Cons.prems(1) s1]]) (use Cons.prems(2) in simp)
  then show ?case by (simp add: s1)
qed

text \<open>C19. The ring buffer is a bounded queue: after any non-empty values have been put into a
  declared store, it holds exactly the newest ones up to its capacity, in order, and a random
  read returns each of them for some draw and nothing else. No put and no read panics.\<close>

theorem memory_store_newest:
  assumes "newMemoryStore configs = Inr s" and "c \<in> set configs" and "'''' \<notin> set xs"
  shows "\<exists>s'. memory.put_all t (st_name c) xs s = Some s'
    \<and> memory_contents s' t (st_name c) = take_last (nat (st_capacity c)) xs
    \<and> {x. \<exists>r r' s''. memoryRandom None t (st_name c) r s' = Some ((x, True, None), r', s'')}
        = set (take_last (nat (st_capacity c)) xs)
    \<and> (\<forall>r. memoryRandom None t (st_name c) r s' \<noteq> None)"
proof -
  note inv = newMemoryStore_inv(1) [OF assms(1)]
  have cap: "capacity_of configs (st_name c) = Some (nat (st_capacity c))"
    using assms(1,2) unfolding newMemoryStore_def capacity_of_def
    by (auto simp: validateStoreConfigs_Inr map_of_eq_Some_iff o_def split: sum.splits)
  obtain s' where s': "memory.put_all t (st_name c) xs s = Some s'"
    using put_all_memory_total [OF inv _ assms(3), of "st_name c"] cap by auto
  have "memory_contents s' t (st_name c) = take_last (nat (st_capacity c)) ([] @ xs)"
    using newMemoryStore_inv(2) [OF assms(1)]
    by (intro memory.put_all_newest(1) [OF inv s' cap]) (simp add: take_last_def)
  then show ?thesis
    using s' put_all_memory_inv [OF inv s'] memory_random_values memory.random_total by simp
qed

theorem memory_store_newest_witness:
  "\<exists>s'. memory.put_all 0 ''a'' [''x'', ''y'', ''z''] [''a'' \<mapsto> \<lparr>mp_values = [], mp_next = 0, mp_limit = 2\<rparr>] = Some s'
    \<and> memory_contents s' 0 ''a'' = [''y'', ''z'']"
proof -
  have "newMemoryStore [\<lparr>st_name = ''a'', st_capacity = 2\<rparr>]
      = Inr [''a'' \<mapsto> \<lparr>mp_values = [], mp_next = 0, mp_limit = 2\<rparr>]"
    by (simp add: newMemoryStore_def validateStoreConfigs_def config_limits validateName_def
        name_pattern_def)
  from memory_store_newest [OF this, of "\<lparr>st_name = ''a'', st_capacity = 2\<rparr>" "[''x'', ''y'', ''z'']" 0]
  show ?thesis by (fastforce simp: take_last_def simp del: memory.put_all.simps)
qed

lemma instrumentedPut_eq:
  "put ctx t st x (iv_inner s) = Some (err, i') \<Longrightarrow> instrumentedPut put b ctx t st x s = Some (err,
    \<lparr>iv_inner = i', iv_clock = (\<lambda>i. iv_clock s (Suc (Suc i))),
     iv_seen = iv_seen s @ [\<lparr>ob_backend = b, ob_store = st, ob_operation = ''put'',
       ob_result = (if err \<noteq> None then ''error'' else ''success''),
       ob_duration = iv_clock s 1 - iv_clock s 0\<rparr>]\<rparr>)"
  by (cases s) (simp add: instrumentedPut_def tick_def observe_def)

lemma instrumentedRandom_eq:
  "random ctx t st r (iv_inner s) = Some ((y, ok, err), r', i') \<Longrightarrow>
    instrumentedRandom random b ctx t st r s = Some ((y, ok, err), r',
    \<lparr>iv_inner = i', iv_clock = (\<lambda>i. iv_clock s (Suc (Suc i))),
     iv_seen = iv_seen s @ [\<lparr>ob_backend = b, ob_store = st, ob_operation = ''random'',
       ob_result = (if err \<noteq> None then ''error'' else if \<not> ok then ''empty'' else ''success''),
       ob_duration = iv_clock s 1 - iv_clock s 0\<rparr>]\<rparr>)"
  by (cases s) (simp add: instrumentedRandom_def tick_def observe_def)


end
