(* ===== verification/Redis_Store.thy ===== *)
theory Redis_Store
  imports Value_Store Redis_Limiter
begin

section \<open>The Redis value store\<close>

text \<open>
  \<open>internal/runner/redis_store.go\<close>: the pools that all replicas of a scenario share, one
  Redis list per store, and the reconciliation of their expiry. \<open>Put\<close> is one transaction.
  \<open>Random\<close> is two commands, and \<open>between\<close> is whatever other clients do to the server in
  between. A pipeline is a sequence of commands; they are executed or lost together.
\<close>

definition redisRemovedStoreTTL :: int where
  "redisRemovedStoreTTL = 7 * 24 * 60 * 60 * 1000000"

record redis_store =
  sr_key_prefix :: string
  sr_limits :: "string \<rightharpoonup> int"

datatype redis_store_error =
    RedisStoreClientNil
  | RedisStoreScope scope_error
  | RedisStoreConfigs store_config_error

definition newRedisStore :: "bool \<Rightarrow> scope \<Rightarrow> store_config list \<Rightarrow> redis_store_error + redis_store" where
  "newRedisStore client_nil s configs =
     (if client_nil then Inl RedisStoreClientNil
      else case validateScope s of
        Some e \<Rightarrow> Inl (RedisStoreScope e)
      | None \<Rightarrow>
         (case validateStoreConfigs configs of
            Inl e \<Rightarrow> Inl (RedisStoreConfigs e)
          | Inr validated \<Rightarrow>
              Inr \<lparr>sr_key_prefix = StorePrefix s, sr_limits = map_of (vs_capacities validated)\<rparr>))"

definition redis_store_key :: "redis_store \<Rightarrow> string \<Rightarrow> string" where
  "redis_store_key rs store = sr_key_prefix rs @ '':'' @ store"

definition redisPut :: "'r redis_ops \<Rightarrow> redis_store \<Rightarrow> 'r redis_conn store_put" where
  "redisPut ops rs ctx t store x c =
     (case ctx of
        Some e \<Rightarrow> Some (Some (StoreContext e), c)
      | None \<Rightarrow>
         if x = '''' then Some (Some EmptyStoreValue, c)
         else
           (case sr_limits rs store of
              None \<Rightarrow> Some (Some (StoreNotFound store), c)
            | Some lim \<Rightarrow>
               (let key = redis_store_key rs store;
                    srv = rd_ltrim ops t key (- lim) (-1) (rd_rpush ops t key x (cn_server c))
                in case cn_faults c 0 of
                     RequestLost \<Rightarrow> Some (Some RedisPutFailed, next_faults c)
                   | ReplyLost \<Rightarrow> Some (Some RedisPutFailed, (next_faults c)\<lparr>cn_server := srv\<rparr>)
                   | Delivered \<Rightarrow> Some (None, (next_faults c)\<lparr>cn_server := srv\<rparr>))))"

definition redisRandom ::
  "'r redis_ops \<Rightarrow> redis_store \<Rightarrow> ('r \<Rightarrow> 'r) \<Rightarrow> 'r redis_conn store_random" where
  "redisRandom ops rs between ctx t store r c =
     (case ctx of
        Some e \<Rightarrow> Some (('''', False, Some (StoreContext e)), r, c)
      | None \<Rightarrow>
         (case sr_limits rs store of
            None \<Rightarrow> Some (('''', False, Some (StoreNotFound store)), r, c)
          | Some _ \<Rightarrow>
             (let key = redis_store_key rs store;
                  len = rd_llen ops t key (cn_server c);
                  c1 = next_faults c
              in if cn_faults c 0 \<noteq> Delivered
                 then Some (('''', False, Some RedisLengthFailed), r, c1)
                 else if len = 0 then Some (('''', False, None), r, c1)
                 else
                   (case rand_n len r of
                      None \<Rightarrow> None
                    | Some (i, r') \<Rightarrow>
                       (let c2 = (next_faults c1)\<lparr>cn_server := between (cn_server c1)\<rparr>
                        in if cn_faults c1 0 \<noteq> Delivered
                           then Some (('''', False, Some RedisIndexFailed), r', c2)
                           else (case rd_lindex ops t key i (cn_server c2) of
                                   None \<Rightarrow> Some (('''', False, None), r', c2)
                                 | Some x \<Rightarrow> Some ((x, True, None), r', c2)))))))"

datatype reconcile_error = ReconcileContext ctx_error | ReconcileScan | ReconcilePipeline

definition reconcile_selects :: "redis_store \<Rightarrow> string \<Rightarrow> bool" where
  "reconcile_selects rs key \<longleftrightarrow>
     (let store = trim_prefix key (sr_key_prefix rs @ '':'')
      in \<not> (contains store '':'' \<or> validateName store \<noteq> None))"

definition reconcile_command :: "'r redis_ops \<Rightarrow> redis_store \<Rightarrow> int \<Rightarrow> string \<Rightarrow> 'r \<Rightarrow> 'r" where
  "reconcile_command ops rs t key srv =
     (if sr_limits rs (trim_prefix key (sr_key_prefix rs @ '':'')) \<noteq> None
      then rd_persist ops t key srv
      else rd_expire_nx ops t key redisRemovedStoreTTL srv)"

definition redisReconcileKeys ::
  "'r redis_ops \<Rightarrow> redis_store \<Rightarrow> ctx \<Rightarrow> int \<Rightarrow> 'r redis_conn \<Rightarrow> reconcile_error option \<times> 'r redis_conn" where
  "redisReconcileKeys ops rs ctx t c =
     (case ctx of
        Some e \<Rightarrow> (Some (ReconcileContext e), c)
      | None \<Rightarrow>
         (let keys = filter (reconcile_selects rs)
                       (rd_scan ops t (sr_key_prefix rs @ '':*'') (cn_server c));
              c1 = next_faults c
          in if cn_faults c 0 \<noteq> Delivered then (Some ReconcileScan, c1)
             else if keys = [] then (None, c1)
             else
               (let srv = fold (reconcile_command ops rs t) keys (cn_server c1);
                    c2 = next_faults c1
                in case cn_faults c1 0 of
                     RequestLost \<Rightarrow> (Some ReconcilePipeline, c2)
                   | ReplyLost \<Rightarrow> (Some ReconcilePipeline, c2\<lparr>cn_server := srv\<rparr>)
                   | Delivered \<Rightarrow> (None, c2\<lparr>cn_server := srv\<rparr>))))"

subsection \<open>Puts and reads\<close>

definition store_limits_ok :: "redis_store \<Rightarrow> bool" where
  "store_limits_ok rs \<longleftrightarrow> (\<forall>st n. sr_limits rs st = Some n \<longrightarrow> 1 \<le> n)"

definition redis_contents :: "'r redis_view \<Rightarrow> redis_store \<Rightarrow> 'r redis_conn \<Rightarrow> int \<Rightarrow> string \<Rightarrow> string list" where
  "redis_contents v rs c t st = listing v t (redis_store_key rs st) (cn_server c)"

text \<open>
  What every put keeps of the declared stores, and a reconciliation establishes: they hold
  no empty value and their keys do not expire.
\<close>

definition redis_values_ok :: "'r redis_view \<Rightarrow> redis_store \<Rightarrow> 'r redis_conn \<Rightarrow> bool" where
  "redis_values_ok v rs c \<longleftrightarrow>
     (\<forall>st n. sr_limits rs st = Some n \<longrightarrow>
        '''' \<notin> set (rv_items v (redis_store_key rs st) (cn_server c))
        \<and> rv_deadline v (redis_store_key rs st) (cn_server c) = None)"

lemma redis_store_key_inject [simp]: "redis_store_key rs a = redis_store_key rs b \<longleftrightarrow> a = b"
  by (simp add: redis_store_key_def)

lemma same_key_listing: "same_key v k r r' \<Longrightarrow> listing v t k r' = listing v t k r"
  by (simp add: listing_def same_key_def alive_def)

locale redis_value_store = redis_lists ops v
  for ops :: "'r redis_ops" and v :: "'r redis_view" +
  fixes rs :: redis_store
  assumes limits_ok: "store_limits_ok rs"
begin

lemma put_transaction:
  fixes t :: int and r :: 'r
  assumes "sr_limits rs st = Some n" and "x \<noteq> ''''"
  defines "k \<equiv> redis_store_key rs st"
  defines "r' \<equiv> rd_ltrim ops t k (- n) (-1) (rd_rpush ops t k x r)"
  shows "listing v t k r' = take_last (nat n) (listing v t k r @ [x])"
    and "rv_items v k r' = take_last (nat n) (listing v t k r @ [x])"
    and "rv_deadline v k r = None \<Longrightarrow> rv_deadline v k r' = None"
    and "k' \<noteq> k \<Longrightarrow> same_key v k' r r'"
proof -
  let ?r1 = "rd_rpush ops t k x r"
  have n: "0 < nat n" "n = int (nat n)"
    using limits_ok assms(1) by (fastforce simp: store_limits_ok_def)+
  have a: "alive v t k ?r1"
    by (auto simp: alive_def rpush_exists rpush_deadline split: option.splits)
  have "rv_items v k r' = take_last (nat n) (rv_items v k ?r1) \<and> rv_exists v k r'
      \<and> rv_deadline v k r' = rv_deadline v k ?r1"
    unfolding r'_def using ltrim_last [OF a _ n(1)] n(2) by (simp add: rpush_items)
  then show "listing v t k r' = take_last (nat n) (listing v t k r @ [x])"
    "rv_items v k r' = take_last (nat n) (listing v t k r @ [x])"
    "rv_deadline v k r = None \<Longrightarrow> rv_deadline v k r' = None"
    using a by (simp_all add: listing_def [of v t k r'] alive_def rpush_items rpush_deadline)
  show "k' \<noteq> k \<Longrightarrow> same_key v k' r r'"
    unfolding r'_def by (rule same_key_trans [OF rpush_other ltrim_other])
qed

lemma redisPut_cases:
  obtains (refused) e c' where "redisPut ops rs ctx t st x c = Some (Some e, c')"
      "cn_server c' = cn_server c"
  | (stored) e c' n where "redisPut ops rs ctx t st x c = Some (e, c')" "x \<noteq> ''''"
      "sr_limits rs st = Some n"
      "cn_server c' = rd_ltrim ops t (redis_store_key rs st) (- n) (-1)
        (rd_rpush ops t (redis_store_key rs st) x (cn_server c))"
proof (cases "ctx = None \<and> x \<noteq> '''' \<and> sr_limits rs st \<noteq> None \<and> cn_faults c 0 \<noteq> RequestLost")
  case True
  then obtain n where n: "sr_limits rs st = Some n" by blast
  let ?srv = "rd_ltrim ops t (redis_store_key rs st) (- n) (-1)
      (rd_rpush ops t (redis_store_key rs st) x (cn_server c))"
  have "redisPut ops rs ctx t st x c =
      Some (if cn_faults c 0 = Delivered then None else Some RedisPutFailed,
        (next_faults c)\<lparr>cn_server := ?srv\<rparr>)"
    using True n by (cases "cn_faults c 0") (simp_all add: redisPut_def Let_def)
  then show ?thesis using stored [OF _ _ n] True by simp
next
  case False
  then have "\<exists>e c'. redisPut ops rs ctx t st x c = Some (Some e, c') \<and> cn_server c' = cn_server c"
    by (auto simp: redisPut_def Let_def split: option.splits)
  then show ?thesis using refused by blast
qed

lemma redisRandom_cases:
  obtains (failed) e r' c' where "redisRandom ops rs between ctx t st r c = Some (('''', False, Some e), r', c')"
      "cn_server c' \<in> {cn_server c, between (cn_server c)}"
  | (none) r' c' where "redisRandom ops rs between ctx t st r c = Some (('''', False, None), r', c')"
      "redis_contents v rs c t st = [] \<and> cn_server c' = cn_server c
       \<or> length (redis_contents v rs c' t st) < length (redis_contents v rs c t st)
         \<and> cn_server c' = between (cn_server c)"
  | (found) x r' c' where "redisRandom ops rs between ctx t st r c = Some ((x, True, None), r', c')"
      "x \<in> set (redis_contents v rs c' t st)" "cn_server c' = between (cn_server c)"
proof (cases "ctx = None \<and> sr_limits rs st \<noteq> None \<and> cn_faults c 0 = Delivered")
  case False
  then have "\<exists>e r' c'. redisRandom ops rs between ctx t st r c = Some (('''', False, Some e), r', c')
      \<and> cn_server c' = cn_server c"
    by (auto simp: redisRandom_def Let_def split: option.splits)
  then show ?thesis using failed by blast
next
  case True
  then obtain n where n: "ctx = None" "sr_limits rs st = Some n" "cn_faults c 0 = Delivered" by blast
  define len where "len = rd_llen ops t (redis_store_key rs st) (cn_server c)"
  have len: "len = int (length (redis_contents v rs c t st))"
    by (simp add: len_def llen redis_contents_def)
  show ?thesis
  proof (cases "len = 0")
    case True
    then have "redisRandom ops rs between ctx t st r c = Some (('''', False, None), r, next_faults c)"
      using n by (simp add: redisRandom_def Let_def flip: len_def)
    then show ?thesis by (rule none) (use True len in simp)
  next
    case False
    then have "0 < len" using len by simp
    then obtain i r' where i: "rand_n len r = Some (i, r')" "0 \<le> i" "i < len"
      using rand_n_total by blast
    define c2 where "c2 = (next_faults (next_faults c))\<lparr>cn_server := between (cn_server c)\<rparr>"
    have run: "redisRandom ops rs between ctx t st r c =
        (if cn_faults (next_faults c) 0 \<noteq> Delivered then Some (('''', False, Some RedisIndexFailed), r', c2)
         else (case rd_lindex ops t (redis_store_key rs st) i (cn_server c2) of
                 None \<Rightarrow> Some (('''', False, None), r', c2)
               | Some x \<Rightarrow> Some ((x, True, None), r', c2)))"
      using n False i(1) by (simp add: redisRandom_def Let_def c2_def split: option.split flip: len_def)
    have srv: "cn_server c2 = between (cn_server c)" by (simp add: c2_def)
    show ?thesis
    proof (cases "cn_faults (next_faults c) 0 = Delivered")
      case False
      then show ?thesis using failed run srv by simp
    next
      case True
      note idx = lindex [OF i(2), of t "redis_store_key rs st" "cn_server c2", folded redis_contents_def]
      show ?thesis
      proof (cases "i < int (length (redis_contents v rs c2 t st))")
        case True
        then have "redis_contents v rs c2 t st ! nat i \<in> set (redis_contents v rs c2 t st)"
          using i(2) by (intro nth_mem) simp
        then show ?thesis using found run srv idx True \<open>cn_faults (next_faults c) 0 = Delivered\<close> by simp
      next
        case False
        then have fewer: "length (redis_contents v rs c2 t st) < length (redis_contents v rs c t st)"
          using i(3) len by linarith
        have "redisRandom ops rs between ctx t st r c = Some (('''', False, None), r', c2)"
          using run srv idx False \<open>cn_faults (next_faults c) 0 = Delivered\<close> by simp
        from none [OF this] show ?thesis using fewer srv by simp
      qed
    qed
  qed
qed

end

sublocale redis_value_store < redis_pool: bounded_store "redisPut ops rs" "redisRandom ops rs id"
  "redis_values_ok v rs" "redis_contents v rs" "\<lambda>st. map_option nat (sr_limits rs st)"
proof
  fix s s' :: "'r redis_conn" and ctx t st x err
  assume i: "redis_values_ok v rs s"
  show "redisPut ops rs ctx t st x s \<noteq> None"
    by (rule redisPut_cases [of ctx t st x s]) auto
  assume put: "redisPut ops rs ctx t st x s = Some (err, s')"
  show "redis_values_ok v rs s'"
  proof (rule redisPut_cases [of ctx t st x s])
    fix e c' n
    assume c: "redisPut ops rs ctx t st x s = Some (e, c')" "x \<noteq> ''''" "sr_limits rs st = Some n"
      "cn_server c' = rd_ltrim ops t (redis_store_key rs st) (- n) (-1)
        (rd_rpush ops t (redis_store_key rs st) x (cn_server s))"
    have "'''' \<notin> set (rv_items v (redis_store_key rs st') (cn_server c'))
        \<and> rv_deadline v (redis_store_key rs st') (cn_server c') = None"
      if l: "sr_limits rs st' = Some n'" for st' n'
    proof (cases "st' = st")
      case True
      have "set (take_last (nat n) (listing v t (redis_store_key rs st) (cn_server s) @ [x]))
          \<subseteq> insert x (set (rv_items v (redis_store_key rs st) (cn_server s)))"
        using set_take_last by (fastforce simp: listing_def)
      then show ?thesis
        using put_transaction(2,3) [OF c(3,2)] i c(2,3,4) True by (auto simp: redis_values_ok_def)
    next
      case False
      then have "same_key v (redis_store_key rs st') (cn_server s) (cn_server c')"
        unfolding c(4) by (intro put_transaction(4) [OF c(3,2)]) simp
      then show ?thesis using i l by (simp add: same_key_def redis_values_ok_def)
    qed
    then show ?thesis using c(1) put by (simp add: redis_values_ok_def)
  qed (use put i in \<open>auto simp: redis_values_ok_def\<close>)
  fix st' t'
  assume "st' \<noteq> st"
  then have k: "redis_store_key rs st' \<noteq> redis_store_key rs st" by simp
  show "redis_contents v rs s' t' st' = redis_contents v rs s t' st'"
    by (rule redisPut_cases [of ctx t st x s])
      (use put in \<open>auto simp: redis_contents_def intro!: same_key_listing put_transaction(4) [OF _ _ k]\<close>)
next
  fix s s' :: "'r redis_conn" and ctx t st x
  assume put: "redisPut ops rs ctx t st x s = Some (None, s')"
  show "x \<noteq> '''' \<and> (\<exists>n. map_option nat (sr_limits rs st) = Some n
      \<and> redis_contents v rs s' t st = take_last n (redis_contents v rs s t st @ [x]))"
    by (rule redisPut_cases [of ctx t st x s])
      (use put put_transaction(1) in \<open>auto simp: redis_contents_def\<close>)
next
  fix s s' :: "'r redis_conn" and ctx t st x e
  assume put: "redisPut ops rs ctx t st x s = Some (Some e, s')"
  show "redis_contents v rs s' t st = redis_contents v rs s t st
      \<or> x \<noteq> '''' \<and> (\<exists>n. map_option nat (sr_limits rs st) = Some n
        \<and> redis_contents v rs s' t st = take_last n (redis_contents v rs s t st @ [x]))"
    by (rule redisPut_cases [of ctx t st x s])
      (use put put_transaction(1) in \<open>auto simp: redis_contents_def\<close>)
next
  fix s s' :: "'r redis_conn" and ctx t st r res r' x
  assume i: "redis_values_ok v rs s"
  show "redisRandom ops rs id ctx t st r s \<noteq> None"
    by (rule redisRandom_cases [of id ctx t st r s]) auto
  have srv: "cn_server s' = cn_server s" if "redisRandom ops rs id ctx t st r s = Some (res, r', s')" for res
    by (rule redisRandom_cases [of id ctx t st r s]) (use that in auto)
  show "redis_values_ok v rs s'" if "redisRandom ops rs id ctx t st r s = Some (res, r', s')"
    using srv [OF that] i by (simp add: redis_values_ok_def)
  show "redis_contents v rs s' t' st' = redis_contents v rs s t' st'"
    if "redisRandom ops rs id ctx t st r s = Some (res, r', s')" for t' st'
    using srv [OF that] by (simp add: redis_contents_def)
  show mem: "x \<in> set (redis_contents v rs s t st)"
    if "redisRandom ops rs id ctx t st r s = Some ((x, True, None), r', s')"
    by (rule redisRandom_cases [of id ctx t st r s]) (use that in \<open>auto simp: redis_contents_def\<close>)
  show "x \<noteq> ''''" if run: "redisRandom ops rs id ctx t st r s = Some ((x, True, None), r', s')"
  proof -
    have "sr_limits rs st \<noteq> None" using run by (auto simp: redisRandom_def split: option.splits)
    then show ?thesis using mem [OF run] i
      by (auto simp: redis_values_ok_def redis_contents_def listing_def split: if_splits)
  qed
  show "redis_contents v rs s t st = []"
    if "redisRandom ops rs id ctx t st r s = Some ((x, False, None), r', s')"
    by (rule redisRandom_cases [of id ctx t st r s]) (use that in \<open>auto simp: redis_contents_def\<close>)
next
  fix s :: "'r redis_conn" and t t' st
  assume "redis_values_ok v rs s" "map_option nat (sr_limits rs st) \<noteq> None"
  then show "redis_contents v rs s t st = redis_contents v rs s t' st"
    by (auto simp: redis_contents_def listing_def alive_def redis_values_ok_def)
qed

subsection \<open>Reconciliation\<close>

definition reconciled_deadline :: "redis_store \<Rightarrow> int \<Rightarrow> string \<Rightarrow> int option \<Rightarrow> int option" where
  "reconciled_deadline rs t k d =
     (if sr_limits rs (trim_prefix k (sr_key_prefix rs @ '':'')) \<noteq> None then None
      else case d of None \<Rightarrow> Some (t + redisRemovedStoreTTL) | Some x \<Rightarrow> Some x)"

context redis_keyspace
begin

lemma reconcile_command_key:
  assumes "alive v t k r"
  shows "rv_deadline v k (reconcile_command ops rs t k r) = reconciled_deadline rs t k (rv_deadline v k r)"
    and "alive v t k (reconcile_command ops rs t k r)"
    and "rv_items v k (reconcile_command ops rs t k r) = rv_items v k r"
    and "rv_exists v k (reconcile_command ops rs t k r) = rv_exists v k r"
proof -
  show d: "rv_deadline v k (reconcile_command ops rs t k r) = reconciled_deadline rs t k (rv_deadline v k r)"
    using assms by (auto simp: reconcile_command_def persist_deadline expire_nx_deadline
        reconciled_deadline_def split: option.splits)
  show e: "rv_exists v k (reconcile_command ops rs t k r) = rv_exists v k r"
    by (simp add: reconcile_command_def persist_exists expire_nx_exists)
  show "rv_items v k (reconcile_command ops rs t k r) = rv_items v k r"
    by (simp add: reconcile_command_def persist_items expire_nx_items)
  show "alive v t k (reconcile_command ops rs t k r)"
    using assms d e by (auto simp: alive_def reconciled_deadline_def redisRemovedStoreTTL_def split: option.splits)
qed

lemma reconcile_command_other: "k' \<noteq> k \<Longrightarrow> same_key v k' r (reconcile_command ops rs t k r)"
  by (simp add: reconcile_command_def persist_other expire_nx_other)

lemma reconciled_deadline_twice:
  "reconciled_deadline rs t k (reconciled_deadline rs t k d) = reconciled_deadline rs t k d"
  by (simp add: reconciled_deadline_def split: option.splits)

lemma reconcile_fold:
  fixes rs :: redis_store and t :: int
  assumes "\<And>k. k \<in> set ks \<Longrightarrow> alive v t k r"
  defines "r' \<equiv> fold (reconcile_command ops rs t) ks r"
  shows "rv_items v k r' = rv_items v k r \<and> rv_exists v k r' = rv_exists v k r
    \<and> rv_deadline v k r' =
      (if k \<in> set ks then reconciled_deadline rs t k (rv_deadline v k r) else rv_deadline v k r)"
  using assms(1) unfolding r'_def
proof (induction ks arbitrary: r)
  case Nil
  then show ?case by simp
next
  case (Cons a ks)
  let ?r1 = "reconcile_command ops rs t a r"
  have a: "alive v t a r" using Cons.prems by simp
  have "alive v t x ?r1" if "x \<in> set ks" for x
  proof (cases "x = a")
    case True
    then show ?thesis using reconcile_command_key(2) [OF a] by simp
  next
    case False
    then show ?thesis using Cons.prems that same_key_alive [OF reconcile_command_other [OF False]] by simp
  qed
  note IH = Cons.IH [OF this]
  show ?case
  proof (cases "k = a")
    case True
    then show ?thesis using IH reconcile_command_key [OF a]
      by (simp add: reconciled_deadline_twice)
  next
    case False
    then show ?thesis using IH reconcile_command_other [OF False, of r rs t] by (simp add: same_key_def)
  qed
qed

end

lemma trim_store_key: "trim_prefix (redis_store_key rs st) (sr_key_prefix rs @ '':'') = st"
  by (simp add: redis_store_key_def trim_prefix_def has_prefix_def)

lemma name_no_colon: "name_pattern st \<Longrightarrow> CHR '':'' \<notin> set st"
proof
  assume "name_pattern st" "CHR '':'' \<in> set st"
  moreover have "\<not> name_char CHR '':''" by (simp add: name_char_def)
  ultimately show False by (auto simp: name_pattern_def list_all_iff split: list.splits)
qed

lemma reconcile_selects_key [simp]:
  "reconcile_selects rs (redis_store_key rs st) \<longleftrightarrow> name_pattern st"
  using name_no_colon [of st]
  by (auto simp: reconcile_selects_def Let_def trim_store_key contains_single err_simps)

context redis_value_store
begin

lemma replica_history:
  assumes "redis_values_ok v rs c" and "sr_limits rs st = Some n"
    and "redis_contents v rs c t st = []"
  shows "\<exists>errs c' ys. bounded_store.put_history (redisPut ops rs) st cs c = Some (errs, c')
    \<and> redis_contents v rs c' t st = take_last (nat n) ys
    \<and> subseq ys (map (\<lambda>(_, _, x). x) cs)
    \<and> subseq (map (\<lambda>((_, _, x), _). x) (filter (\<lambda>(_, err). err = None) (zip cs errs))) ys"
proof -
  obtain errs c' where h: "bounded_store.put_history (redisPut ops rs) st cs c = Some (errs, c')"
    using redis_pool.put_history_total [OF assms(1)] by blast
  have "redis_contents v rs c t st = take_last (nat n) []" by (simp add: assms(3) take_last_def)
  from redis_pool.put_history_newest [OF assms(1) h _ this] show ?thesis using h assms(2) by auto
qed

end

interpretation ref_pool: redis_value_store ref_ops ref_view
  "\<lparr>sr_key_prefix = ''kurama:v2:store:n:s:u'', sr_limits = [''a'' \<mapsto> 2]\<rparr>"
  by unfold_locales (simp add: store_limits_ok_def)

subsection \<open>Properties\<close>

lemma newRedisStore_Inr:
  assumes "newRedisStore nil s configs = Inr rs"
  shows "validateScope s = None" and "sr_key_prefix rs = StorePrefix s" and "store_limits_ok rs"
    and "redis_store_key rs st = storeKey s st"
    and "map_option nat (sr_limits rs st) = capacity_of configs st"
    and "sr_limits rs st \<noteq> None \<Longrightarrow> name_pattern st"
proof -
  have rs: "validateScope s = None" "rs = \<lparr>sr_key_prefix = StorePrefix s,
      sr_limits = map_of (map (\<lambda>c. (st_name c, st_capacity c)) configs)\<rparr>"
    and c: "\<And>c. c \<in> set configs \<Longrightarrow> name_pattern (st_name c) \<and> 1 \<le> st_capacity c"
    using assms by (auto simp: newRedisStore_def validateStoreConfigs_Inr split: if_splits option.splits sum.splits)
  show "validateScope s = None" "sr_key_prefix rs = StorePrefix s" using rs by simp_all
  show "store_limits_ok rs" using c by (auto simp: store_limits_ok_def rs(2) dest!: map_of_SomeD)
  show "redis_store_key rs st = storeKey s st"
    by (simp add: redis_store_key_def storeKey_def rs(2) separator_def)
  show "map_option nat (sr_limits rs st) = capacity_of configs st" by (simp add: capacity_of_def rs(2))
  show "sr_limits rs st \<noteq> None \<Longrightarrow> name_pattern st" using c by (auto simp: rs(2) dest!: map_of_SomeD)
qed

text \<open>C29. The stores of all replicas together are bounded queues: after any history of puts into
  a declared store, by any replicas and with any requests or replies lost, the list on the
  server holds the newest of the values stored, which include every acknowledged one in order;
  no put panics.\<close>

theorem redis_store_newest:
  fixes c :: "'r redis_conn"
  assumes "redis_lists ops v" and "newRedisStore nil s configs = Inr rs"
    and "capacity_of configs st = Some n" and "\<And>k. \<not> rv_exists v k (cn_server c)"
    and "\<And>k. rv_deadline v k (cn_server c) = None" and "\<And>k. rv_items v k (cn_server c) = []"
  shows "\<exists>errs c' ys. bounded_store.put_history (redisPut ops rs) st cs c = Some (errs, c')
    \<and> listing v t (storeKey s st) (cn_server c') = take_last n ys
    \<and> subseq ys (map (\<lambda>(_, _, x). x) cs)
    \<and> subseq (map (\<lambda>((_, _, x), _). x) (filter (\<lambda>(_, err). err = None) (zip cs errs))) ys"
proof -
  note rs = newRedisStore_Inr [OF assms(2)]
  have l: "redis_value_store ops v rs"
    using assms(1) rs(3) by (simp add: redis_value_store_def redis_value_store_axioms_def)
  obtain m where m: "sr_limits rs st = Some m" "nat m = n" using rs(5) [of st] assms(3) by auto
  have "redis_values_ok v rs c" using assms(5,6) by (simp add: redis_values_ok_def)
  moreover have "redis_contents v rs c t st = []" using assms(4) by (simp add: redis_contents_def listing_def alive_def)
  ultimately show ?thesis
    using redis_value_store.replica_history [OF l _ m(1), of c t cs] m(2) by (simp add: redis_contents_def rs(4))
qed

text \<open>A server with one declared store, for evaluation.\<close>

definition example_scope :: scope where
  "example_scope = \<lparr>sc_namespace = ''n'', sc_scenario = ''s'', sc_uid = ''u''\<rparr>"

lemma example_scope_ok: "validateScope example_scope = None"
  by (simp add: err_simps scope_parts_def example_scope_def)

definition example_store :: redis_store where
  "example_store = \<lparr>sr_key_prefix = StorePrefix example_scope, sr_limits = [''a'' \<mapsto> 2]\<rparr>"

lemma example_store_new:
  "newRedisStore False example_scope [\<lparr>st_name = ''a'', st_capacity = 2\<rparr>] = Inr example_store"
  by (simp add: newRedisStore_def example_scope_ok validateStoreConfigs_def config_limits
      validateName_def name_pattern_def example_store_def)

theorem redis_store_newest_witness:
  "\<exists>errs c' ys. bounded_store.put_history (redisPut ref_ops example_store) ''a''
      [(None, 1, ''x''), (None, 2, ''y''), (None, 3, ''z'')]
      \<lparr>cn_server = [], cn_faults = (\<lambda>i. if i = 1 then ReplyLost else Delivered)\<rparr> = Some (errs, c')
    \<and> listing ref_view 0 (storeKey example_scope ''a'') (cn_server c') = take_last 2 ys"
  using redis_store_newest [OF ref_lists.redis_lists_axioms example_store_new, of "''a''" 2
      "\<lparr>cn_server = [], cn_faults = (\<lambda>i. if i = 1 then ReplyLost else Delivered)\<rparr>"
      "[(None, 1, ''x''), (None, 2, ''y''), (None, 3, ''z'')]" 0]
  by (auto simp: capacity_of_def ref_view_def)

text \<open>A read is safe whatever other clients do between its two commands: it never panics,
  and a value it returns is in the list at the moment of the second command.\<close>

theorem redis_random_interleaved:
  assumes "redis_lists ops v" and "newRedisStore nil s configs = Inr rs"
  shows "\<exists>res r' c'. redisRandom ops rs between ctx t st r c = Some (res, r', c')
    \<and> (case res of
         (x, True, None) \<Rightarrow> x \<in> set (listing v t (storeKey s st) (between (cn_server c)))
       | (_, True, Some _) \<Rightarrow> False
       | (x, False, _) \<Rightarrow> x = '''')"
proof -
  note rs = newRedisStore_Inr [OF assms(2)]
  have l: "redis_value_store ops v rs"
    using assms(1) rs(3) by (simp add: redis_value_store_def redis_value_store_axioms_def)
  show ?thesis
    by (rule redis_value_store.redisRandom_cases [OF l, of between ctx t st r c])
      (auto simp: redis_contents_def rs(4))
qed

theorem redis_random_interleaved_witness:
  "\<exists>res r' c'. redisRandom ref_ops example_store (\<lambda>_. []) None 0 ''a'' (\<lambda>_. 1)
     \<lparr>cn_server = [(storeKey example_scope ''a'', \<lparr>re_deadline = None, re_fields = Map.empty,
         re_items = [''x'', ''y'']\<rparr>)], cn_faults = (\<lambda>_. Delivered)\<rparr> = Some (res, r', c')"
  using redis_random_interleaved [OF ref_lists.redis_lists_axioms example_store_new, of "\<lambda>_. []" None 0
      "''a''" "\<lambda>_. 1" "\<lparr>cn_server = [(storeKey example_scope ''a'', \<lparr>re_deadline = None,
         re_fields = Map.empty, re_items = [''x'', ''y'']\<rparr>)], cn_faults = (\<lambda>_. Delivered)\<rparr>"] by blast

text \<open>C30. Reconciliation: afterwards the existing lists of declared stores do not expire, those of
  removed stores expire seven days later unless they already had a deadline, which is never
  extended, and nothing else changes: no list's contents and no other key.\<close>

theorem reconcile_keys_expiry:
  fixes c :: "'r redis_conn"
  assumes "redis_keyspace matches ops v" and "newRedisStore nil s configs = Inr rs"
    and "glob_free (sc_namespace s)" and "glob_free (sc_scenario s)" and "glob_free (sc_uid s)"
    and "redisReconcileKeys ops rs None t c = (None, c')"
  shows "rv_items v k (cn_server c') = rv_items v k (cn_server c)
    \<and> rv_exists v k (cn_server c') = rv_exists v k (cn_server c)
    \<and> rv_deadline v k (cn_server c') =
       (if alive v t k (cn_server c) \<and> (\<exists>st. name_pattern st \<and> k = storeKey s st)
        then (if \<exists>st. capacity_of configs st \<noteq> None \<and> k = storeKey s st then None
              else case rv_deadline v k (cn_server c) of
                     None \<Rightarrow> Some (t + redisRemovedStoreTTL)
                   | Some d \<Rightarrow> Some d)
        else rv_deadline v k (cn_server c))"
proof -
  note rs = newRedisStore_Inr [OF assms(2)]
  define ks where "ks = filter (reconcile_selects rs) (rd_scan ops t (sr_key_prefix rs @ '':*'') (cn_server c))"
  have g: "glob_free (sr_key_prefix rs @ '':'')"
    using assms(3-5) by (auto simp: rs(2) StorePrefix_def glob_free_def contains_any_iff
        kindPrefix_join key_parts_def scope_parts_def key_constants)
  have "matches (sr_key_prefix rs @ '':*'') k \<longleftrightarrow> (\<exists>st. k = redis_store_key rs st)" for k
    using redis_match.matches_prefix [OF redis_keyspace.axioms(1) [OF assms(1)] g, of k]
    by (auto simp: has_prefix_iff redis_store_key_def)
  then have ks: "k \<in> set ks \<longleftrightarrow> alive v t k (cn_server c) \<and> (\<exists>st. name_pattern st \<and> k = storeKey s st)" for k
    by (auto simp: ks_def redis_keyspace.scan [OF assms(1)] rs(4) [symmetric])
  have "cn_server c' = fold (reconcile_command ops rs t) ks (cn_server c)"
    using assms(6) by (auto simp: redisReconcileKeys_def Let_def ks_def split: if_splits fault.splits)
  then have main: "rv_items v k (cn_server c') = rv_items v k (cn_server c)
    \<and> rv_exists v k (cn_server c') = rv_exists v k (cn_server c)
    \<and> rv_deadline v k (cn_server c') =
      (if k \<in> set ks then reconciled_deadline rs t k (rv_deadline v k (cn_server c))
       else rv_deadline v k (cn_server c))"
    using redis_keyspace.reconcile_fold [OF assms(1), of ks t "cn_server c" k rs] ks by simp
  define declared where "declared \<longleftrightarrow> (\<exists>st. capacity_of configs st \<noteq> None \<and> k = storeKey s st)"
  have recon: "reconciled_deadline rs t k d = (if declared then None
       else case d of None \<Rightarrow> Some (t + redisRemovedStoreTTL) | Some x \<Rightarrow> Some x)"
    if "k = storeKey s st" for st d
  proof -
    have "sr_limits rs st \<noteq> None \<longleftrightarrow> capacity_of configs st \<noteq> None"
      using rs(5) [of st] by (metis option.map_disc_iff)
    then show ?thesis
      using that by (simp add: reconciled_deadline_def trim_store_key declared_def rs(4) [symmetric])
  qed
  show ?thesis
  proof (cases "k \<in> set ks")
    case True
    then obtain st where "k = storeKey s st" using ks by blast
    from recon [OF this] show ?thesis
      using main True unfolding ks [symmetric] declared_def [symmetric] by simp
  next
    case False
    then show ?thesis using main unfolding ks [symmetric] declared_def [symmetric] by simp
  qed
qed

theorem reconcile_keys_expiry_witness:
  "rv_deadline ref_view (storeKey example_scope ''b'')
     (cn_server (snd (redisReconcileKeys ref_ops example_store None 5
        \<lparr>cn_server = [(storeKey example_scope ''b'', \<lparr>re_deadline = None, re_fields = Map.empty,
           re_items = [''x'']\<rparr>)], cn_faults = (\<lambda>_. Delivered)\<rparr>)))
    = Some (5 + redisRemovedStoreTTL)"
proof -
  let ?c = "\<lparr>cn_server = [(storeKey example_scope ''b'', \<lparr>re_deadline = None, re_fields = Map.empty,
           re_items = [''x'']\<rparr>)], cn_faults = (\<lambda>_. Delivered)\<rparr>"
  obtain e c' where r: "redisReconcileKeys ref_ops example_store None 5 ?c = (e, c')" by fastforce
  then have e: "e = None" by (auto simp: redisReconcileKeys_def Let_def next_faults_def split: if_splits)
  have g: "glob_free (sc_namespace example_scope)" "glob_free (sc_scenario example_scope)"
    "glob_free (sc_uid example_scope)"
    by (simp_all add: example_scope_def glob_free_def contains_any_def)
  have "alive ref_view 5 (storeKey example_scope ''b'') (cn_server ?c)"
    by (simp add: alive_def ref_view_def)
  moreover have "name_pattern ''b''" by (simp add: name_pattern_def)
  moreover have "storeKey example_scope x = storeKey example_scope y \<longleftrightarrow> x = y" for x y
    by (simp add: storeKey_def)
  ultimately show ?thesis
    using reconcile_keys_expiry [OF ref_keyspace.redis_keyspace_axioms example_store_new g r [unfolded e],
        of "storeKey example_scope ''b''"]
    by (auto simp: r capacity_of_def ref_view_def)
qed

end
