(* ===== verification/Templates.thy ===== *)
theory Templates
  imports Runner_Config "HOL-Library.Word"
begin

unbundle bit_operations_syntax

section \<open>Template values, escaping and capture\<close>

text \<open>
  \<open>value_generator.go\<close>, the rendering half of \<open>executor_variables.go\<close> and
  \<open>executor_capture.go\<close>, with what they use of \<open>net/url\<close> (\<open>PathEscape\<close>) and of
  \<open>encoding/json\<close> (the escaping of a string). JSON documents are the values
  \<open>json.Decoder\<close> builds for \<open>any\<close> with \<open>UseNumber\<close>.
\<close>

subsection \<open>Generated values\<close>

definition base62Alphabet :: string where
  "base62Alphabet = ''0123456789ABCDEFGHIJKLMNOPQRSTUVWXYZabcdefghijklmnopqrstuvwxyz''"

definition hex_digit :: "nat \<Rightarrow> char" where
  "hex_digit n = ''0123456789abcdef'' ! n"

definition hex_byte :: "8 word \<Rightarrow> string" where
  "hex_byte b = [hex_digit (unat b div 16), hex_digit (unat b mod 16)]"

definition hex :: "8 word list \<Rightarrow> string" where
  "hex bs = concat (map hex_byte bs)"

text \<open>The formatting of sixteen random bytes as a version 4 UUID.\<close>

definition uuid_of :: "8 word list \<Rightarrow> string" where
  "uuid_of bytes =
     (let d6 = bytes[6 := (bytes ! 6 AND 0x0f) OR 0x40];
          d = d6[8 := (d6 ! 8 AND 0x3f) OR 0x80]
      in hex (take 4 d) @ ''-'' @ hex (take 2 (drop 4 d)) @ ''-'' @ hex (take 2 (drop 6 d))
         @ ''-'' @ hex (take 2 (drop 8 d)) @ ''-'' @ hex (take 6 (drop 10 d)))"

text \<open>
  The random source of \<open>crypto/rand\<close>: the numbers it delivers, \<open>None\<close> where a read fails.
  \<open>rand.Int\<close> of a bound takes one number below the bound.
\<close>

type_synonym entropy = "nat \<Rightarrow> nat option"

definition read_bytes :: "nat \<Rightarrow> entropy \<Rightarrow> 8 word list option \<times> entropy" where
  "read_bytes n e =
     (if \<exists>i < n. e i = None then (None, \<lambda>i. e (i + n))
      else (Some (map (\<lambda>i. word_of_nat (the (e i))) [0..<n]), \<lambda>i. e (i + n)))"

definition cryptoUUID :: "entropy \<Rightarrow> string option \<times> entropy" where
  "cryptoUUID e =
     (case read_bytes 16 e of
        (None, e') \<Rightarrow> (None, e')
      | (Some bytes, e') \<Rightarrow> (Some (uuid_of bytes), e'))"

fun base62_chars :: "nat \<Rightarrow> entropy \<Rightarrow> string option \<times> entropy" where
  "base62_chars 0 e = (Some [], e)"
| "base62_chars (Suc n) e =
     (case e 0 of
        None \<Rightarrow> (None, \<lambda>i. e (Suc i))
      | Some k \<Rightarrow>
         (case base62_chars n (\<lambda>i. e (Suc i)) of
            (None, e') \<Rightarrow> (None, e')
          | (Some s, e') \<Rightarrow> (Some (base62Alphabet ! (k mod 62) # s), e')))"

text \<open>\<open>strings.Builder.Grow\<close> panics on a negative length.\<close>

definition cryptoBase62 :: "int \<Rightarrow> entropy \<Rightarrow> (string option \<times> entropy) option" where
  "cryptoBase62 len e = (if len < 0 then None else Some (base62_chars (nat len) e))"

subsection \<open>Escaping\<close>

definition byte_of :: "char \<Rightarrow> nat" where
  "byte_of c = of_char c"

definition unreserved :: "char \<Rightarrow> bool" where
  "unreserved c \<longleftrightarrow>
     (let n = byte_of c in (97 \<le> n \<and> n \<le> 122) \<or> (65 \<le> n \<and> n \<le> 90) \<or> (48 \<le> n \<and> n \<le> 57)
        \<or> c \<in> set ''-_.~'')"

definition upper_hex_digit :: "nat \<Rightarrow> char" where
  "upper_hex_digit n = ''0123456789ABCDEF'' ! n"

text \<open>\<open>url.PathEscape\<close>: of the reserved characters a path segment keeps \<open>$&+:=@\<close>.\<close>

definition path_escape_char :: "char \<Rightarrow> string" where
  "path_escape_char c =
     (if unreserved c \<or> c \<in> set ''$&+:=@'' then [c]
      else [CHR ''%'', upper_hex_digit (byte_of c div 16), upper_hex_digit (byte_of c mod 16)])"

definition path_escape :: "string \<Rightarrow> string" where
  "path_escape s = concat (map path_escape_char s)"

text \<open>
  The length of the UTF-8 encoding of the rune a string begins with, \<open>0\<close> where it begins
  with none (\<open>utf8.DecodeRuneInString\<close> gives \<open>RuneError\<close> of width 1).
\<close>

definition cont :: "nat \<Rightarrow> bool" where "cont n \<longleftrightarrow> 128 \<le> n \<and> n \<le> 191"

definition rune_len :: "nat list \<Rightarrow> nat" where
  "rune_len bs =
     (case bs of
        [] \<Rightarrow> 0
      | a # r \<Rightarrow>
         if a < 128 then 1
         else if 194 \<le> a \<and> a \<le> 223 then
           (case r of b # _ \<Rightarrow> if cont b then 2 else 0 | _ \<Rightarrow> 0)
         else if 224 \<le> a \<and> a \<le> 239 then
           (case r of b # c # _ \<Rightarrow>
              if cont b \<and> cont c \<and> (a = 224 \<longrightarrow> 160 \<le> b) \<and> (a = 237 \<longrightarrow> b \<le> 159) then 3 else 0
            | _ \<Rightarrow> 0)
         else if 240 \<le> a \<and> a \<le> 244 then
           (case r of b # c # d # _ \<Rightarrow>
              if cont b \<and> cont c \<and> cont d \<and> (a = 240 \<longrightarrow> 144 \<le> b) \<and> (a = 244 \<longrightarrow> b \<le> 143)
              then 4 else 0
            | _ \<Rightarrow> 0)
         else 0)"

definition unicode_escape :: "nat \<Rightarrow> string" where
  "unicode_escape n =
     CHR 0x5C # ''u00'' @ [hex_digit (n div 16), hex_digit (n mod 16)]"

definition json_escape_ascii :: "char \<Rightarrow> string" where
  "json_escape_ascii c =
     (if c = CHR 0x22 \<or> c = CHR 0x5C then [CHR 0x5C, c]
      else if c = CHR 0x08 then CHR 0x5C # ''b''
      else if c = CHR 0x0C then CHR 0x5C # ''f''
      else if c = CHR 0x0A then CHR 0x5C # ''n''
      else if c = CHR 0x0D then CHR 0x5C # ''r''
      else if c = CHR 0x09 then CHR 0x5C # ''t''
      else if byte_of c < 32 \<or> c \<in> set ''<>&'' then unicode_escape (byte_of c)
      else [c])"

text \<open>
  The body of \<open>json.Marshal\<close> of a string, without its quotes: invalid bytes become
  \<open>\ufffd\<close>, and U+2028 and U+2029 are escaped.
\<close>

function json_escape :: "string \<Rightarrow> string" where
  "json_escape [] = []"
| "json_escape (c # s) =
     (if byte_of c < 128 then json_escape_ascii c @ json_escape s
      else
        (let n = rune_len (map byte_of (c # s)); rune = take n (c # s)
         in if n = 0 then CHR 0x5C # ''ufffd'' @ json_escape s
            else if map byte_of rune = [226, 128, 168] then CHR 0x5C # ''u2028'' @ json_escape (drop n (c # s))
            else if map byte_of rune = [226, 128, 169] then CHR 0x5C # ''u2029'' @ json_escape (drop n (c # s))
            else rune @ json_escape (drop n (c # s))))"
  by pat_completeness auto
termination by (relation "measure length") auto

definition renderPathTemplate :: "string \<Rightarrow> (string \<rightharpoonup> string) \<Rightarrow> string" where
  "renderPathTemplate template values = replaceTemplateVariables template values path_escape"

definition renderBodyTemplate :: "string \<Rightarrow> (string \<rightharpoonup> string) \<Rightarrow> string" where
  "renderBodyTemplate template values = replaceTemplateVariables template values json_escape"

subsection \<open>Capture\<close>

definition MaxCapturedValueBytes :: nat where "MaxCapturedValueBytes = 4096"

datatype json =
    JNull
  | JBool bool
  | JNumber string
  | JString string
  | JArray "json list"
  | JObject "(string \<times> json) list"

datatype capture_error =
    CaptureDecode
  | CaptureTrailing decode_error
  | PointerMissing
  | PointerIndex string
  | PointerScalar string
  | CaptureNotString
  | CaptureEmpty
  | CaptureTooLarge

text \<open>\<open>strings.ReplaceAll(s, string([]byte{a, b}), string(r))\<close> for \<open>a \<noteq> b\<close>.\<close>

fun replace_pair :: "char \<Rightarrow> char \<Rightarrow> char \<Rightarrow> string \<Rightarrow> string" where
  "replace_pair a b r (x # y # s) =
     (if x = a \<and> y = b then r # replace_pair a b r s else x # replace_pair a b r (y # s))"
| "replace_pair a b r s = s"

definition decode_token :: "string \<Rightarrow> string" where
  "decode_token t = replace_pair CHR ''~'' CHR ''0'' CHR ''~'' (replace_pair CHR ''~'' CHR ''1'' CHR ''/'' t)"

fun resolve_tokens :: "json \<Rightarrow> string list \<Rightarrow> capture_error + json" where
  "resolve_tokens current [] = Inr current"
| "resolve_tokens current (encoded # ts) =
     (let token = decode_token encoded
      in case current of
           JObject kvs \<Rightarrow>
             (case map_of kvs token of
                None \<Rightarrow> Inl PointerMissing
              | Some next \<Rightarrow> resolve_tokens next ts)
         | JArray xs \<Rightarrow>
             (case atoi token of
                None \<Rightarrow> Inl (PointerIndex token)
              | Some index \<Rightarrow>
                  if index < 0 \<or> int (length xs) \<le> index then Inl (PointerIndex token)
                  else resolve_tokens (xs ! nat index) ts)
         | _ \<Rightarrow> Inl (PointerScalar token))"

text \<open>The slice \<open>pointer[1:]\<close> panics on an empty pointer.\<close>

definition resolveJSONPointer :: "json \<Rightarrow> string \<Rightarrow> (capture_error + json) option" where
  "resolveJSONPointer document pointer =
     (case pointer of
        [] \<Rightarrow> None
      | _ # p \<Rightarrow> Some (resolve_tokens document (split_on CHR ''/'' p)))"

definition captureJSONString ::
  "json json_decoder \<Rightarrow> string \<Rightarrow> string \<Rightarrow> (capture_error + string) option" where
  "captureJSONString jd body pointer =
     (case jd_config jd body of
        None \<Rightarrow> Some (Inl CaptureDecode)
      | Some (document, rest) \<Rightarrow>
         (case ensureJSONEOF jd rest of
            Some e \<Rightarrow> Some (Inl (CaptureTrailing e))
          | None \<Rightarrow>
             (case resolveJSONPointer document pointer of
                None \<Rightarrow> None
              | Some (Inl e) \<Rightarrow> Some (Inl e)
              | Some (Inr (JString text)) \<Rightarrow>
                  Some (if text = '''' then Inl CaptureEmpty
                        else if MaxCapturedValueBytes < length text then Inl CaptureTooLarge
                        else Inr text)
              | Some (Inr _) \<Rightarrow> Some (Inl CaptureNotString))))"

subsection \<open>Escaped path segments\<close>

definition hex_val :: "char \<Rightarrow> nat option" where
  "hex_val c =
     (let n = byte_of c
      in if 48 \<le> n \<and> n \<le> 57 then Some (n - 48)
         else if 97 \<le> n \<and> n \<le> 102 then Some (n - 87)
         else if 65 \<le> n \<and> n \<le> 70 then Some (n - 55)
         else None)"

text \<open>Percent decoding, as the receiver of a path does it.\<close>

fun percent_decode :: "string \<Rightarrow> string option" where
  "percent_decode [] = Some []"
| "percent_decode (c # s) =
     (if c = CHR ''%'' then
        (case s of
           h # l # r \<Rightarrow>
             (case (hex_val h, hex_val l) of
                (Some a, Some b) \<Rightarrow> map_option ((#) (char_of (16 * a + b))) (percent_decode r)
              | _ \<Rightarrow> None)
         | _ \<Rightarrow> None)
      else map_option ((#) c) (percent_decode s))"

lemma nibble_cases:
  assumes "n < (16::nat)"
  shows "n \<in> {0, 1, 2, 3, 4, 5, 6, 7, 8, 9, 10, 11, 12, 13, 14, 15}"
  using assms by (simp only: insert_iff empty_iff) presburger

lemma hex_val_digits:
  assumes "n < 16"
  shows "hex_val (hex_digit n) = Some n" and "hex_val (upper_hex_digit n) = Some n"
  using nibble_cases [OF assms]
  by (auto simp: hex_val_def hex_digit_def upper_hex_digit_def byte_of_def Let_def)

lemma byte_of_bound: "byte_of c < 256"
  by (simp add: byte_of_def)

lemma byte_nibbles: "byte_of c div 16 < 16" "byte_of c mod 16 < 16"
  "16 * (byte_of c div 16) + byte_of c mod 16 = byte_of c"
  using byte_of_bound [of c] by (simp_all add: less_mult_imp_div_less)

lemma char_of_byte_of [simp]: "char_of (byte_of c) = c"
  by (simp add: byte_of_def)

lemma percent_decode_char:
  "percent_decode (path_escape_char c @ s) = map_option ((#) c) (percent_decode s)"
proof (cases "unreserved c \<or> c \<in> set ''$&+:=@''")
  case True
  then have "c \<noteq> CHR ''%''" by (auto simp: unreserved_def byte_of_def Let_def)
  with True show ?thesis by (simp add: path_escape_char_def)
next
  case False
  then show ?thesis
    unfolding path_escape_char_def using byte_nibbles [of c] by (simp add: hex_val_digits)
qed

lemma path_escape_decodes: "percent_decode (path_escape s) = Some s"
  by (induction s) (simp_all add: path_escape_def percent_decode_char)

lemma upper_hex_unreserved: "n < 16 \<Longrightarrow> unreserved (upper_hex_digit n)"
  using nibble_cases [of n] by (auto simp: unreserved_def upper_hex_digit_def byte_of_def Let_def)

lemma path_escape_chars:
  "c \<in> set (path_escape s) \<Longrightarrow> unreserved c \<or> c \<in> set ''$&+:=@%''"
  using byte_nibbles upper_hex_unreserved
  by (auto simp: path_escape_def path_escape_char_def split: if_splits)

lemma path_escape_no_slash: "CHR ''/'' \<notin> set (path_escape s)"
  using path_escape_chars [of "CHR ''/''" s] by (auto simp: unreserved_def byte_of_def Let_def)

lemma path_escape_empty: "path_escape s = '''' \<longleftrightarrow> s = ''''"
  by (cases s) (auto simp: path_escape_def path_escape_char_def)

subsection \<open>Escaped JSON strings\<close>

definition utf8_of :: "nat \<Rightarrow> string" where
  "utf8_of n =
     (if n < 128 then [char_of n]
      else if n < 2048 then [char_of (192 + n div 64), char_of (128 + n mod 64)]
      else [char_of (224 + n div 4096), char_of (128 + n div 64 mod 64), char_of (128 + n mod 64)])"

definition short_escape :: "char \<Rightarrow> char option" where
  "short_escape e =
     map_of [(CHR 0x22, CHR 0x22), (CHR 0x5C, CHR 0x5C), (CHR ''/'', CHR ''/''), (CHR ''b'', CHR 0x08),
       (CHR ''f'', CHR 0x0C), (CHR ''n'', CHR 0x0A), (CHR ''r'', CHR 0x0D), (CHR ''t'', CHR 0x09)] e"

text \<open>
  The value of a JSON string between its quotes (without surrogate pairs), \<open>None\<close> where
  the text is not the inside of one string: a quote or a control character in it, or a bad
  escape.
\<close>

fun json_unescape :: "string \<Rightarrow> string option" where
  "json_unescape [] = Some []"
| "json_unescape (c # s) =
     (if c = CHR 0x22 \<or> byte_of c < 32 then None
      else if c = CHR 0x5C then
        (case s of
           [] \<Rightarrow> None
         | e # s' \<Rightarrow>
            if e = CHR ''u'' then
              (case s' of
                 a # b # c # d # r \<Rightarrow>
                   (case (hex_val a, hex_val b, hex_val c, hex_val d) of
                      (Some i, Some j, Some k, Some l) \<Rightarrow>
                        map_option ((@) (utf8_of (4096 * i + 256 * j + 16 * k + l))) (json_unescape r)
                    | _ \<Rightarrow> None)
               | _ \<Rightarrow> None)
            else
              (case short_escape e of
                 None \<Rightarrow> None
               | Some x \<Rightarrow> map_option ((#) x) (json_unescape s')))
      else map_option ((#) c) (json_unescape s))"

text \<open>What Go takes a byte string to say: every byte outside a rune becomes U+FFFD.\<close>

function to_valid :: "string \<Rightarrow> string" where
  "to_valid [] = []"
| "to_valid (c # s) =
     (let n = rune_len (map byte_of (c # s))
      in if n = 0 then map char_of [239, 191, 189 :: nat] @ to_valid s
         else take n (c # s) @ to_valid (drop n (c # s)))"
  by pat_completeness auto
termination by (relation "measure length") auto

lemma unescape_u:
  assumes "a < 16" "b < 16" "c < 16" "d < 16"
  shows "json_unescape (CHR 0x5C # CHR ''u'' # hex_digit a # hex_digit b # hex_digit c # hex_digit d # s)
    = map_option ((@) (utf8_of (4096 * a + 256 * b + 16 * c + d))) (json_unescape s)"
  using assms by (simp add: hex_val_digits byte_of_def)

lemma digit_0_hex: "CHR ''0'' = hex_digit 0"
  by (simp add: hex_digit_def)

lemma unescape_ascii:
  assumes "byte_of c < 128"
  shows "json_unescape (json_escape_ascii c @ s) = map_option ((#) c) (json_unescape s)"
proof (cases "c \<in> set [CHR 0x22, CHR 0x5C, CHR 0x08, CHR 0x0C, CHR 0x0A, CHR 0x0D, CHR 0x09]")
  case True
  then show ?thesis by (auto simp: json_escape_ascii_def short_escape_def byte_of_def)
next
  case False
  show ?thesis
  proof (cases "byte_of c < 32 \<or> c \<in> set ''<>&''")
    case True
    have "json_escape_ascii c = CHR 0x5C # CHR ''u'' # hex_digit 0 # hex_digit 0
        # hex_digit (byte_of c div 16) # [hex_digit (byte_of c mod 16)]"
      using True False by (auto simp: json_escape_ascii_def unicode_escape_def digit_0_hex)
    moreover have "utf8_of (4096 * 0 + 256 * 0 + 16 * (byte_of c div 16) + byte_of c mod 16) = [c]"
      using byte_nibbles [of c] assms by (simp add: utf8_of_def)
    moreover have "(@) [c] = (#) c" by (rule ext) simp
    ultimately show ?thesis
      using unescape_u [of 0 0 "byte_of c div 16" "byte_of c mod 16" s] byte_nibbles [of c]
      by (simp del: json_unescape.simps)
  next
    case not_special: False
    then show ?thesis using False by (auto simp: json_escape_ascii_def)
  qed
qed

lemma unescape_high:
  "(\<And>c. c \<in> set r \<Longrightarrow> 128 \<le> byte_of c) \<Longrightarrow>
    json_unescape (r @ s) = map_option ((@) r) (json_unescape s)"
proof (induction r)
  case Nil
  then show ?case by (simp add: option.map_ident)
next
  case (Cons a r)
  have "128 \<le> byte_of a" using Cons.prems by simp
  then have "a \<noteq> CHR 0x22" "a \<noteq> CHR 0x5C" "\<not> byte_of a < 32" by (auto simp: byte_of_def)
  then show ?case using Cons by (simp add: option.map_comp o_def)
qed

lemma rune_bytes:
  assumes "rune_len (a # r) = n" and "128 \<le> a"
  shows "list_all (\<lambda>b. 128 \<le> b) (take n (a # r))"
  using assms by (auto simp: rune_len_def cont_def split: if_splits list.splits)

lemma rune_ascii: "a < 128 \<Longrightarrow> rune_len (a # r) = 1"
  by (simp add: rune_len_def)

lemma json_escape_rune:
  assumes "128 \<le> byte_of c" and "rune_len (map byte_of (c # s)) = n" and "n \<noteq> 0"
  shows "json_unescape (json_escape (c # s))
    = map_option ((@) (take n (c # s))) (json_unescape (json_escape (drop n (c # s))))"
proof -
  define rune where "rune = take n (c # s)"
  define rest where "rest = json_escape (drop n (c # s))"
  have eq: "json_escape (c # s) =
      (if map byte_of rune = [226, 128, 168] then CHR 0x5C # ''u2028'' @ rest
       else if map byte_of rune = [226, 128, 169] then CHR 0x5C # ''u2029'' @ rest
       else rune @ rest)"
    using assms by (simp add: rune_def rest_def Let_def)
  have "map byte_of rune = take n (byte_of c # map byte_of s)"
    using take_map [of n byte_of "c # s"] by (simp add: rune_def)
  then have "list_all (\<lambda>b. 128 \<le> b) (map byte_of rune)"
    using rune_bytes [of "byte_of c" "map byte_of s" n] assms(1,2) by simp
  then have high: "128 \<le> byte_of x" if "x \<in> set rune" for x using that by (simp add: list_all_iff)
  have bytes: "rune = map char_of bs" if "map byte_of rune = bs" for bs
    using that by (auto simp: o_def)
  have u: "CHR 0x5C # ''u2028'' @ rest = CHR 0x5C # CHR ''u'' # hex_digit 2 # hex_digit 0 # hex_digit 2 # hex_digit 8 # rest"
    "CHR 0x5C # ''u2029'' @ rest = CHR 0x5C # CHR ''u'' # hex_digit 2 # hex_digit 0 # hex_digit 2 # hex_digit 9 # rest"
    by (simp_all add: hex_digit_def)
  have v: "utf8_of 8232 = map char_of [226, 128, 168 :: nat]" "utf8_of 8233 = map char_of [226, 128, 169 :: nat]"
    by (simp_all add: utf8_of_def)
  consider "map byte_of rune = [226, 128, 168]" | "map byte_of rune = [226, 128, 169]"
    | "map byte_of rune \<noteq> [226, 128, 168]" "map byte_of rune \<noteq> [226, 128, 169]" by blast
  then have "json_unescape (json_escape (c # s)) = map_option ((@) rune) (json_unescape rest)"
  proof cases
    case 1
    then show ?thesis using bytes [OF 1] unescape_u [of 2 0 2 8 rest] unfolding eq u
      by (simp add: v del: json_unescape.simps)
  next
    case 2
    then show ?thesis using bytes [OF 2] unescape_u [of 2 0 2 9 rest] unfolding eq u
      by (simp add: v del: json_unescape.simps)
  next
    case 3
    then show ?thesis unfolding eq using unescape_high [of rune rest] high
      by (simp del: json_unescape.simps)
  qed
  then show ?thesis by (simp only: rune_def rest_def)
qed

lemma json_escape_decodes: "json_unescape (json_escape s) = Some (to_valid s)"
proof (induction s rule: to_valid.induct)
  case 1
  then show ?case by simp
next
  case (2 c s)
  define n where "n = rune_len (map byte_of (c # s))"
  show ?case
  proof (cases "byte_of c < 128")
    case True
    then have "n = 1" by (simp add: n_def rune_ascii)
    moreover from this have "to_valid (c # s) = c # to_valid s" using n_def by simp
    ultimately show ?thesis using "2.IH"(2) [OF n_def] True
      by (simp add: unescape_ascii del: json_unescape.simps to_valid.simps)
  next
    case high: False
    show ?thesis
    proof (cases "n = 0")
      case True
      have u: "CHR 0x5C # ''ufffd'' @ t = CHR 0x5C # CHR ''u'' # hex_digit 15 # hex_digit 15 # hex_digit 15 # hex_digit 13 # t" for t
        by (simp add: hex_digit_def)
      have "utf8_of 65533 = map char_of [239, 191, 189 :: nat]" by (simp add: utf8_of_def)
      then have "json_unescape (CHR 0x5C # ''ufffd'' @ t) = map_option ((@) (map char_of [239, 191, 189 :: nat])) (json_unescape t)" for t
        using unescape_u [of 15 15 15 13 t] unfolding u by (simp del: json_unescape.simps)
      then have "json_unescape (json_escape (c # s)) = Some (map char_of [239, 191, 189 :: nat] @ to_valid s)"
        using "2.IH"(1) [OF n_def True] high True by (simp add: n_def Let_def del: json_unescape.simps)
      then show ?thesis using True by (simp add: n_def Let_def)
    next
      case False
      have "json_unescape (json_escape (c # s)) = map_option ((@) (take n (c # s))) (json_unescape (json_escape (drop n (c # s))))"
        using high False by (intro json_escape_rune) (simp_all add: n_def)
      also have "\<dots> = Some (take n (c # s) @ to_valid (drop n (c # s)))"
        using "2.IH"(2) [OF n_def False] by simp
      finally show ?thesis using False by (simp add: n_def Let_def del: json_escape.simps)
    qed
  qed
qed

subsection \<open>JSON pointers\<close>

text \<open>The encoding of a reference token in RFC 6901.\<close>

fun encode_token :: "string \<Rightarrow> string" where
  "encode_token [] = []"
| "encode_token (c # s) =
     (if c = CHR ''~'' then CHR ''~'' # CHR ''0'' # encode_token s
      else if c = CHR ''/'' then CHR ''~'' # CHR ''1'' # encode_token s
      else c # encode_token s)"

text \<open>The tilde escapes alone, which is what remains after the first replacement.\<close>

fun encode_tilde :: "string \<Rightarrow> string" where
  "encode_tilde [] = []"
| "encode_tilde (c # s) =
     (if c = CHR ''~'' then CHR ''~'' # CHR ''0'' # encode_tilde s else c # encode_tilde s)"

lemma replace_pair_other: "x \<noteq> a \<Longrightarrow> replace_pair a b r (x # s) = x # replace_pair a b r s"
  by (cases s) simp_all

lemma decode_slashes: "replace_pair CHR ''~'' CHR ''1'' CHR ''/'' (encode_token t) = encode_tilde t"
  by (induction t) (simp_all add: replace_pair_other)

lemma decode_tildes: "replace_pair CHR ''~'' CHR ''0'' CHR ''~'' (encode_tilde t) = t"
  by (induction t) (simp_all add: replace_pair_other)

lemma decode_encode_token: "decode_token (encode_token t) = t"
  by (simp add: decode_token_def decode_slashes decode_tildes)

lemma encode_token_no_slash: "CHR ''/'' \<notin> set (encode_token t)"
  by (induction t) auto

lemma pointer_escapes_encode: "pointer_escapes_ok (encode_token t @ s) = pointer_escapes_ok s"
  by (induction t) auto

definition pointer_of :: "string list \<Rightarrow> string" where
  "pointer_of ts = concat (map (\<lambda>t. CHR ''/'' # encode_token t) ts)"

lemma pointer_of_ok: "ts \<noteq> [] \<Longrightarrow> validateJSONPointer (pointer_of ts) = None"
proof -
  assume ne: "ts \<noteq> []"
  have "pointer_escapes_ok (pointer_of ts)"
    unfolding pointer_of_def by (induction ts) (simp_all add: pointer_escapes_encode)
  moreover have "has_prefix (pointer_of ts) ''/''"
    using ne by (cases ts) (simp_all add: pointer_of_def has_prefix_def)
  ultimately show ?thesis by (simp add: validateJSONPointer_def)
qed

lemma pointer_of_split:
  "split_on CHR ''/'' (tl (pointer_of (t # ts))) = map encode_token (t # ts)"
proof (induction ts arbitrary: t)
  case Nil
  then show ?case by (simp add: pointer_of_def split_on_no_sep encode_token_no_slash)
next
  case (Cons u ts)
  have "split_on CHR ''/'' (encode_token t @ CHR ''/'' # tl (pointer_of (u # ts)))
      = encode_token t # map encode_token (u # ts)"
    by (simp add: split_on_append_sep encode_token_no_slash Cons.IH)
  then show ?case by (simp add: pointer_of_def)
qed

text \<open>
  RFC 6901 evaluation. An array index is \<open>0\<close> or digits without a leading zero.
\<close>

definition array_index :: "string \<Rightarrow> nat option" where
  "array_index t = (case atoi t of None \<Rightarrow> None
     | Some n \<Rightarrow> if 0 \<le> n \<and> t = itoa n then Some (nat n) else None)"

fun json_at :: "json \<Rightarrow> string list \<Rightarrow> json option" where
  "json_at j [] = Some j"
| "json_at (JObject kvs) (t # ts) = Option.bind (map_of kvs t) (\<lambda>j. json_at j ts)"
| "json_at (JArray xs) (t # ts) =
     (case array_index t of
        None \<Rightarrow> None
      | Some i \<Rightarrow> if i < length xs then json_at (xs ! i) ts else None)"
| "json_at _ (t # ts) = None"

lemma resolve_complete:
  "json_at j ts = Some x \<Longrightarrow> resolve_tokens j (map encode_token ts) = Inr x"
proof (induction j ts rule: json_at.induct)
  case (3 xs t ts)
  then obtain i where i: "array_index t = Some i" "i < length xs" "json_at (xs ! i) ts = Some x"
    by (auto split: option.splits if_splits)
  then have "atoi t = Some (int i)" by (auto simp: array_index_def split: option.splits if_splits)
  then show ?case using 3(1) [OF i(1,2,3)] i(2) by (simp add: decode_encode_token)
qed (auto simp: decode_encode_token bind_eq_Some_conv)

lemma resolve_objects_sound:
  "resolve_tokens j (map encode_token ts) = Inr x \<Longrightarrow>
    list_all (\<lambda>t. atoi t \<noteq> None \<longrightarrow> array_index t \<noteq> None) ts \<Longrightarrow> json_at j ts = Some x"
proof (induction j ts rule: json_at.induct)
  case (2 kvs t ts)
  then show ?case by (auto simp: decode_encode_token split: option.splits)
next
  case (3 xs t ts)
  then obtain n where n: "atoi t = Some n" "0 \<le> n" "n < int (length xs)"
    "resolve_tokens (xs ! nat n) (map encode_token ts) = Inr x"
    by (auto simp: decode_encode_token split: option.splits if_splits)
  moreover have "array_index t = Some (nat n)"
    using 3(3) n by (auto simp: array_index_def split: if_splits)
  ultimately show ?case using 3(1) [of "nat n"] 3(3) by simp
qed (simp_all add: decode_encode_token)

subsection \<open>Generated values\<close>

lemma hex_byte_length: "length (hex bs) = 2 * length bs"
  by (induction bs) (simp_all add: hex_def hex_byte_def)

lemma uuid_length: "length bs = 16 \<Longrightarrow> length (uuid_of bs) = 36"
  by (simp add: uuid_of_def Let_def hex_byte_length)

lemma base62_chars_some:
  "base62_chars n e = (Some s, e') \<Longrightarrow> length s = n \<and> set s \<subseteq> set base62Alphabet"
proof (induction n arbitrary: e s)
  case 0
  then show ?case by simp
next
  case (Suc n)
  then obtain k s1 where "e 0 = Some k" "base62_chars n (\<lambda>i. e (Suc i)) = (Some s1, e')"
    "s = base62Alphabet ! (k mod 62) # s1"
    by (auto split: option.splits prod.splits)
  moreover have "base62Alphabet ! (k mod 62) \<in> set base62Alphabet"
    by (rule nth_mem) (simp add: base62Alphabet_def)
  ultimately show ?case using Suc.IH by auto
qed

text \<open>What the executor relies on of a generator.\<close>

locale value_generator =
  fixes uuid :: "'g \<Rightarrow> string option \<times> 'g" and base62 :: "int \<Rightarrow> 'g \<Rightarrow> (string option \<times> 'g) option"
  assumes uuid_nonempty: "uuid g = (Some x, g') \<Longrightarrow> x \<noteq> ''''"
    and base62_total: "0 \<le> n \<Longrightarrow> base62 n g \<noteq> None"
    and base62_length: "base62 n g = Some (Some x, g') \<Longrightarrow> int (length x) = n"

interpretation crypto: value_generator cryptoUUID cryptoBase62
proof
  fix e e' :: entropy and x
  assume "cryptoUUID e = (Some x, e')"
  then obtain bs where "x = uuid_of bs" by (auto simp: cryptoUUID_def split: prod.splits option.splits)
  then show "x \<noteq> ''''" by (simp add: uuid_of_def Let_def)
next
  fix n :: int and e :: entropy
  assume "0 \<le> n"
  then show "cryptoBase62 n e \<noteq> None" by (simp add: cryptoBase62_def)
next
  fix n :: int and x and e e' :: entropy
  assume "cryptoBase62 n e = Some (Some x, e')"
  then show "int (length x) = n"
    using base62_chars_some [of "nat n" e x e'] by (auto simp: cryptoBase62_def split: if_splits)
qed

subsection \<open>Properties\<close>

lemma hex_digit_set: "n < 16 \<Longrightarrow> hex_digit n \<in> set ''0123456789abcdef''"
  unfolding hex_digit_def by (rule nth_mem) simp

lemma unat_byte: "unat (b :: 8 word) < 256"
  using unsigned_less [of b, where 'a = nat] by simp

lemma unat_byte_div: "unat (b :: 8 word) div 16 < 16" "unat b mod 16 < 16"
  using unat_byte [of b] by (simp_all add: less_mult_imp_div_less)

text \<open>Clearing the high bits of a byte and setting one of them.\<close>

lemma unat_low_nibble: "unat ((b :: 8 word) AND 0x0f) = unat b mod 16"
proof -
  have "unat b AND 15 = take_bit 4 (unat b)" by (simp add: take_bit_eq_mask mask_eq_exp_minus_1)
  then show ?thesis by (simp add: unsigned_and_eq take_bit_eq_mod)
qed

lemma unat_low_six: "unat ((b :: 8 word) AND 0x3f) = unat b mod 64"
proof -
  have "unat b AND 63 = take_bit 6 (unat b)" by (simp add: take_bit_eq_mask mask_eq_exp_minus_1)
  then show ?thesis by (simp add: unsigned_and_eq take_bit_eq_mod)
qed

lemma unat_plus_bounded: "unat (x :: 8 word) + unat y < 256 \<Longrightarrow> unat (x + y) = unat x + unat y"
  by (simp add: unat_word_ariths)

lemma version_nibble: "unat (((b :: 8 word) AND 0x0f) OR 0x40) div 16 = 4"
proof -
  have "(b AND 0x0f) AND 0x40 = 0" by (simp add: and.assoc)
  then have "(b AND 0x0f) OR 0x40 = (b AND 0x0f) + 0x40" by (simp add: disjunctive_add_eq_or [symmetric])
  moreover have "unat ((b AND 0x0f) + 0x40) = unat b mod 16 + 64"
    by (subst unat_plus_bounded) (simp_all add: unat_low_nibble)
  ultimately show ?thesis by simp
qed

lemma variant_nibble: "unat (((b :: 8 word) AND 0x3f) OR 0x80) div 16 \<in> {8, 9, 10, 11}"
proof -
  have "(b AND 0x3f) AND 0x80 = 0" by (simp add: and.assoc)
  then have "(b AND 0x3f) OR 0x80 = (b AND 0x3f) + 0x80" by (simp add: disjunctive_add_eq_or [symmetric])
  moreover have "unat ((b AND 0x3f) + 0x80) = unat b mod 64 + 8 * 16"
    by (subst unat_plus_bounded) (simp_all add: unat_low_six)
  ultimately have "unat (((b :: 8 word) AND 0x3f) OR 0x80) div 16 = unat b mod 64 div 16 + 8"
    by (simp only: div_mult_self3)
  moreover have "unat b mod 64 div 16 < 4" by (rule less_mult_imp_div_less) simp
  ultimately show ?thesis by auto
qed

text \<open>A string of the shape of a version 4 UUID.\<close>

definition hex_text :: "nat \<Rightarrow> string \<Rightarrow> bool" where
  "hex_text n s \<longleftrightarrow> length s = n \<and> set s \<subseteq> set ''0123456789abcdef''"

definition uuid_v4 :: "string \<Rightarrow> bool" where
  "uuid_v4 s \<longleftrightarrow> (\<exists>a b c d e. s = a @ ''-'' @ b @ ''-'' @ c @ ''-'' @ d @ ''-'' @ e
     \<and> hex_text 8 a \<and> hex_text 4 b \<and> hex_text 4 c \<and> hex_text 4 d \<and> hex_text 12 e
     \<and> hd c = CHR ''4'' \<and> hd d \<in> set ''89ab'')"

lemma hex_hex_text: "hex_text (2 * length bs) (hex bs)"
proof (induction bs)
  case Nil
  then show ?case by (simp add: hex_text_def hex_def)
next
  case (Cons b bs)
  have "set (hex_byte b) \<subseteq> set ''0123456789abcdef''"
    unfolding hex_byte_def using hex_digit_set [OF unat_byte_div(1)] hex_digit_set [OF unat_byte_div(2)]
    by (simp only: list.set insert_subset empty_subsetI simp_thms)
  then show ?case using Cons by (simp add: hex_text_def hex_def hex_byte_def)
qed

lemma hd_hex: "hd (hex (b # bs)) = hex_digit (unat b div 16)"
  by (simp add: hex_def hex_byte_def)

lemma uuid_of_v4:
  assumes "length bs = 16"
  shows "uuid_v4 (uuid_of bs)"
proof -
  define d where "d = (bs[6 := (bs ! 6 AND 0x0f) OR 0x40])[8 := (bs ! 8 AND 0x3f) OR 0x80]"
  have u: "uuid_of bs = hex (take 4 d) @ ''-'' @ hex (take 2 (drop 4 d)) @ ''-'' @ hex (take 2 (drop 6 d))
      @ ''-'' @ hex (take 2 (drop 8 d)) @ ''-'' @ hex (take 6 (drop 10 d))"
    by (simp add: uuid_of_def Let_def d_def)
  have l: "length d = 16" using assms by (simp add: d_def)
  have "take 2 (drop 6 d) = d ! 6 # take 1 (drop 7 d)" "take 2 (drop 8 d) = d ! 8 # take 1 (drop 9 d)"
    using l Cons_nth_drop_Suc [of 6 d] Cons_nth_drop_Suc [of 8 d] by (simp_all add: take_Cons' flip: Cons_nth_drop_Suc)
  then have "hd (hex (take 2 (drop 6 d))) = CHR ''4''" "hd (hex (take 2 (drop 8 d))) \<in> set ''89ab''"
    using assms version_nibble [of "bs ! 6"] variant_nibble [of "bs ! 8"]
    by (auto simp: hd_hex d_def hex_digit_def)
  then show ?thesis unfolding uuid_v4_def u
    using hex_hex_text [of "take 4 d"] hex_hex_text [of "take 2 (drop 4 d)"] hex_hex_text [of "take 2 (drop 6 d)"]
      hex_hex_text [of "take 2 (drop 8 d)"] hex_hex_text [of "take 6 (drop 10 d)"] l
    by (intro exI conjI) (rule refl | simp)+
qed

lemma replace_markers_chars:
  "set (replace_markers f t) \<subseteq> set t \<union> (\<Union>n \<in> set (markers t). set (f n))"
proof (induction f t rule: replace_markers.induct)
  case (1 f)
  then show ?case by simp
next
  case (2 f c s)
  show ?case
  proof (cases "match_marker (c # s)")
    case None
    then show ?thesis using 2(1) by auto
  next
    case (Some m)
    obtain inner rest where m: "m = (inner, rest)" by (cases m)
    then have "c # s = ''{{'' @ inner @ ''}}'' @ rest" using Some by (simp add: match_marker_Some)
    then have "set rest \<subseteq> set (c # s)" by auto
    then show ?thesis using 2(2) [OF Some m [symmetric]] Some m by auto
  qed
qed

lemma match_marker_not_brace: "c \<noteq> CHR ''{'' \<Longrightarrow> match_marker (c # s) = None"
  by (simp add: match_marker_def has_prefix_def)

lemma render_path_slash:
  assumes "has_prefix template ''/''" and "\<not> has_prefix template ''//''"
    and "\<And>n. n \<in> set (template_names template) \<Longrightarrow> \<exists>v. values n = Some v \<and> v \<noteq> ''''"
  shows "has_prefix (renderPathTemplate template values) ''/''
    \<and> \<not> has_prefix (renderPathTemplate template values) ''//''"
proof -
  let ?f = "\<lambda>inner. path_escape (case values (trim_space inner) of None \<Rightarrow> '''' | Some v \<Rightarrow> v)"
  obtain t where t: "template = CHR ''/'' # t" using assms(1) by (auto simp: has_prefix_iff)
  have r: "renderPathTemplate template values = CHR ''/'' # replace_markers ?f t"
    by (simp add: renderPathTemplate_def replaceTemplateVariables_def t match_marker_not_brace)
  have "\<not> has_prefix (replace_markers ?f t) ''/''"
  proof (cases t)
    case Nil
    then show ?thesis by (simp add: has_prefix_def)
  next
    case (Cons c s)
    then have c: "c \<noteq> CHR ''/''" using assms(2) t by (auto simp: has_prefix_def)
    show ?thesis
    proof (cases "match_marker t")
      case None
      then show ?thesis using Cons c by (simp add: has_prefix_def)
    next
      case (Some m)
      obtain inner rest where m: "m = (inner, rest)" by (cases m)
      have "trim_space inner \<in> set (template_names template)"
        using Some m Cons by (simp add: template_names_def t match_marker_not_brace)
      then obtain x where x: "values (trim_space inner) = Some x" "x \<noteq> ''''" using assms(3) by blast
      have e: "replace_markers ?f t = path_escape x @ replace_markers ?f rest"
        using Some m Cons x by simp
      obtain a as where p: "path_escape x = a # as" using path_escape_empty [of x] x(2) by (cases "path_escape x") auto
      then have "a \<noteq> CHR ''/''" using path_escape_no_slash [of x] by auto
      then show ?thesis unfolding e p by (simp add: has_prefix_def)
    qed
  qed
  then show ?thesis by (simp add: r has_prefix_def)
qed


text \<open>C32. A value cannot break out of a JSON string in a body template: whatever its bytes, the
  escaped text is the inside of one JSON string, and that string's value is the value, with
  bytes that are not UTF-8 replaced by U+FFFD.\<close>

theorem json_escape_safe:
  "json_unescape (json_escape s) = Some (to_valid s)"
  by (rule json_escape_decodes)

text \<open>C33. Every value RFC 6901 finds is found: the pointer built from any reference tokens passes
  the validation and resolves to the value the tokens lead to, whatever tildes and slashes
  they contain.\<close>

theorem pointer_roundtrip:
  assumes "json_at document tokens = Some x" and "tokens \<noteq> []"
  shows "validateJSONPointer (pointer_of tokens) = None
    \<and> resolveJSONPointer document (pointer_of tokens) = Some (Inr x)"
proof -
  obtain t ts where ts: "tokens = t # ts" using assms(2) by (cases tokens) auto
  have "resolveJSONPointer document (pointer_of tokens)
      = Some (resolve_tokens document (split_on CHR ''/'' (tl (pointer_of tokens))))"
    by (simp add: resolveJSONPointer_def ts pointer_of_def)
  then show ?thesis
    using pointer_of_ok [OF assms(2)] resolve_complete [OF assms(1)] pointer_of_split [of t ts]
    by (simp add: ts)
qed

theorem pointer_roundtrip_witness:
  "resolveJSONPointer (JObject [(''a/b'', JArray [JString ''x'', JString ''y''])]) ''/a~1b/1''
    = Some (Inr (JString ''y''))"
proof -
  have "itoa 1 = ''1''" by (simp add: itoa_def nat_str.simps digit_char_def char_of_def bit_0)
  then have "array_index ''1'' = Some 1"
    using atoi_itoa [of 1] by (simp add: array_index_def in_int64_def)
  then have "json_at (JObject [(''a/b'', JArray [JString ''x'', JString ''y''])]) [''a/b'', ''1'']
      = Some (JString ''y'')" by simp
  from pointer_roundtrip [OF this] show ?thesis by (simp add: pointer_of_def)
qed

text \<open>The code accepts more array indices than RFC 6901, which the comment on
  \<open>CaptureConfig.JSONPointer\<close> names: a sign is not refused.\<close>

theorem pointer_index_lenient:
  "resolveJSONPointer (JArray [JString ''x'', JString ''y'']) ''/+1'' = Some (Inr (JString ''y''))
   \<and> json_at (JArray [JString ''x'', JString ''y'']) [''+1''] = None"
proof -
  have i: "itoa 1 = ''1''" by (simp add: itoa_def nat_str.simps digit_char_def char_of_def bit_0)
  have "atoi ''+1'' = Some 1" by (simp add: atoi_def parse_nat_def digit_of_def in_int64_def)
  then show ?thesis
    by (simp add: resolveJSONPointer_def decode_token_def array_index_def i)
qed

text \<open>Generated values: sixteen random bytes become a version 4 UUID of the RFC 4122 variant,
  and a Base62 value has the requested length and only characters of its alphabet.\<close>

theorem generated_values_shape:
  "(\<forall>x e'. cryptoUUID e = (Some x, e') \<longrightarrow> uuid_v4 x)
   \<and> (\<forall>n x e'. cryptoBase62 n e = Some (Some x, e') \<longrightarrow>
        int (length x) = n \<and> set x \<subseteq> set base62Alphabet)
   \<and> (\<forall>n. 1 \<le> n \<longrightarrow> cryptoBase62 n e \<noteq> None)"
proof (intro conjI allI impI)
  fix x e' assume "cryptoUUID e = (Some x, e')"
  then obtain bs where "x = uuid_of bs" "length bs = 16"
    by (auto simp: cryptoUUID_def read_bytes_def split: if_splits)
  then show "uuid_v4 x" by (simp add: uuid_of_v4)
next
  fix n x e' assume "cryptoBase62 n e = Some (Some x, e')"
  then show "int (length x) = n" "set x \<subseteq> set base62Alphabet"
    using base62_chars_some [of "nat n" e x e'] by (auto simp: cryptoBase62_def split: if_splits)
qed (simp add: cryptoBase62_def)

theorem generated_values_shape_witness:
  "uuid_v4 (uuid_of (replicate 16 7)) \<and> cryptoBase62 3 (\<lambda>i. Some 61) \<noteq> None"
proof -
  have "cryptoUUID (\<lambda>_. Some 7) = (Some (uuid_of (replicate 16 7)), \<lambda>_. Some 7)"
    by (simp add: cryptoUUID_def read_bytes_def map_replicate_const)
  then show ?thesis
    using generated_values_shape [of "\<lambda>_. Some 7"] by (simp add: cryptoBase62_def)
qed

end
