(* ===== verification/Executor.thy ===== *)
theory Executor
  imports Templates Value_Store
begin

section \<open>Executing one operation\<close>

text \<open>
  \<open>executor.go\<close> with its helpers in \<open>executor_variables.go\<close>, \<open>executor_headers.go\<close> and
  \<open>executor_http.go\<close>. What the code calls (the value store, the value generator, the HTTP
  client, the file system and the libraries) is the record \<open>exec_ops\<close>; its state is
  threaded through \<open>exec_state\<close>. The tape \<open>ex_env\<close> holds, for each store call, the context's
  state and the time. \<open>None\<close> is a panic.
\<close>

definition DefaultRequestTimeout :: int where "DefaultRequestTimeout = 10 * 1000000000"

record http_client =
  hc_timeout :: int
  hc_follows_redirects :: bool

definition cloneHTTPClient :: "http_client \<Rightarrow> http_client" where
  "cloneHTTPClient source =
     (let clone = (if hc_timeout source = 0 then source\<lparr>hc_timeout := DefaultRequestTimeout\<rparr> else source)
      in clone\<lparr>hc_follows_redirects := False\<rparr>)"

record http_request =
  hr_method :: string
  hr_url :: string
  hr_headers :: "string \<rightharpoonup> string"
  hr_body :: string

text \<open>A response: its status, the bytes its body delivers, whether reading fails after them.\<close>

record http_response =
  hp_status :: int
  hp_body :: string
  hp_body_fails :: bool

record ('s, 'g, 'w) exec_ops =
  eo_lib :: go_lib
  eo_json :: "json json_decoder"
  eo_stores :: "('s store_put \<times> 's store_random) option"
  eo_uuid :: "'g \<Rightarrow> string option \<times> 'g"
  eo_base62 :: "int \<Rightarrow> 'g \<Rightarrow> (string option \<times> 'g) option"
  eo_new_request :: "string \<Rightarrow> string \<Rightarrow> bool"
  eo_do :: "http_request \<Rightarrow> 'w \<Rightarrow> http_response option \<times> 'w"
  eo_read_file :: "string \<Rightarrow> 'w \<Rightarrow> string option"

record ('s, 'g, 'w) exec_state =
  ex_store :: 's
  ex_gen :: 'g
  ex_world :: 'w
  ex_rng :: rng
  ex_env :: "nat \<Rightarrow> ctx \<times> int"

datatype resolve_error =
    StoreNotConfigured string
  | StoreEmpty string
  | StoreReadFailed string store_error
  | SourceUnsupported string
  | GenerateFailed string

datatype secret_error =
    SecretUnreadable
  | SecretTooLarge
  | SecretEmpty
  | SecretLineBreak

datatype exec_error =
    ResolveVariables resolve_error
  | BodyExceedsLimit
  | URLInvalid
  | OriginOverride
  | RequestInvalid
  | SecretHeader string nat secret_error
  | RequestFailed
  | ResponseUnreadable
  | ResponseTooLarge
  | UnexpectedStatus int
  | NoValueStore
  | CaptureFailed capture_error
  | CaptureNotStored store_error

text \<open>\<open>errors.Is(err, ErrStoreValueUnavailable)\<close>\<close>

definition store_value_unavailable :: "exec_error option \<Rightarrow> bool" where
  "store_value_unavailable e =
     (case e of Some (ResolveVariables (StoreNotConfigured _)) \<Rightarrow> True
      | Some (ResolveVariables (StoreEmpty _)) \<Rightarrow> True
      | _ \<Rightarrow> False)"

record execution_result =
  er_operation :: string
  er_status :: int
  er_response_bytes :: int
  er_captured :: bool

subsection \<open>Variables\<close>

text \<open>One iteration of the loop: the value, or the error that ends it.\<close>

definition resolve_one ::
  "('s, 'g, 'w) exec_ops \<Rightarrow> variable_config \<Rightarrow> ('s, 'g, 'w) exec_state
    \<Rightarrow> ((resolve_error + string) \<times> ('s, 'g, 'w) exec_state) option" where
  "resolve_one ops var s =
     (let src = vc_source var
      in if vs_type src = ''randomUUID'' then
           (case eo_uuid ops (ex_gen s) of
              (None, g) \<Rightarrow> Some (Inl (GenerateFailed (vc_name var)), s\<lparr>ex_gen := g\<rparr>)
            | (Some x, g) \<Rightarrow> Some (Inr x, s\<lparr>ex_gen := g\<rparr>))
         else if vs_type src = ''randomBase62'' then
           (case eo_base62 ops (vs_length src) (ex_gen s) of
              None \<Rightarrow> None
            | Some (None, g) \<Rightarrow> Some (Inl (GenerateFailed (vc_name var)), s\<lparr>ex_gen := g\<rparr>)
            | Some (Some x, g) \<Rightarrow> Some (Inr x, s\<lparr>ex_gen := g\<rparr>))
         else if vs_type src = ''store'' then
           (case eo_stores ops of
              None \<Rightarrow> Some (Inl (StoreNotConfigured (vs_store src)), s)
            | Some (_, random) \<Rightarrow>
               (case random (fst (ex_env s 0)) (snd (ex_env s 0)) (vs_store src) (ex_rng s) (ex_store s) of
                  None \<Rightarrow> None
                | Some ((x, ok, err), r, st) \<Rightarrow>
                    (let s' = s\<lparr>ex_store := st, ex_rng := r, ex_env := (\<lambda>i. ex_env s (Suc i))\<rparr>
                     in case err of
                          Some e \<Rightarrow> Some (Inl (StoreReadFailed (vs_store src) e), s')
                        | None \<Rightarrow>
                           if \<not> ok then Some (Inl (StoreEmpty (vs_store src)), s')
                           else Some (Inr x, s'))))
         else Some (Inl (SourceUnsupported (vs_type src)), s))"

fun resolve_from ::
  "('s, 'g, 'w) exec_ops \<Rightarrow> (string \<rightharpoonup> string) \<Rightarrow> variable_config list \<Rightarrow> ('s, 'g, 'w) exec_state
    \<Rightarrow> ((resolve_error + (string \<rightharpoonup> string)) \<times> ('s, 'g, 'w) exec_state) option" where
  "resolve_from ops values [] s = Some (Inr values, s)"
| "resolve_from ops values (var # vars) s =
     (case resolve_one ops var s of
        None \<Rightarrow> None
      | Some (Inl e, s') \<Rightarrow> Some (Inl e, s')
      | Some (Inr x, s') \<Rightarrow> resolve_from ops (values(vc_name var \<mapsto> x)) vars s')"

definition resolveVariables ::
  "('s, 'g, 'w) exec_ops \<Rightarrow> variable_config list \<Rightarrow> ('s, 'g, 'w) exec_state
    \<Rightarrow> ((resolve_error + (string \<rightharpoonup> string)) \<times> ('s, 'g, 'w) exec_state) option" where
  "resolveVariables ops vars s = resolve_from ops Map.empty vars s"

subsection \<open>Headers\<close>

text \<open>
  \<open>Header.Set\<close> stores the value under the canonical key: upper case after a hyphen and at
  the beginning, lower case elsewhere, if the name is a token, and unchanged otherwise.
\<close>

definition upper_char :: "char \<Rightarrow> char" where
  "upper_char c = (let n = byte_of c in if 97 \<le> n \<and> n \<le> 122 then char_of (n - 32) else c)"

definition token_char :: "char \<Rightarrow> bool" where
  "token_char c \<longleftrightarrow>
     (let n = byte_of c in (97 \<le> n \<and> n \<le> 122) \<or> (65 \<le> n \<and> n \<le> 90) \<or> (48 \<le> n \<and> n \<le> 57)
        \<or> c \<in> set ''!#$%&*+-.^_`|~'' \<or> n = 39)"

fun canonical_from :: "bool \<Rightarrow> string \<Rightarrow> string" where
  "canonical_from upper [] = []"
| "canonical_from upper (c # s) =
     (if upper then upper_char c else lower_char c) # canonical_from (c = CHR ''-'') s"

definition canonical_key :: "string \<Rightarrow> string" where
  "canonical_key name = (if name \<noteq> [] \<and> list_all token_char name then canonical_from True name else name)"

definition set_header :: "string \<Rightarrow> string \<Rightarrow> (string \<rightharpoonup> string) \<Rightarrow> (string \<rightharpoonup> string)" where
  "set_header name value hs = hs(canonical_key name \<mapsto> value)"

definition readSecretHeaderValue ::
  "('s, 'g, 'w) exec_ops \<Rightarrow> string \<Rightarrow> 'w \<Rightarrow> secret_error + string" where
  "readSecretHeaderValue ops path w =
     (case eo_read_file ops path w of
        None \<Rightarrow> Inl SecretUnreadable
      | Some data \<Rightarrow>
         if MaxSecretHeaderBytes < length data then Inl SecretTooLarge
         else
           (let value = trim_right data [CHR 0x0D, CHR 0x0A]
            in if value = '''' then Inl SecretEmpty
               else if contains_any value [CHR 0x0D, CHR 0x0A] then Inl SecretLineBreak
               else Inr value))"

fun apply_secret_headers ::
  "('s, 'g, 'w) exec_ops \<Rightarrow> 'w \<Rightarrow> nat \<Rightarrow> secret_header_config list \<Rightarrow> (string \<rightharpoonup> string)
    \<Rightarrow> exec_error + (string \<rightharpoonup> string)" where
  "apply_secret_headers ops w i [] hs = Inr hs"
| "apply_secret_headers ops w i (h # rest) hs =
     (case readSecretHeaderValue ops (sh_value_file h) w of
        Inl e \<Rightarrow> Inl (SecretHeader (sh_name h) i e)
      | Inr x \<Rightarrow> apply_secret_headers ops w (Suc i) rest (set_header (sh_name h) x hs))"

definition applyRequestHeaders ::
  "('s, 'g, 'w) exec_ops \<Rightarrow> 'w \<Rightarrow> request_config \<Rightarrow> (string \<rightharpoonup> string) \<Rightarrow> exec_error + (string \<rightharpoonup> string)" where
  "applyRequestHeaders ops w r hs =
     apply_secret_headers ops w 0 (rq_secret_headers r)
       (fold (\<lambda>(n, x). set_header n x) (rq_headers r) hs)"

definition SecretHeaderFiles :: "config \<Rightarrow> string list" where
  "SecretHeaderFiles c =
     concat (map (\<lambda>x. map sh_value_file (rq_secret_headers (oc_request x))) (cf_operations c))"

definition CheckSecretHeaderFiles ::
  "('s, 'g, 'w) exec_ops \<Rightarrow> 'w \<Rightarrow> string list \<Rightarrow> (nat \<times> secret_error) option" where
  "CheckSecretHeaderFiles ops w paths =
     each_err (\<lambda>i path. case readSecretHeaderValue ops path w of
        Inl e \<Rightarrow> Some (i, e) | Inr _ \<Rightarrow> None) 0 paths"

subsection \<open>HTTP\<close>

definition resolveRequestURL :: "go_lib \<Rightarrow> url \<Rightarrow> string \<Rightarrow> exec_error + url" where
  "resolveRequestURL lib base path =
     (case go_parse_url lib path of
        None \<Rightarrow> Inl URLInvalid
      | Some reference \<Rightarrow>
         (let resolved = go_resolve_reference lib base reference
          in if url_scheme resolved \<noteq> url_scheme base \<or> url_host resolved \<noteq> url_host base
             then Inl OriginOverride
             else Inr resolved))"

definition readBoundedResponse :: "http_response \<Rightarrow> exec_error + string" where
  "readBoundedResponse p =
     (let body = take (MaxResponseBodyBytes + 1) (hp_body p)
      in if hp_body_fails p \<and> length (hp_body p) \<le> MaxResponseBodyBytes then Inl ResponseUnreadable
         else if MaxResponseBodyBytes < length body then Inl ResponseTooLarge
         else Inr body)"

fun containsStatus :: "int list \<Rightarrow> int \<Rightarrow> bool" where
  "containsStatus [] actual \<longleftrightarrow> False"
| "containsStatus (x # xs) actual \<longleftrightarrow> x = actual \<or> containsStatus xs actual"

record executor =
  xe_base_url :: url
  xe_client :: http_client

text \<open>The options of \<open>NewExecutor\<close> are the client and generator that were passed, if any.\<close>

definition NewExecutor ::
  "go_lib \<Rightarrow> target_config \<Rightarrow> http_client option \<Rightarrow> (target_error option + executor)" where
  "NewExecutor lib target client =
     (case validateTarget lib target of
        Some e \<Rightarrow> Inl (Some e)
      | None \<Rightarrow>
         (case go_parse_url lib (tc_base_url target) of
            None \<Rightarrow> Inl None
          | Some u \<Rightarrow>
              Inr \<lparr>xe_base_url = u,
                   xe_client = cloneHTTPClient
                     (case client of None \<Rightarrow> \<lparr>hc_timeout = DefaultRequestTimeout, hc_follows_redirects = True\<rparr>
                      | Some c \<Rightarrow> c)\<rparr>))"

subsection \<open>Execute\<close>

text \<open>After the response: the status check, the capture and the put.\<close>

definition finish_response ::
  "('s, 'g, 'w) exec_ops \<Rightarrow> operation_config \<Rightarrow> http_response \<Rightarrow> execution_result
    \<Rightarrow> ('s, 'g, 'w) exec_state
    \<Rightarrow> ((execution_result \<times> exec_error option) \<times> ('s, 'g, 'w) exec_state) option" where
  "finish_response ops oper response result s =
     (case readBoundedResponse response of
        Inl e \<Rightarrow> Some ((result, Some e), s)
      | Inr body \<Rightarrow>
         (let result = result\<lparr>er_response_bytes := int (length body)\<rparr>
          in if \<not> containsStatus (oc_expected_status_codes oper) (hp_status response)
             then Some ((result, Some (UnexpectedStatus (hp_status response))), s)
             else case oc_capture oper of
               None \<Rightarrow> Some ((result, None), s)
             | Some cap \<Rightarrow>
                (case eo_stores ops of
                   None \<Rightarrow> Some ((result, Some NoValueStore), s)
                 | Some (put, _) \<Rightarrow>
                    (case captureJSONString (eo_json ops) body (cc_json_pointer cap) of
                       None \<Rightarrow> None
                     | Some (Inl e) \<Rightarrow> Some ((result, Some (CaptureFailed e)), s)
                     | Some (Inr x) \<Rightarrow>
                        (case put (fst (ex_env s 0)) (snd (ex_env s 0)) (cc_store cap) x (ex_store s) of
                           None \<Rightarrow> None
                         | Some (err, st) \<Rightarrow>
                            (let s' = s\<lparr>ex_store := st, ex_env := (\<lambda>i. ex_env s (Suc i))\<rparr>
                             in case err of
                                  Some e \<Rightarrow> Some ((result, Some (CaptureNotStored e)), s')
                                | None \<Rightarrow> Some ((result\<lparr>er_captured := True\<rparr>, None), s')))))))"

text \<open>The request an operation sends for given values, or the error before anything is sent.\<close>

definition prepare_request ::
  "('s, 'g, 'w) exec_ops \<Rightarrow> executor \<Rightarrow> operation_config \<Rightarrow> (string \<rightharpoonup> string) \<Rightarrow> 'w
    \<Rightarrow> exec_error + http_request" where
  "prepare_request ops x oper values w =
     (let path = renderPathTemplate (rq_path_template (oc_request oper)) values;
          body = renderBodyTemplate (rq_body_template (oc_request oper)) values
      in if MaxRequestBodyBytes < length body then Inl BodyExceedsLimit
         else case resolveRequestURL (eo_lib ops) (xe_base_url x) path of
           Inl e \<Rightarrow> Inl e
         | Inr requestURL \<Rightarrow>
            (let url = go_url_string (eo_lib ops) requestURL
             in if \<not> eo_new_request ops (rq_method (oc_request oper)) url then Inl RequestInvalid
                else case applyRequestHeaders ops w (oc_request oper) Map.empty of
                  Inl e \<Rightarrow> Inl e
                | Inr hs \<Rightarrow>
                   Inr \<lparr>hr_method = rq_method (oc_request oper), hr_url = url, hr_headers = hs,
                        hr_body = body\<rparr>))"

definition Execute ::
  "('s, 'g, 'w) exec_ops \<Rightarrow> executor \<Rightarrow> operation_config \<Rightarrow> ('s, 'g, 'w) exec_state
    \<Rightarrow> ((execution_result \<times> exec_error option) \<times> ('s, 'g, 'w) exec_state) option" where
  "Execute ops x oper s =
     (let result = \<lparr>er_operation = oc_name oper, er_status = 0, er_response_bytes = 0,
                    er_captured = False\<rparr>
      in case resolveVariables ops (rq_variables (oc_request oper)) s of
           None \<Rightarrow> None
         | Some (Inl e, s1) \<Rightarrow> Some ((result, Some (ResolveVariables e)), s1)
         | Some (Inr values, s1) \<Rightarrow>
            (case prepare_request ops x oper values (ex_world s1) of
               Inl e \<Rightarrow> Some ((result, Some e), s1)
             | Inr request \<Rightarrow>
                (case eo_do ops request (ex_world s1) of
                   (None, w) \<Rightarrow> Some ((result, Some RequestFailed), s1\<lparr>ex_world := w\<rparr>)
                 | (Some response, w) \<Rightarrow>
                     finish_response ops oper response (result\<lparr>er_status := hp_status response\<rparr>)
                       (s1\<lparr>ex_world := w\<rparr>))))"

subsection \<open>One request, to the target\<close>

lemma resolve_one_world:
  "resolve_one ops var s = Some (res, s') \<Longrightarrow> ex_world s' = ex_world s"
  by (auto simp: resolve_one_def Let_def split: if_splits option.splits prod.splits)

lemma resolve_from_world:
  "resolve_from ops vals0 vars s = Some (res, s') \<Longrightarrow> ex_world s' = ex_world s"
proof (induction vars arbitrary: vals0 s)
  case Nil
  then show ?case by simp
next
  case (Cons var vars)
  obtain r s1 where one: "resolve_one ops var s = Some (r, s1)"
    using Cons.prems by (cases "resolve_one ops var s") auto
  then show ?case
    using Cons resolve_one_world [OF one] by (cases r) auto
qed

lemma finish_response_world:
  "finish_response ops oper p res s = Some ((res', err), s') \<Longrightarrow>
    ex_world s' = ex_world s \<and> \<not> store_value_unavailable err
    \<and> er_operation res' = er_operation res \<and> er_status res' = er_status res"
  by (auto simp: finish_response_def Let_def store_value_unavailable_def readBoundedResponse_def
      split: if_splits option.splits prod.splits sum.splits)

lemma resolveRequestURL_origin:
  "resolveRequestURL lib base path = Inr u \<Longrightarrow> url_scheme u = url_scheme base \<and> url_host u = url_host base"
  by (auto simp: resolveRequestURL_def Let_def split: option.splits if_splits)

lemma prepare_request_origin:
  assumes "prepare_request ops x oper values w = Inr req"
  shows "hr_method req = rq_method (oc_request oper)"
    and "\<exists>u. hr_url req = go_url_string (eo_lib ops) u \<and> url_scheme u = url_scheme (xe_base_url x)
      \<and> url_host u = url_host (xe_base_url x)"
    and "length (hr_body req) \<le> MaxRequestBodyBytes"
    and "applyRequestHeaders ops w (oc_request oper) Map.empty = Inr (hr_headers req)"
    and "hr_body req = renderBodyTemplate (rq_body_template (oc_request oper)) values"
  using assms resolveRequestURL_origin
  by (auto simp: prepare_request_def Let_def split: if_splits sum.splits)

lemma Execute_cases:
  assumes "Execute ops x oper s = Some ((res, err), s')"
  obtains (unresolved) e where "err = Some (ResolveVariables e)" "ex_world s' = ex_world s"
      "er_status res = 0" "er_operation res = oc_name oper" "\<not> er_captured res"
      "resolveVariables ops (rq_variables (oc_request oper)) s = Some (Inl e, s')"
  | (unprepared) vals e where "resolveVariables ops (rq_variables (oc_request oper)) s = Some (Inr vals, s')"
      "prepare_request ops x oper vals (ex_world s) = Inl e" "err = Some e" "ex_world s' = ex_world s"
      "er_status res = 0" "er_operation res = oc_name oper" "\<not> er_captured res"
  | (sent) vals s1 req where
      "resolveVariables ops (rq_variables (oc_request oper)) s = Some (Inr vals, s1)"
      "prepare_request ops x oper vals (ex_world s) = Inr req"
      "ex_world s' = snd (eo_do ops req (ex_world s))"
      "\<not> store_value_unavailable err" "er_operation res = oc_name oper"
      "case fst (eo_do ops req (ex_world s)) of
         None \<Rightarrow> err = Some RequestFailed \<and> er_status res = 0 \<and> \<not> er_captured res
       | Some p \<Rightarrow> er_status res = hp_status p
           \<and> finish_response ops oper p \<lparr>er_operation = oc_name oper, er_status = hp_status p,
               er_response_bytes = 0, er_captured = False\<rparr> (s1\<lparr>ex_world := ex_world s'\<rparr>)
             = Some ((res, err), s')"
proof -
  obtain r s1 where r: "resolveVariables ops (rq_variables (oc_request oper)) s = Some (r, s1)"
    using assms by (auto simp: Execute_def Let_def split: option.splits)
  have w: "ex_world s1 = ex_world s" using r resolve_from_world by (auto simp: resolveVariables_def)
  show ?thesis
  proof (cases r)
    case (Inl e)
    then show ?thesis using unresolved [of e] assms r w by (auto simp: Execute_def Let_def)
  next
    case resolved: (Inr vals)
    show ?thesis
    proof (cases "prepare_request ops x oper vals (ex_world s)")
      case (Inl e)
      then show ?thesis using unprepared [of vals e] resolved assms r w by (auto simp: Execute_def Let_def)
    next
      case (Inr req)
      obtain p w' where ans: "eo_do ops req (ex_world s) = (p, w')" by (cases "eo_do ops req (ex_world s)")
      show ?thesis
      proof (cases p)
        case None
        then have "err = Some RequestFailed" "s' = s1\<lparr>ex_world := w'\<rparr>" "er_status res = 0"
          "er_operation res = oc_name oper" "\<not> er_captured res"
          using assms r resolved Inr w ans by (auto simp: Execute_def Let_def)
        then show ?thesis using sent [of vals s1 req] r resolved Inr ans None
          by (simp add: store_value_unavailable_def)
      next
        case (Some response)
        then have f: "finish_response ops oper response \<lparr>er_operation = oc_name oper,
            er_status = hp_status response, er_response_bytes = 0, er_captured = False\<rparr>
            (s1\<lparr>ex_world := w'\<rparr>) = Some ((res, err), s')"
          using assms r resolved Inr w ans by (simp add: Execute_def Let_def)
        from finish_response_world [OF f] show ?thesis
          using sent [of vals s1 req] r resolved Inr ans Some f by simp
      qed
    qed
  qed
qed

subsection \<open>No panic\<close>

definition source_ok :: "variable_config \<Rightarrow> bool" where
  "source_ok v \<longleftrightarrow> (vs_type (vc_source v) = ''randomBase62'' \<longrightarrow> 1 \<le> vs_length (vc_source v))"

locale executor_runtime = value_store put random inv + value_generator uuid base62
  for put :: "'s store_put" and random :: "'s store_random" and inv :: "'s \<Rightarrow> bool"
    and uuid :: "'g \<Rightarrow> string option \<times> 'g" and base62 :: "int \<Rightarrow> 'g \<Rightarrow> (string option \<times> 'g) option" +
  fixes ops :: "('s, 'g, 'w) exec_ops"
  assumes stores: "eo_stores ops = Some (put, random)"
    and generator: "eo_uuid ops = uuid" "eo_base62 ops = base62"
begin

lemma resolve_one_ok:
  assumes "inv (ex_store s)" and "source_ok v"
  obtains r s' where "resolve_one ops v s = Some (r, s')" "inv (ex_store s')"
    "\<And>x. r = Inr x \<Longrightarrow> x \<noteq> ''''"
proof -
  have "\<exists>r s'. resolve_one ops v s = Some (r, s') \<and> inv (ex_store s') \<and> (\<forall>x. r = Inr x \<longrightarrow> x \<noteq> '''')"
  proof (cases "vs_type (vc_source v) = ''store''")
    case True
    obtain res r' st where run: "random (fst (ex_env s 0)) (snd (ex_env s 0)) (vs_store (vc_source v))
        (ex_rng s) (ex_store s) = Some (res, r', st)"
      using random_total [OF assms(1)] by (metis option.exhaust prod.exhaust)
    obtain x ok err where res: "res = (x, ok, err)" by (cases res)
    have "inv st" by (rule random_inv [OF assms(1) run])
    moreover have "err = None \<Longrightarrow> ok \<Longrightarrow> x \<noteq> ''''"
      using random_nonempty [OF assms(1)] run res by fastforce
    ultimately show ?thesis
      using True run res by (cases err; cases ok) (simp_all add: resolve_one_def stores Let_def)
  next
    case not_store: False
    show ?thesis
    proof (cases "vs_type (vc_source v) = ''randomBase62''")
      case True
      then have n: "1 \<le> vs_length (vc_source v)" using assms(2) by (simp add: source_ok_def)
      then obtain o' g where run: "base62 (vs_length (vc_source v)) (ex_gen s) = Some (o', g)"
        using base62_total [of "vs_length (vc_source v)" "ex_gen s"] by fastforce
      have "o' = Some x \<Longrightarrow> x \<noteq> ''''" for x
        using base62_length [of "vs_length (vc_source v)" "ex_gen s" x g] run n by auto
      then show ?thesis
        using True run assms(1) by (cases o') (simp_all add: resolve_one_def generator Let_def)
    next
      case False
      obtain o' g where run: "uuid (ex_gen s) = (o', g)" by (cases "uuid (ex_gen s)")
      have "o' = Some x \<Longrightarrow> x \<noteq> ''''" for x using uuid_nonempty [of "ex_gen s" x g] run by simp
      then show ?thesis
        using False not_store run assms(1)
        by (cases o') (simp_all add: resolve_one_def generator Let_def)
    qed
  qed
  then show ?thesis using that by blast
qed

lemma resolve_from_ok:
  assumes "inv (ex_store s)" and "\<And>v. v \<in> set vars \<Longrightarrow> source_ok v"
    and "\<And>n x. vals0 n = Some x \<Longrightarrow> x \<noteq> ''''"
  shows "\<exists>r s'. resolve_from ops vals0 vars s = Some (r, s') \<and> inv (ex_store s')
    \<and> (\<forall>vals. r = Inr vals \<longrightarrow> dom vals = dom vals0 \<union> vc_name ` set vars
         \<and> (\<forall>n x. vals n = Some x \<longrightarrow> x \<noteq> ''''))"
  using assms
proof (induction vars arbitrary: vals0 s)
  case Nil
  then show ?case by auto
next
  case (Cons v vars)
  obtain r s1 where one: "resolve_one ops v s = Some (r, s1)" "inv (ex_store s1)"
    "\<And>x. r = Inr x \<Longrightarrow> x \<noteq> ''''"
    using resolve_one_ok [OF Cons.prems(1), of v] Cons.prems(2) by auto
  show ?case
  proof (cases r)
    case (Inl e)
    then show ?thesis using one by simp
  next
    case (Inr x)
    have "\<exists>r' s'. resolve_from ops (vals0(vc_name v \<mapsto> x)) vars s1 = Some (r', s') \<and> inv (ex_store s')
      \<and> (\<forall>vals. r' = Inr vals \<longrightarrow> dom vals = dom (vals0(vc_name v \<mapsto> x)) \<union> vc_name ` set vars
           \<and> (\<forall>n x. vals n = Some x \<longrightarrow> x \<noteq> ''''))"
      by (rule Cons.IH [OF one(2)]) (use Cons.prems one(3) [OF Inr] in \<open>auto split: if_splits\<close>)
    then show ?thesis using one(1) Inr by auto
  qed
qed

lemma finish_response_ok:
  assumes "inv (ex_store s)" and "\<And>cap. oc_capture oper = Some cap \<Longrightarrow> cc_json_pointer cap \<noteq> ''''"
  obtains res err s' where "finish_response ops oper p res0 s = Some ((res, err), s')" "inv (ex_store s')"
proof -
  have capture: "captureJSONString jd body (cc_json_pointer cap) \<noteq> None" if "oc_capture oper = Some cap"
    for jd body cap
    using assms(2) [OF that]
    by (cases "cc_json_pointer cap")
      (auto simp: captureJSONString_def resolveJSONPointer_def split: option.splits prod.splits sum.splits json.splits)
  have "put ctx t st x (ex_store s) \<noteq> None" for ctx t st x by (rule put_total [OF assms(1)])
  then have "finish_response ops oper p res0 s \<noteq> None"
    using capture
    by (auto simp: finish_response_def Let_def stores simp del: not_None_eq
        split: option.split sum.split prod.split)
  then obtain res err s' where f: "finish_response ops oper p res0 s = Some ((res, err), s')" by auto
  then have "inv (ex_store s')"
    using assms(1) put_inv [OF assms(1)]
    by (auto simp: finish_response_def Let_def stores split: option.splits sum.splits prod.splits if_splits)
  with f show ?thesis by (rule that)
qed

lemma Execute_ok:
  assumes "inv (ex_store s)" and "\<And>v. v \<in> set (rq_variables (oc_request oper)) \<Longrightarrow> source_ok v"
    and "\<And>cap. oc_capture oper = Some cap \<Longrightarrow> cc_json_pointer cap \<noteq> ''''"
  obtains res err s' where "Execute ops x oper s = Some ((res, err), s')" "inv (ex_store s')"
proof -
  obtain r s1 where r: "resolveVariables ops (rq_variables (oc_request oper)) s = Some (r, s1)"
    "inv (ex_store s1)"
    using resolve_from_ok [OF assms(1,2), of "rq_variables (oc_request oper)" Map.empty]
    unfolding resolveVariables_def by auto
  have w: "inv (ex_store (s1\<lparr>ex_world := w'\<rparr>))" for w' using r(2) by simp
  have "\<exists>res err s'. Execute ops x oper s = Some ((res, err), s') \<and> inv (ex_store s')"
  proof (cases r)
    case (Inl e)
    then show ?thesis using r by (simp add: Execute_def Let_def)
  next
    case resolved: (Inr vals)
    show ?thesis
    proof (cases "prepare_request ops x oper vals (ex_world s1)")
      case (Inl e)
      then show ?thesis using r resolved by (simp add: Execute_def Let_def)
    next
      case (Inr req)
      obtain p w' where ans: "eo_do ops req (ex_world s1) = (p, w')" by (cases "eo_do ops req (ex_world s1)")
      show ?thesis
      proof (cases p)
        case None
        then show ?thesis using r resolved Inr ans by (simp add: Execute_def Let_def)
      next
        case (Some response)
        show ?thesis
          by (rule finish_response_ok [OF w [of w'] assms(3), where p = response
                and ?res0.0 = "\<lparr>er_operation = oc_name oper, er_status = hp_status response,
                  er_response_bytes = 0, er_captured = False\<rparr>"])
            (use r resolved Inr ans Some in \<open>auto simp: Execute_def Let_def\<close>)
      qed
    qed
  qed
  then show ?thesis using that by blast
qed

end

subsection \<open>What success means\<close>

lemma readBoundedResponse_Inr:
  "readBoundedResponse p = Inr body \<longleftrightarrow>
    body = hp_body p \<and> \<not> hp_body_fails p \<and> length (hp_body p) \<le> MaxResponseBodyBytes"
  by (auto simp: readBoundedResponse_def Let_def)

lemma containsStatus_set: "containsStatus xs y \<longleftrightarrow> y \<in> set xs"
  by (induction xs) auto

lemma captureJSONString_length:
  "captureJSONString jd body ptr = Some (Inr x) \<Longrightarrow> x \<noteq> '''' \<and> length x \<le> MaxCapturedValueBytes"
  by (auto simp: captureJSONString_def split: option.splits prod.splits sum.splits json.splits if_splits)

lemma finish_response_None:
  assumes "finish_response ops oper p res0 s = Some ((res, None), s')"
  shows "hp_status p \<in> set (oc_expected_status_codes oper) \<and> \<not> hp_body_fails p
    \<and> length (hp_body p) \<le> MaxResponseBodyBytes
    \<and> (case oc_capture oper of
         None \<Rightarrow> res = res0\<lparr>er_response_bytes := int (length (hp_body p))\<rparr> \<and> s' = s
       | Some cap \<Rightarrow>
           res = res0\<lparr>er_response_bytes := int (length (hp_body p)), er_captured := True\<rparr>
         \<and> (\<exists>put random x st. eo_stores ops = Some (put, random)
             \<and> captureJSONString (eo_json ops) (hp_body p) (cc_json_pointer cap) = Some (Inr x)
             \<and> put (fst (ex_env s 0)) (snd (ex_env s 0)) (cc_store cap) x (ex_store s) = Some (None, st)
             \<and> ex_store s' = st \<and> s' = s\<lparr>ex_store := st, ex_env := (\<lambda>i. ex_env s (Suc i))\<rparr>))"
  using assms
  by (auto simp: finish_response_def Let_def readBoundedResponse_Inr containsStatus_set
      split: sum.splits if_splits option.splits prod.splits)

lemma Execute_None:
  assumes "Execute ops x oper s = Some ((res, None), s')"
  obtains vals s1 req p where
    "resolveVariables ops (rq_variables (oc_request oper)) s = Some (Inr vals, s1)"
    "prepare_request ops x oper vals (ex_world s) = Inr req"
    "eo_do ops req (ex_world s) = (Some p, ex_world s')"
    "er_status res = hp_status p"
    "finish_response ops oper p \<lparr>er_operation = oc_name oper, er_status = hp_status p,
        er_response_bytes = 0, er_captured = False\<rparr> (s1\<lparr>ex_world := ex_world s'\<rparr>) = Some ((res, None), s')"
  using assms
proof (cases rule: Execute_cases)
  case (sent vals s1 req)
  then obtain p where "fst (eo_do ops req (ex_world s)) = Some p" by (auto split: option.splits)
  with sent show ?thesis using that [of vals s1 req p] by (cases "eo_do ops req (ex_world s)") simp
qed simp_all

lemma Execute_result:
  assumes "Execute ops x oper s = Some ((res, None), s')"
  shows "er_status res \<in> set (oc_expected_status_codes oper)"
    and "er_captured res \<longleftrightarrow> oc_capture oper \<noteq> None"
    and "0 \<le> er_response_bytes res" "er_response_bytes res \<le> int MaxResponseBodyBytes"
    and "er_operation res = oc_name oper"
proof -
  obtain p s0 where st: "er_status res = hp_status p"
    and f: "finish_response ops oper p \<lparr>er_operation = oc_name oper, er_status = hp_status p,
        er_response_bytes = 0, er_captured = False\<rparr> s0 = Some ((res, None), s')"
    by (rule Execute_None [OF assms])
  have status: "hp_status p \<in> set (oc_expected_status_codes oper)"
    and len: "length (hp_body p) \<le> MaxResponseBodyBytes"
    using finish_response_None [OF f] by blast+
  have res: "res = \<lparr>er_operation = oc_name oper, er_status = hp_status p,
      er_response_bytes = int (length (hp_body p)), er_captured = (oc_capture oper \<noteq> None)\<rparr>"
    using finish_response_None [OF f] by (cases "oc_capture oper") simp_all
  show "er_status res \<in> set (oc_expected_status_codes oper)" using status st by simp
  show "er_captured res \<longleftrightarrow> oc_capture oper \<noteq> None" "0 \<le> er_response_bytes res"
    "er_response_bytes res \<le> int MaxResponseBodyBytes" "er_operation res = oc_name oper"
    using len by (simp_all add: res)
qed

lemma accepted_operation_ok:
  assumes "validateOperation lib oper stores = None"
  shows "v \<in> set (rq_variables (oc_request oper)) \<Longrightarrow> source_ok v"
    and "oc_capture oper = Some cap \<Longrightarrow> cc_json_pointer cap \<noteq> ''''"
proof -
  show "source_ok v" if "v \<in> set (rq_variables (oc_request oper))"
  proof -
    have "validateVariable stores v = None"
      using validateOperation_None(11) [OF assms] that unfolding validate_variables_None by blast
    then show ?thesis
      by (auto simp: source_ok_def validateVariable_def Let_def split: option.splits if_splits)
  qed
  show "cc_json_pointer cap \<noteq> ''''" if "oc_capture oper = Some cap"
    using validateOperation_None(13) [OF assms] that
    unfolding validate_capture_None validateJSONPointer_def has_prefix_def by (auto split: if_splits)
qed

subsection \<open>The runner's executor\<close>

text \<open>
  The executor as \<open>cmd/runner\<close> builds it for a scenario with memory stores: the instrumented
  store, and the crypto generator that is the default of \<open>NewExecutor\<close>.
\<close>

definition runner_ops ::
  "string \<Rightarrow> go_lib \<Rightarrow> json json_decoder \<Rightarrow> (string \<Rightarrow> string \<Rightarrow> bool)
    \<Rightarrow> (http_request \<Rightarrow> 'w \<Rightarrow> http_response option \<times> 'w) \<Rightarrow> (string \<Rightarrow> 'w \<Rightarrow> string option)
    \<Rightarrow> (memory_store instrumented_store, entropy, 'w) exec_ops" where
  "runner_ops label lib jd new_request send read =
     \<lparr>eo_lib = lib, eo_json = jd,
      eo_stores = Some (instrumentedPut memoryPut label, instrumentedRandom memoryRandom label),
      eo_uuid = cryptoUUID, eo_base62 = cryptoBase62,
      eo_new_request = new_request, eo_do = send, eo_read_file = read\<rparr>"

interpretation runner: executor_runtime "instrumentedPut memoryPut label" "instrumentedRandom memoryRandom label"
  "\<lambda>s. memory_inv cap (iv_inner s)" cryptoUUID cryptoBase62
  "runner_ops label lib jd new_request send read"
  for label :: string and cap :: "string \<Rightarrow> nat option" and lib :: go_lib and jd :: "json json_decoder"
    and new_request :: "string \<Rightarrow> string \<Rightarrow> bool"
    and send :: "http_request \<Rightarrow> 'w \<Rightarrow> http_response option \<times> 'w"
    and read :: "string \<Rightarrow> 'w \<Rightarrow> string option"
  by unfold_locales (simp_all add: runner_ops_def)

text \<open>A sequence of executions, as the scheduler makes them: one after the other.\<close>

fun execute_all ::
  "('s, 'g, 'w) exec_ops \<Rightarrow> executor \<Rightarrow> operation_config list \<Rightarrow> ('s, 'g, 'w) exec_state
    \<Rightarrow> ((execution_result \<times> exec_error option) list \<times> ('s, 'g, 'w) exec_state) option" where
  "execute_all ops x [] s = Some ([], s)"
| "execute_all ops x (oper # opers) s =
     (case Execute ops x oper s of
        None \<Rightarrow> None
      | Some (r, s') \<Rightarrow>
         (case execute_all ops x opers s' of
            None \<Rightarrow> None
          | Some (rs, s'') \<Rightarrow> Some (r # rs, s'')))"

definition result_ok :: "operation_config \<Rightarrow> execution_result \<times> exec_error option \<Rightarrow> bool" where
  "result_ok oper r \<longleftrightarrow>
     er_operation (fst r) = oc_name oper
   \<and> (snd r = None \<longrightarrow>
        er_status (fst r) \<in> set (oc_expected_status_codes oper)
      \<and> er_response_bytes (fst r) \<le> int MaxResponseBodyBytes
      \<and> (er_captured (fst r) \<longleftrightarrow> oc_capture oper \<noteq> None))"

lemma Execute_result_ok: "Execute ops x oper s = Some (r, s') \<Longrightarrow> result_ok oper r"
proof -
  assume e: "Execute ops x oper s = Some (r, s')"
  obtain res err where r: "r = (res, err)" by (cases r)
  have "er_operation res = oc_name oper" using e unfolding r by (cases rule: Execute_cases)
  then show ?thesis using Execute_result [of ops x oper s res s'] e r by (auto simp: result_ok_def)
qed

lemma execute_all_ok:
  fixes s :: "(memory_store instrumented_store, entropy, 'w) exec_state"
  assumes "memory_inv cap (iv_inner (ex_store s))"
    and "\<And>oper. oper \<in> set opers \<Longrightarrow> validateOperation lib oper stores = None"
  shows "\<exists>rs s'. execute_all (runner_ops label lib' jd new_request send read) x opers s = Some (rs, s')
    \<and> list_all2 result_ok opers rs"
  using assms
proof (induction opers arbitrary: s)
  case Nil
  then show ?case by simp
next
  case (Cons oper opers)
  note ok = accepted_operation_ok [OF Cons.prems(2) [of oper]]
  obtain res err s1 where e: "Execute (runner_ops label lib' jd new_request send read) x oper s = Some ((res, err), s1)"
    "memory_inv cap (iv_inner (ex_store s1))"
    by (rule runner.Execute_ok [OF Cons.prems(1), of oper label lib' jd new_request send read x])
      (use ok in auto)
  obtain rs s' where "execute_all (runner_ops label lib' jd new_request send read) x opers s1 = Some (rs, s')"
    "list_all2 result_ok opers rs"
    using Cons.IH [OF e(2)] Cons.prems(2) by auto
  then show ?case using e(1) Execute_result_ok [OF e(1)] by simp
qed

text \<open>With a bounded store, a captured value becomes the newest of its store.\<close>

locale executor_capture =
  executor_runtime put random inv uuid base62 ops + bounded_store put random inv contents capacity
  for put :: "'s store_put" and random :: "'s store_random" and inv :: "'s \<Rightarrow> bool"
    and uuid :: "'g \<Rightarrow> string option \<times> 'g" and base62 :: "int \<Rightarrow> 'g \<Rightarrow> (string option \<times> 'g) option"
    and ops :: "('s, 'g, 'w) exec_ops"
    and contents :: "'s \<Rightarrow> int \<Rightarrow> string \<Rightarrow> string list" and capacity :: "string \<Rightarrow> nat option"
begin

lemma resolve_one_contents:
  assumes "inv (ex_store s)" and "resolve_one ops v s = Some (r, s')"
  shows "inv (ex_store s') \<and> contents (ex_store s') t st = contents (ex_store s) t st"
  using assms random_inv [OF assms(1)] random_reads [OF assms(1)]
  by (fastforce simp: resolve_one_def stores Let_def split: if_splits option.splits prod.splits)

lemma resolve_from_contents:
  "inv (ex_store s) \<Longrightarrow> resolve_from ops vals0 vars s = Some (r, s') \<Longrightarrow>
    inv (ex_store s') \<and> contents (ex_store s') t st = contents (ex_store s) t st"
proof (induction vars arbitrary: vals0 s)
  case Nil
  then show ?case by simp
next
  case (Cons v vars)
  obtain o' s1 where one: "resolve_one ops v s = Some (o', s1)"
    using Cons.prems(2) by (cases "resolve_one ops v s") auto
  note keep = resolve_one_contents [OF Cons.prems(1) one]
  show ?case
  proof (cases o')
    case (Inl e)
    then show ?thesis using Cons.prems(2) one keep by simp
  next
    case (Inr x)
    then have "resolve_from ops (vals0(vc_name v \<mapsto> x)) vars s1 = Some (r, s')"
      using Cons.prems(2) one by simp
    from Cons.IH [OF _ this] keep show ?thesis by metis
  qed
qed

lemma finish_response_captured:
  assumes "finish_response ops oper p res0 s = Some ((res, err), s')" and "er_captured res"
    and "\<not> er_captured res0"
  shows "err = None"
  using assms
  by (auto simp: finish_response_def Let_def split: if_splits option.splits prod.splits sum.splits)

lemma captured:
  assumes "inv (ex_store s)" and "Execute ops x oper s = Some ((res, err), s')" and "er_captured res"
  shows "\<exists>cfg req p v n t. oc_capture oper = Some cfg \<and> eo_do ops req (ex_world s) = (Some p, ex_world s')
    \<and> captureJSONString (eo_json ops) (hp_body p) (cc_json_pointer cfg) = Some (Inr v)
    \<and> v \<noteq> '''' \<and> capacity (cc_store cfg) = Some n
    \<and> contents (ex_store s') t (cc_store cfg)
        = take_last n (contents (ex_store s) t (cc_store cfg) @ [v])"
proof -
  have "err = None"
    using assms(2)
  proof (cases rule: Execute_cases)
    case (sent vals s1 req)
    then show ?thesis using assms(3)
      by (auto split: option.splits dest!: finish_response_captured)
  qed (use assms(3) in simp_all)
  with assms(2) obtain vals s1 req p where
    r: "resolveVariables ops (rq_variables (oc_request oper)) s = Some (Inr vals, s1)"
    and d: "eo_do ops req (ex_world s) = (Some p, ex_world s')"
    and f: "finish_response ops oper p \<lparr>er_operation = oc_name oper, er_status = hp_status p,
        er_response_bytes = 0, er_captured = False\<rparr> (s1\<lparr>ex_world := ex_world s'\<rparr>) = Some ((res, None), s')"
    by (metis Execute_None)
  note keep = resolve_from_contents [OF assms(1) r [unfolded resolveVariables_def]]
  obtain cfg where cfg: "oc_capture oper = Some cfg"
    using Execute_result(2) [of ops x oper s res s'] assms(2,3) \<open>err = None\<close> by auto
  from finish_response_None [OF f] cfg obtain v st where
    v: "captureJSONString (eo_json ops) (hp_body p) (cc_json_pointer cfg) = Some (Inr v)"
    and st: "put (fst (ex_env s1 0)) (snd (ex_env s1 0)) (cc_store cfg) v (ex_store s1) = Some (None, st)"
      "ex_store s' = st"
    by (auto simp: stores)
  have "inv (ex_store s1)" using keep by blast
  from put_done [OF this st(1)] obtain n where
    "v \<noteq> ''''" "capacity (cc_store cfg) = Some n"
    "contents st (snd (ex_env s1 0)) (cc_store cfg)
        = take_last n (contents (ex_store s1) (snd (ex_env s1 0)) (cc_store cfg) @ [v])" by blast
  then show ?thesis
    using cfg d v st keep by (intro exI [of _ cfg] exI [of _ req] exI [of _ p] exI [of _ v] exI [of _ n]
        exI [of _ "snd (ex_env s1 0)"]) simp
qed

end

interpretation runner_capture: executor_capture "instrumentedPut memoryPut label"
  "instrumentedRandom memoryRandom label" "\<lambda>s. memory_inv cap (iv_inner s)" cryptoUUID cryptoBase62
  "runner_ops label lib jd new_request send read" "\<lambda>s. memory_contents (iv_inner s)" cap
  for label :: string and cap :: "string \<Rightarrow> nat option" and lib :: go_lib and jd :: "json json_decoder"
    and new_request :: "string \<Rightarrow> string \<Rightarrow> bool"
    and send :: "http_request \<Rightarrow> 'w \<Rightarrow> http_response option \<times> 'w"
    and read :: "string \<Rightarrow> 'w \<Rightarrow> string option"
  by unfold_locales

text \<open>A small operation that captures a value, and a server that answers it, for evaluation.\<close>

definition ping_operation :: operation_config where
  "ping_operation = \<lparr>oc_name = ''ping'', oc_weight = 1,
     oc_request = \<lparr>rq_method = ''GET'', rq_path_template = ''/ping'', rq_headers = [],
       rq_secret_headers = [], rq_body_template = '''', rq_variables = []\<rparr>,
     oc_expected_status_codes = [200],
     oc_capture = Some \<lparr>cc_json_pointer = ''/id'', cc_store = ''ids''\<rparr>\<rparr>"

definition ping_config :: config where
  "ping_config = example_config\<lparr>cf_stores := [\<lparr>st_name = ''ids'', st_capacity = 2\<rparr>],
     cf_operations := [ping_operation]\<rparr>"

definition ping_ops :: "(memory_store instrumented_store, entropy, http_request list) exec_ops" where
  "ping_ops = runner_ops ''memory'' example_lib
     \<lparr>jd_config = (\<lambda>_. Some (JObject [(''id'', JString ''7'')], '''')), jd_any = (\<lambda>_. AnyEOF)\<rparr>
     (\<lambda>_ _. True)
     (\<lambda>req sent. (Some \<lparr>hp_status = 200, hp_body = ''{}'', hp_body_fails = False\<rparr>, sent @ [req]))
     (\<lambda>_ _. None)"

definition ping_state :: "(memory_store instrumented_store, entropy, http_request list) exec_state" where
  "ping_state = \<lparr>ex_store = \<lparr>iv_inner = [''ids'' \<mapsto> \<lparr>mp_values = [], mp_next = 0, mp_limit = 2\<rparr>],
       iv_clock = int, iv_seen = []\<rparr>,
     ex_gen = (\<lambda>_. None), ex_world = [], ex_rng = (\<lambda>_. 0), ex_env = (\<lambda>_. (None, 0))\<rparr>"

definition ping_executor :: executor where
  "ping_executor = \<lparr>xe_base_url = \<lparr>url_scheme = ''http'', url_host = ''h'', url_has_user = False,
       url_path = '''', url_raw_query = '''', url_fragment = ''''\<rparr>,
     xe_client = cloneHTTPClient \<lparr>hc_timeout = 0, hc_follows_redirects = True\<rparr>\<rparr>"

definition ping_request :: http_request where
  "ping_request = \<lparr>hr_method = ''GET'', hr_url = ''http://h/ping'', hr_headers = Map.empty, hr_body = ''''\<rparr>"

lemma ping_run:
  "Execute ping_ops ping_executor ping_operation ping_state =
    Some ((\<lparr>er_operation = ''ping'', er_status = 200, er_response_bytes = 2, er_captured = True\<rparr>, None),
      ping_state\<lparr>ex_world := [ping_request],
        ex_store := \<lparr>iv_inner = [''ids'' \<mapsto> \<lparr>mp_values = [''7''], mp_next = 0, mp_limit = 2\<rparr>],
          iv_clock = (\<lambda>i. int (i + 2)), iv_seen = [\<lparr>ob_backend = ''memory'', ob_store = ''ids'',
            ob_operation = ''put'', ob_result = ''success'', ob_duration = 1\<rparr>]\<rparr>\<rparr>)"
  by (simp add: Execute_def ping_ops_def ping_executor_def ping_operation_def ping_state_def runner_ops_def
      resolveVariables_def prepare_request_def renderPathTemplate_def renderBodyTemplate_def
      replaceTemplateVariables_def match_marker_def has_prefix_def no_brace_def config_limits
      resolveRequestURL_def example_lib_def applyRequestHeaders_def finish_response_def readBoundedResponse_def
      captureJSONString_def ensureJSONEOF_def resolveJSONPointer_def decode_token_def MaxCapturedValueBytes_def
      instrumentedPut_def tick_def observe_def memoryPut_def pool_put_def ping_request_def Let_def)

lemma ping_operation_ok: "validateOperation lib ping_operation [''ids''] = None"
proof -
  have n: "name_pattern ''ping''" by (simp add: name_pattern_def name_char_def)
  have "templateVariables (''/ping'' @ [CHR 0x0A]) = Inr []"
    by (simp add: templateVariables_def template_names_def Let_def match_marker_def has_prefix_def no_brace_def)
  moreover have "validateHeaders lib [] [] = None"
    by (simp add: validateHeaders_None validate_secret_headers_None config_limits)
  ultimately show ?thesis
    by (simp add: validateOperation_def ping_operation_def validateName_def check_template_use_def
        validate_capture_def validateJSONPointer_def n has_prefix_def contains_any_def config_limits
        char_of_def bit_0 Let_def)
qed

lemma ping_config_ok: "validateConfig example_lib ping_config = None"
proof -
  have "name_pattern ''ids''" by (simp add: name_pattern_def name_char_def)
  then show ?thesis
    by (simp add: validateConfig_def ping_config_def example_config_def validateTarget_def example_lib_def
        validateRateSchedule_def validateLimiterType_def validateRateProfile_def validateStoreConfigs_def
        validateName_def config_limits ping_operation_ok)
qed

subsection \<open>Properties\<close>

text \<open>C7. An execution makes at most one exchange. Either nothing is sent and the result is an
  error, or exactly the operation's one request goes to a URL of the target's scheme and host,
  with a body within the limit; and an execution that reports a missing store value has sent
  nothing, so that the scheduler may pick another operation for the same permit.\<close>

theorem execute_one_request:
  assumes "Execute ops x oper s = Some ((res, err), s')"
  shows "(err \<noteq> None \<and> er_status res = 0 \<and> \<not> er_captured res \<and> ex_world s' = ex_world s)
    \<or> (\<exists>req u. ex_world s' = snd (eo_do ops req (ex_world s))
        \<and> hr_method req = rq_method (oc_request oper)
        \<and> hr_url req = go_url_string (eo_lib ops) u
        \<and> url_scheme u = url_scheme (xe_base_url x) \<and> url_host u = url_host (xe_base_url x)
        \<and> length (hr_body req) \<le> MaxRequestBodyBytes
        \<and> \<not> store_value_unavailable err)"
  using assms
proof (cases rule: Execute_cases)
  case (sent vals s1 req)
  show ?thesis using sent(3,4) prepare_request_origin(1,2,3) [OF sent(2)] by blast
qed simp_all

theorem execute_one_request_witness:
  "\<exists>req. [ping_request] = snd (eo_do ping_ops req []) \<and> hr_method req = ''GET''"
  using execute_one_request [OF ping_run]
  by (auto simp: ping_state_def ping_operation_def)

text \<open>C9. No accepted scenario can crash its executor: from fresh memory stores, any sequence of its
  operations, whatever the servers answer, whatever the random draws and however often the
  stores or the generator fail, runs to the end with one result each. A result without an error
  has an expected status and a bounded body, and captured exactly if the operation captures.\<close>

theorem executions_never_panic:
  fixes s :: "(memory_store instrumented_store, entropy, 'w) exec_state"
  assumes "validateConfig lib c = None" and "newMemoryStore (cf_stores c) = Inr (iv_inner (ex_store s))"
    and "set opers \<subseteq> set (cf_operations c)"
  shows "\<exists>rs s'. execute_all (runner_ops label lib jd new_request send read) x opers s = Some (rs, s')
    \<and> list_all2 result_ok opers rs"
  by (rule execute_all_ok [OF newMemoryStore_inv(1) [OF assms(2)]])
    (use validateConfig_None(8) [OF assms(1)] assms(3) in blast)

theorem executions_never_panic_witness:
  "\<exists>rs s'. execute_all ping_ops ping_executor [ping_operation, ping_operation] ping_state = Some (rs, s')
    \<and> list_all2 result_ok [ping_operation, ping_operation] rs"
proof -
  have "newMemoryStore (cf_stores ping_config) = Inr (iv_inner (ex_store ping_state))"
    by (simp add: newMemoryStore_def ping_config_def ping_state_def validateStoreConfigs_def validateName_def
        name_pattern_def name_char_def config_limits)
  moreover have "set [ping_operation, ping_operation] \<subseteq> set (cf_operations ping_config)"
    by (simp add: ping_config_def)
  ultimately show ?thesis unfolding ping_ops_def by (rule executions_never_panic [OF ping_config_ok])
qed

text \<open>C34. A capture stores what the response says: if an execution reports a captured value, the
  value is the non-empty string of at most 4096 bytes that the pointer selects in the response
  body, and it is the newest value of the declared store, the older ones kept up to the
  capacity.\<close>

theorem captured_value_stored:
  assumes "memory_inv cap (iv_inner (ex_store s))"
    and "Execute (runner_ops label lib jd new_request send read) x oper s = Some ((res, err), s')"
    and "er_captured res"
  shows "\<exists>cfg req p v n. oc_capture oper = Some cfg \<and> send req (ex_world s) = (Some p, ex_world s')
    \<and> captureJSONString jd (hp_body p) (cc_json_pointer cfg) = Some (Inr v)
    \<and> v \<noteq> '''' \<and> length v \<le> MaxCapturedValueBytes \<and> cap (cc_store cfg) = Some n
    \<and> memory_contents (iv_inner (ex_store s')) t (cc_store cfg)
        = take_last n (memory_contents (iv_inner (ex_store s)) t (cc_store cfg) @ [v])"
proof -
  from runner_capture.captured [OF assms] obtain cfg req p v n t' where c: "oc_capture oper = Some cfg"
    "eo_do (runner_ops label lib jd new_request send read) req (ex_world s) = (Some p, ex_world s')"
    "captureJSONString (eo_json (runner_ops label lib jd new_request send read)) (hp_body p)
      (cc_json_pointer cfg) = Some (Inr v)"
    "v \<noteq> ''''" "cap (cc_store cfg) = Some n"
    "memory_contents (iv_inner (ex_store s')) t' (cc_store cfg)
        = take_last n (memory_contents (iv_inner (ex_store s)) t' (cc_store cfg) @ [v])" by blast
  have "memory_contents m t' = memory_contents m t" for m by (rule ext) (simp add: memory_contents_def)
  then show ?thesis
    using c captureJSONString_length [OF c(3)]
    by (intro exI [of _ cfg] exI [of _ req] exI [of _ p] exI [of _ v] exI [of _ n])
      (simp add: runner_ops_def)
qed

theorem captured_value_stored_witness:
  "\<exists>v n. memory_contents [''ids'' \<mapsto> \<lparr>mp_values = [''7''], mp_next = 0, mp_limit = 2\<rparr>] 0 ''ids''
    = take_last n [v]"
proof -
  have "memory_inv [''ids'' \<mapsto> 2] (iv_inner (ex_store ping_state))"
    by (simp add: memory_inv_def ping_state_def pool_ok_def)
  from captured_value_stored [OF this ping_run [unfolded ping_ops_def], of 0] show ?thesis
    by (auto simp: ping_operation_def ping_state_def memory_contents_def pool_contents_def)
qed

subsection \<open>Header properties\<close>

definition header_value_ok :: "string \<Rightarrow> bool" where
  "header_value_ok v \<longleftrightarrow> v \<noteq> '''' \<and> CHR 0x0D \<notin> set v \<and> CHR 0x0A \<notin> set v \<and> length v \<le> MaxSecretHeaderBytes"

lemma readSecretHeaderValue_ok:
  assumes "readSecretHeaderValue ops path w = Inr v"
  shows "header_value_ok v"
proof -
  obtain data where "eo_read_file ops path w = Some data"
    using assms by (auto simp: readSecretHeaderValue_def split: option.splits)
  then have d: "length data \<le> MaxSecretHeaderBytes" "v = trim_right data [CHR 0x0D, CHR 0x0A]"
    "v \<noteq> ''''" "\<not> contains_any v [CHR 0x0D, CHR 0x0A]"
    using assms by (auto simp: readSecretHeaderValue_def Let_def not_less split: if_splits)
  obtain r where "data = v @ r" using trim_right_suffix [of data "[CHR 0x0D, CHR 0x0A]"] d(2) by blast
  then have "length v \<le> length data" by simp
  moreover have "CHR 0x0D \<notin> set v" "CHR 0x0A \<notin> set v"
    using d(4) unfolding contains_any_def list_ex_iff by auto
  ultimately show ?thesis using d(1,3) unfolding header_value_ok_def by linarith
qed

lemma apply_secret_headers_ok:
  assumes "\<And>h. h \<in> set shs \<Longrightarrow> \<exists>v. readSecretHeaderValue ops (sh_value_file h) w = Inr v"
  shows "\<exists>hs'. apply_secret_headers ops w i shs hs = Inr hs'
    \<and> (\<forall>k. if k \<in> canonical_key ` sh_name ` set shs then \<exists>v. hs' k = Some v \<and> header_value_ok v
           else hs' k = hs k)"
  using assms
proof (induction shs arbitrary: i hs)
  case Nil
  then show ?case by simp
next
  case (Cons h shs)
  obtain v where v: "readSecretHeaderValue ops (sh_value_file h) w = Inr v" using Cons.prems [of h] by auto
  have rest: "\<And>g. g \<in> set shs \<Longrightarrow> \<exists>v. readSecretHeaderValue ops (sh_value_file g) w = Inr v"
    using Cons.prems by simp
  obtain hs' where hs': "apply_secret_headers ops w (Suc i) shs (set_header (sh_name h) v hs) = Inr hs'"
    "\<forall>k. if k \<in> canonical_key ` sh_name ` set shs then \<exists>v. hs' k = Some v \<and> header_value_ok v
         else hs' k = set_header (sh_name h) v hs k"
    using Cons.IH [OF rest] by blast
  have "if k \<in> canonical_key ` sh_name ` set (h # shs) then \<exists>v. hs' k = Some v \<and> header_value_ok v
      else hs' k = hs k" for k
    using spec [OF hs'(2), of k] readSecretHeaderValue_ok [OF v] by (auto simp: set_header_def split: if_splits)
  then show ?case using hs'(1) v by simp
qed

text \<open>Readiness is meaningful: if \<open>CheckSecretHeaderFiles\<close> accepts the files of a configuration,
  then the headers of each of its operations can be built while the files stay as they are, and
  the value sent under the name of a secret header is not empty, bounded and without a line
  break, whatever plain headers were set before.\<close>

theorem ready_headers_apply:
  assumes "CheckSecretHeaderFiles ops w (SecretHeaderFiles c) = None" and "x \<in> set (cf_operations c)"
  shows "\<exists>hs. applyRequestHeaders ops w (oc_request x) base = Inr hs
    \<and> (\<forall>h \<in> set (rq_secret_headers (oc_request x)). \<exists>v. hs (canonical_key (sh_name h)) = Some v
        \<and> v \<noteq> '''' \<and> CHR 0x0D \<notin> set v \<and> CHR 0x0A \<notin> set v \<and> length v \<le> MaxSecretHeaderBytes)"
proof -
  have "\<exists>v. readSecretHeaderValue ops (sh_value_file h) w = Inr v"
    if "h \<in> set (rq_secret_headers (oc_request x))" for h
  proof -
    have "sh_value_file h \<in> set (SecretHeaderFiles c)" using that assms(2) by (auto simp: SecretHeaderFiles_def)
    then obtain j where "j < length (SecretHeaderFiles c)" "SecretHeaderFiles c ! j = sh_value_file h"
      by (auto simp: in_set_conv_nth)
    then have "(case readSecretHeaderValue ops (sh_value_file h) w of Inl e \<Rightarrow> Some (j, e) | Inr _ \<Rightarrow> None) = None"
      using assms(1) unfolding CheckSecretHeaderFiles_def each_err_None by (metis add_0)
    then show ?thesis by (cases "readSecretHeaderValue ops (sh_value_file h) w") simp_all
  qed
  from apply_secret_headers_ok [OF this] obtain hs where
    "applyRequestHeaders ops w (oc_request x) base = Inr hs"
    "\<forall>k. if k \<in> canonical_key ` sh_name ` set (rq_secret_headers (oc_request x))
         then \<exists>v. hs k = Some v \<and> header_value_ok v
         else hs k = fold (\<lambda>(n, x). set_header n x) (rq_headers (oc_request x)) base k"
    unfolding applyRequestHeaders_def by blast
  then show ?thesis unfolding header_value_ok_def by (metis image_eqI)
qed

definition secret_ops :: "(memory_store instrumented_store, entropy, unit) exec_ops" where
  "secret_ops = runner_ops ''memory'' example_lib \<lparr>jd_config = (\<lambda>_. None), jd_any = (\<lambda>_. AnyEOF)\<rparr>
     (\<lambda>_ _. True) (\<lambda>_ w. (None, w)) (\<lambda>_ _. Some (''k'' @ [CHR 0x0A]))"

theorem ready_headers_apply_witness:
  "\<exists>hs. applyRequestHeaders secret_ops () (oc_request example_operation) Map.empty = Inr hs"
proof -
  have "CheckSecretHeaderFiles secret_ops () (SecretHeaderFiles example_config) = None"
    by (simp add: CheckSecretHeaderFiles_def SecretHeaderFiles_def example_config_def example_operation_def
        readSecretHeaderValue_def secret_ops_def runner_ops_def config_limits trim_right_def contains_any_def)
  from ready_headers_apply [OF this, of example_operation Map.empty] show ?thesis
    by (auto simp: example_config_def)
qed

text \<open>Two plain headers whose names differ in case only pass the validation, and the request then
  carries the value that the loop over the Go map happens to set last: the two orders of the same
  configuration send different requests.\<close>

theorem case_duplicate_headers:
  "validateHeaders lib [(''X-A'', ''1''), (''x-a'', ''2'')] [] = None
   \<and> applyRequestHeaders ops w (r\<lparr>rq_headers := [(''X-A'', ''1''), (''x-a'', ''2'')],
          rq_secret_headers := []\<rparr>) Map.empty = Inr [''X-A'' \<mapsto> ''2'']
   \<and> applyRequestHeaders ops w (r\<lparr>rq_headers := [(''x-a'', ''2''), (''X-A'', ''1'')],
          rq_secret_headers := []\<rparr>) Map.empty = Inr [''X-A'' \<mapsto> ''1'']"
proof -
  have c: "canonical_key ''X-A'' = ''X-A''" "canonical_key ''x-a'' = ''X-A''"
    by (simp_all add: canonical_key_def token_char_def byte_of_def upper_char_def lower_char_def Let_def
        char_of_def bit_0)
  have l: "to_lower f ''X-A'' = ''x-a''" "to_lower f ''x-a'' = ''x-a''" for f
    by (simp_all add: to_lower_def is_ascii_def lower_char_def Let_def char_of_def bit_0)
  have "validateHeaders lib [(''X-A'', ''1''), (''x-a'', ''2'')] [] = None"
    by (simp add: validateHeaders_def validHeaderName_def isSensitiveHeader_def isTransportHeader_def l
        contains_any_def config_limits Let_def char_of_def bit_0 has_prefix_def)
  then show ?thesis by (simp add: applyRequestHeaders_def set_header_def c)
qed

subsection \<open>The origin cannot be overridden\<close>

text \<open>
  What \<open>net/url\<close> documents: a reference that begins with exactly one slash has neither
  scheme nor authority, and resolving such a reference keeps those of the base.
\<close>

definition url_reference_laws :: "go_lib \<Rightarrow> bool" where
  "url_reference_laws lib \<longleftrightarrow>
     (\<forall>p u. has_prefix p ''/'' \<and> \<not> has_prefix p ''//'' \<and> go_parse_url lib p = Some u
        \<longrightarrow> url_scheme u = '''' \<and> url_host u = '''' \<and> \<not> url_has_user u)
   \<and> (\<forall>base u. url_scheme u = '''' \<and> url_host u = '''' \<and> \<not> url_has_user u
        \<longrightarrow> url_scheme (go_resolve_reference lib base u) = url_scheme base
          \<and> url_host (go_resolve_reference lib base u) = url_host base)"

lemma resolveRequestURL_no_override:
  assumes "url_reference_laws lib" and "has_prefix p ''/''" and "\<not> has_prefix p ''//''"
  shows "resolveRequestURL lib base p \<noteq> Inl OriginOverride"
proof (cases "go_parse_url lib p")
  case None
  then show ?thesis by (simp add: resolveRequestURL_def)
next
  case (Some u)
  then have "url_scheme u = ''''" "url_host u = ''''" "\<not> url_has_user u"
    using assms unfolding url_reference_laws_def by blast+
  then have "url_scheme (go_resolve_reference lib base u) = url_scheme base"
    "url_host (go_resolve_reference lib base u) = url_host base"
    using assms(1) unfolding url_reference_laws_def by blast+
  then show ?thesis using Some by (simp add: resolveRequestURL_def Let_def)
qed

lemma apply_secret_headers_error:
  "apply_secret_headers ops w i shs hs = Inl e \<Longrightarrow> \<exists>n j e'. e = SecretHeader n j e'"
  by (induction shs arbitrary: i hs) (auto split: sum.splits)

lemma prepare_request_no_override:
  assumes "url_reference_laws (eo_lib ops)"
    and "has_prefix (rq_path_template (oc_request oper)) ''/''"
    and "\<not> has_prefix (rq_path_template (oc_request oper)) ''//''"
    and "\<And>n. n \<in> set (template_names (rq_path_template (oc_request oper)))
      \<Longrightarrow> \<exists>v. vals n = Some v \<and> v \<noteq> ''''"
  shows "prepare_request ops x oper vals w \<noteq> Inl OriginOverride"
proof -
  have p: "has_prefix (renderPathTemplate (rq_path_template (oc_request oper)) vals) ''/''"
    "\<not> has_prefix (renderPathTemplate (rq_path_template (oc_request oper)) vals) ''//''"
    using render_path_slash [OF assms(2,3), of vals] assms(4) by blast+
  have "applyRequestHeaders ops w (oc_request oper) Map.empty \<noteq> Inl OriginOverride"
    using apply_secret_headers_error unfolding applyRequestHeaders_def by fastforce
  then show ?thesis
    using resolveRequestURL_no_override [OF assms(1) p]
    by (auto simp: prepare_request_def Let_def split: sum.splits)
qed

lemma finish_response_no_override:
  "finish_response ops oper p res0 s = Some ((res, err), s') \<Longrightarrow> err \<noteq> Some OriginOverride"
  by (auto simp: finish_response_def Let_def readBoundedResponse_def
      split: if_splits option.splits prod.splits sum.splits)



end
