(* ===== verification/Scheduler.thy ===== *)
theory Scheduler
  imports Executor Rate_Schedule
begin

section \<open>The scheduler\<close>

text \<open>
  \<open>weighted_picker.go\<close>, \<open>scheduler.go\<close>, \<open>scheduler_options.go\<close> and
  \<open>scheduler_execution.go\<close>: the loop that asks the schedule for the rate, reserves a batch
  of permits, and executes one weighted random operation per permit with the profile's delays
  in between. The interfaces the scheduler holds are fields of \<open>scheduler\<close>; the state of the
  limiter, of the schedule and of everything else (executor, handler, timer) is threaded through
  \<open>sched_state\<close>. The tape \<open>sd_tape\<close> holds the context's state and the time at each use.
  \<open>None\<close> is a panic. Log lines are not modelled.
\<close>

subsection \<open>Weighted selection\<close>

fun total_weight :: "operation_config list \<Rightarrow> bool list \<Rightarrow> int \<Rightarrow> int option" where
  "total_weight [] excluded acc = Some acc"
| "total_weight (x # xs) [] acc = None"
| "total_weight (x # xs) (e # es) acc = total_weight xs es (if e then acc else i64 (acc + oc_weight x))"

fun select_weighted :: "operation_config list \<Rightarrow> bool list \<Rightarrow> int \<Rightarrow> nat \<Rightarrow> (nat \<times> bool) option" where
  "select_weighted [] excluded selected i = Some (0, False)"
| "select_weighted (x # xs) [] selected i = None"
| "select_weighted (x # xs) (e # es) selected i =
     (if e then select_weighted xs es selected (Suc i)
      else if selected < oc_weight x then Some (i, True)
      else select_weighted xs es (i64 (selected - oc_weight x)) (Suc i))"

type_synonym random_source = "int \<Rightarrow> rng \<Rightarrow> (int \<times> rng) option"

definition pickWeighted ::
  "operation_config list \<Rightarrow> bool list \<Rightarrow> random_source \<Rightarrow> rng \<Rightarrow> ((nat \<times> bool) \<times> rng) option" where
  "pickWeighted operations excluded random r =
     (case total_weight operations excluded 0 of
        None \<Rightarrow> None
      | Some totalWeight \<Rightarrow>
         if totalWeight = 0 then Some ((0, False), r)
         else
           (case random totalWeight r of
              None \<Rightarrow> None
            | Some (selected, r') \<Rightarrow>
               (case select_weighted operations excluded selected 0 of
                  None \<Rightarrow> None
                | Some pick \<Rightarrow> Some (pick, r'))))"

subsection \<open>The scheduler and its construction\<close>

type_synonym 'l limiter_call =
  "ctx \<Rightarrow> int \<Rightarrow> limit \<Rightarrow> int \<Rightarrow> 'l \<Rightarrow> (decision \<times> limiter_error option) \<times> 'l"

type_synonym 'e execute_call =
  "operation_config \<Rightarrow> 'e \<Rightarrow> ((execution_result \<times> exec_error option) \<times> 'e) option"

record ('l, 'c, 'e) scheduler =
  sc_profile :: timing
  sc_operations :: "operation_config list"
  sc_execute :: "'e execute_call"
  sc_random :: random_source
  sc_handle :: "execution_result \<Rightarrow> exec_error option \<Rightarrow> 'e \<Rightarrow> 'e"
  sc_wait :: "int \<Rightarrow> 'e \<Rightarrow> bool \<times> 'e"
  sc_limiter :: "'l limiter_call"
  sc_schedule :: "'c schedule_call"

text \<open>The options of \<open>NewScheduler\<close>; \<open>None\<close> stands for a nil argument.\<close>

datatype ('l, 'c, 'e) scheduler_option =
    WithWeightedRandomSource "random_source option"
  | WithExecutionHandler "(execution_result \<Rightarrow> exec_error option \<Rightarrow> 'e \<Rightarrow> 'e) option"
  | WithRateLimiter "'l limiter_call option"
  | WithRateSchedule "'c schedule_call option"

record ('l, 'c, 'e) scheduler_parts =
  pt_random :: random_source
  pt_handle :: "execution_result \<Rightarrow> exec_error option \<Rightarrow> 'e \<Rightarrow> 'e"
  pt_limiter :: "'l limiter_call"
  pt_schedule :: "'c schedule_call option"

definition given :: "'a option \<Rightarrow> 'a \<Rightarrow> 'a" where
  "given passed fallback = (case passed of None \<Rightarrow> fallback | Some x \<Rightarrow> x)"

fun apply_option ::
  "('l, 'c, 'e) scheduler_option \<Rightarrow> ('l, 'c, 'e) scheduler_parts \<Rightarrow> ('l, 'c, 'e) scheduler_parts" where
  "apply_option (WithWeightedRandomSource source) p = p\<lparr>pt_random := given source (pt_random p)\<rparr>"
| "apply_option (WithExecutionHandler handler) p = p\<lparr>pt_handle := given handler (pt_handle p)\<rparr>"
| "apply_option (WithRateLimiter limiter) p = p\<lparr>pt_limiter := given limiter (pt_limiter p)\<rparr>"
| "apply_option (WithRateSchedule schedule) p =
     p\<lparr>pt_schedule := (case schedule of None \<Rightarrow> pt_schedule p | Some s \<Rightarrow> Some s)\<rparr>"

datatype scheduler_error =
    SchedulerSchedule schedule_config_error
  | SchedulerProfile profile_config_error
  | SchedulerOperationCount
  | SchedulerWeight nat
  | SchedulerExecutorNil
  | SchedulerTrafficProfile profile_error
  | SchedulerExternalSchedule string

definition weight_error :: "nat \<Rightarrow> operation_config \<Rightarrow> scheduler_error option" where
  "weight_error i x = fail_if (oc_weight x < 1 \<or> 10000 < oc_weight x) (SchedulerWeight i)"

definition profile_of :: "rate_config \<Rightarrow> profile_config" where
  "profile_of rate =
     (case rc_profile rate of
        None \<Rightarrow> \<lparr>pc_type = '''', pc_min_burst_size = 0, pc_max_burst_size = 0, pc_delay_divisor = 0\<rparr>
      | Some p \<Rightarrow> \<lparr>pc_type = rp_type p, pc_min_burst_size = rp_min_burst_size p,
                   pc_max_burst_size = rp_max_burst_size p, pc_delay_divisor = rp_delay_divisor p\<rparr>)"

text \<open>
  \<open>log\<close>, \<open>wait\<close> and \<open>local\<close> are the defaults \<open>logExecution\<close>, \<open>waitWithTimer\<close> and a new local
  limiter, whose states live in \<open>'e\<close> and \<open>'l\<close>.
\<close>

definition NewScheduler ::
  "(execution_result \<Rightarrow> exec_error option \<Rightarrow> 'e \<Rightarrow> 'e) \<Rightarrow> (int \<Rightarrow> 'e \<Rightarrow> bool \<times> 'e) \<Rightarrow> 'l limiter_call
    \<Rightarrow> rate_config \<Rightarrow> operation_config list \<Rightarrow> 'e execute_call option
    \<Rightarrow> ('l, 'c, 'e) scheduler_option list \<Rightarrow> scheduler_error + ('l, 'c, 'e) scheduler" where
  "NewScheduler log wait local rate operations execute options =
     (case validateRateSchedule (rc_schedule rate) of
        Some e \<Rightarrow> Inl (SchedulerSchedule e)
      | None \<Rightarrow>
     case validateRateProfile (rc_profile rate) of
        Some e \<Rightarrow> Inl (SchedulerProfile e)
      | None \<Rightarrow>
     if operations = [] \<or> MaxOperations < length operations then Inl SchedulerOperationCount
     else case each_err weight_error 0 operations of
        Some e \<Rightarrow> Inl e
      | None \<Rightarrow>
     case execute of
        None \<Rightarrow> Inl SchedulerExecutorNil
      | Some run \<Rightarrow>
     case newProfile (profile_of rate) of
        Inl e \<Rightarrow> Inl (SchedulerTrafficProfile e)
      | Inr delayProfile \<Rightarrow>
         (let defaults = \<lparr>pt_random = rand_n, pt_handle = log, pt_limiter = local,
                pt_schedule = (if rs_type (rc_schedule rate) = ''fixed''
                   then Some (fixedRequestsPerMinute (rs_requests_per_minute (rc_schedule rate)))
                   else None)\<rparr>;
              parts = fold apply_option options defaults
          in case pt_schedule parts of
               None \<Rightarrow> Inl (SchedulerExternalSchedule (rs_type (rc_schedule rate)))
             | Some schedule \<Rightarrow>
                Inr \<lparr>sc_profile = delayProfile, sc_operations = operations, sc_execute = run,
                     sc_random = pt_random parts, sc_handle = pt_handle parts, sc_wait = wait,
                     sc_limiter = pt_limiter parts, sc_schedule = schedule\<rparr>))"

subsection \<open>Slots\<close>

record ('l, 'c, 'e) sched_state =
  sd_limiter :: 'l
  sd_schedule :: 'c
  sd_env :: 'e
  sd_rng :: rng
  sd_tape :: "nat \<Rightarrow> ctx \<times> int"

definition next_tape :: "('l, 'c, 'e) sched_state \<Rightarrow> ('l, 'c, 'e) sched_state" where
  "next_tape s = s\<lparr>sd_tape := (\<lambda>i. sd_tape s (Suc i))\<rparr>"

fun slot_attempts ::
  "('l, 'c, 'e) scheduler \<Rightarrow> nat \<Rightarrow> bool list \<Rightarrow> ('l, 'c, 'e) sched_state
    \<Rightarrow> ('l, 'c, 'e) sched_state option" where
  "slot_attempts sch 0 excluded s = Some s"
| "slot_attempts sch (Suc n) excluded s =
     (case pickWeighted (sc_operations sch) excluded (sc_random sch) (sd_rng s) of
        None \<Rightarrow> None
      | Some ((index, ok), r) \<Rightarrow>
         if \<not> ok then Some (s\<lparr>sd_rng := r\<rparr>)
         else
           (let operation = sc_operations sch ! index
            in case sc_execute sch operation (sd_env s) of
                 None \<Rightarrow> None
               | Some ((result, err), env) \<Rightarrow>
                  (let result = (if er_operation result = ''''
                                 then result\<lparr>er_operation := oc_name operation\<rparr> else result);
                       s' = s\<lparr>sd_rng := r, sd_env := sc_handle sch result err env\<rparr>
                   in if \<not> store_value_unavailable err then Some s'
                      else slot_attempts sch n (excluded[index := True]) s')))"

definition executeReservedSlot ::
  "('l, 'c, 'e) scheduler \<Rightarrow> ('l, 'c, 'e) sched_state \<Rightarrow> ('l, 'c, 'e) sched_state option" where
  "executeReservedSlot sch s =
     slot_attempts sch (length (sc_operations sch)) (replicate (length (sc_operations sch)) False) s"

definition currentRequestsPerMinute ::
  "('l, 'c, 'e) scheduler \<Rightarrow> ('l, 'c, 'e) sched_state \<Rightarrow> ((int \<times> bool) \<times> ('l, 'c, 'e) sched_state) option" where
  "currentRequestsPerMinute sch s =
     (case sc_schedule sch (fst (sd_tape s 0)) (snd (sd_tape s 0)) (sd_rng s) (sd_schedule s) of
        None \<Rightarrow> None
      | Some ((requestsPerMinute, err), r, c) \<Rightarrow>
         (let s' = next_tape (s\<lparr>sd_schedule := c, sd_rng := r\<rparr>)
          in if err \<noteq> None then Some ((0, False), s')
             else if requestsPerMinute < 1 \<or> MaxRequestsPerMinute < requestsPerMinute
             then Some ((0, False), s')
             else Some ((requestsPerMinute, True), s')))"

definition reserveBatch ::
  "('l, 'c, 'e) scheduler \<Rightarrow> int \<Rightarrow> ('l, 'c, 'e) sched_state
    \<Rightarrow> ((decision \<times> bool) \<times> ('l, 'c, 'e) sched_state) option" where
  "reserveBatch sch requestsPerMinute s =
     (case BatchSize (sc_profile sch) requestsPerMinute (sd_rng s) of
        None \<Rightarrow> None
      | Some (requestedPermits, r) \<Rightarrow>
         (let s1 = s\<lparr>sd_rng := r\<rparr>
          in if requestedPermits < 1 \<or> requestsPerMinute < requestedPermits
             then Some ((no_decision, False), s1)
             else
               (case sc_limiter sch (fst (sd_tape s1 0)) (snd (sd_tape s1 0))
                       \<lparr>lim_requests = requestsPerMinute, lim_window = minute\<rparr> requestedPermits (sd_limiter s1) of
                  ((d, err), l) \<Rightarrow>
                    (let s2 = next_tape (s1\<lparr>sd_limiter := l\<rparr>)
                     in if err \<noteq> None then Some ((no_decision, False), s2)
                        else if granted d < 0 \<or> requestedPermits < granted d
                        then Some ((no_decision, False), s2)
                        else Some ((d, True), s2)))))"

subsection \<open>The loop\<close>

definition wait_for ::
  "('l, 'c, 'e) scheduler \<Rightarrow> int \<Rightarrow> ('l, 'c, 'e) sched_state \<Rightarrow> bool \<times> ('l, 'c, 'e) sched_state" where
  "wait_for sch delay s = (case sc_wait sch delay (sd_env s) of (ok, env) \<Rightarrow> (ok, s\<lparr>sd_env := env\<rparr>))"

text \<open>
  The positions of one batch, \<open>k\<close> of them left; the flag says whether the loop of \<open>Run\<close> goes
  on.
\<close>

fun run_batch ::
  "('l, 'c, 'e) scheduler \<Rightarrow> int \<Rightarrow> decision \<Rightarrow> nat \<Rightarrow> int \<Rightarrow> ('l, 'c, 'e) sched_state
    \<Rightarrow> (bool \<times> ('l, 'c, 'e) sched_state) option" where
  "run_batch sch rpm d 0 position s = Some (True, s)"
| "run_batch sch rpm d (Suc k) position s =
     (case executeReservedSlot sch s of
        None \<Rightarrow> None
      | Some s1 \<Rightarrow>
         (case NextDelay (sc_profile sch)
                 \<lparr>dc_requests_per_minute = rpm, dc_position = position, dc_batch_size = granted d\<rparr>
                 (sd_rng s1) of
            None \<Rightarrow> None
          | Some (delay, r) \<Rightarrow>
             (let delay = (if position = granted d \<and> delay < retry_after d then retry_after d else delay)
              in case wait_for sch delay (s1\<lparr>sd_rng := r\<rparr>) of
                   (ok, s2) \<Rightarrow>
                     if \<not> ok then Some (False, s2)
                     else run_batch sch rpm d k (position + 1) s2)))"

text \<open>One iteration of the loop of \<open>Run\<close>; the flag is false where \<open>Run\<close> returns.\<close>

definition run_round ::
  "('l, 'c, 'e) scheduler \<Rightarrow> ('l, 'c, 'e) sched_state \<Rightarrow> (bool \<times> ('l, 'c, 'e) sched_state) option" where
  "run_round sch s =
     (case currentRequestsPerMinute sch s of
        None \<Rightarrow> None
      | Some ((rpm, ok), s1) \<Rightarrow>
         if \<not> ok then
           (if fst (sd_tape s1 0) \<noteq> None then Some (False, next_tape s1)
            else Some (wait_for sch second (next_tape s1)))
         else
           (case reserveBatch sch rpm s1 of
              None \<Rightarrow> None
            | Some ((d, ok), s2) \<Rightarrow>
               if \<not> ok then Some (wait_for sch second s2)
               else if granted d = 0 then
                 Some (wait_for sch (if retry_after d \<le> 0 then second else retry_after d) s2)
               else run_batch sch rpm d (nat (granted d)) 1 s2))"

text \<open>\<open>Run\<close> itself may go on forever; \<open>None\<close> is then no result (or a panic).\<close>

partial_function (option) Run ::
  "('l, 'c, 'e) scheduler \<Rightarrow> ('l, 'c, 'e) sched_state \<Rightarrow> ('l, 'c, 'e) sched_state option" where
  "Run sch s =
     (case run_round sch s of
        None \<Rightarrow> None
      | Some (continue, s') \<Rightarrow> if continue then Run sch s' else Some s')"

text \<open>Its first \<open>n\<close> rounds: whether it still runs afterwards, and the state.\<close>

fun run_rounds ::
  "('l, 'c, 'e) scheduler \<Rightarrow> nat \<Rightarrow> ('l, 'c, 'e) sched_state
    \<Rightarrow> (bool \<times> ('l, 'c, 'e) sched_state) option" where
  "run_rounds sch 0 s = Some (True, s)"
| "run_rounds sch (Suc n) s =
     (case run_round sch s of
        None \<Rightarrow> None
      | Some (continue, s') \<Rightarrow> if continue then run_rounds sch n s' else Some (False, s'))"

text \<open>\<open>executeSlot\<close> runs one reserved batch without delays.\<close>

fun run_slots ::
  "('l, 'c, 'e) scheduler \<Rightarrow> nat \<Rightarrow> ('l, 'c, 'e) sched_state \<Rightarrow> ('l, 'c, 'e) sched_state option" where
  "run_slots sch 0 s = Some s"
| "run_slots sch (Suc k) s =
     (case executeReservedSlot sch s of None \<Rightarrow> None | Some s' \<Rightarrow> run_slots sch k s')"

definition executeSlot ::
  "('l, 'c, 'e) scheduler \<Rightarrow> ('l, 'c, 'e) sched_state \<Rightarrow> ('l, 'c, 'e) sched_state option" where
  "executeSlot sch s =
     (case currentRequestsPerMinute sch s of
        None \<Rightarrow> None
      | Some ((rpm, ok), s1) \<Rightarrow>
         if \<not> ok then Some s1
         else
           (case reserveBatch sch rpm s1 of
              None \<Rightarrow> None
            | Some ((d, ok), s2) \<Rightarrow>
               if \<not> ok then Some s2 else run_slots sch (nat (granted d)) s2))"

subsection \<open>Weighted selection is exact\<close>

definition weights_ok :: "operation_config list \<Rightarrow> bool" where
  "weights_ok xs \<longleftrightarrow> list_all (\<lambda>x. 1 \<le> oc_weight x \<and> oc_weight x \<le> 10000) xs"

fun open_weight :: "operation_config list \<Rightarrow> bool list \<Rightarrow> int" where
  "open_weight (x # xs) (e # es) = (if e then 0 else oc_weight x) + open_weight xs es"
| "open_weight _ _ = 0"

lemma weights_ok_simps [simp]:
  "weights_ok []"
  "weights_ok (x # xs) \<longleftrightarrow> 1 \<le> oc_weight x \<and> oc_weight x \<le> 10000 \<and> weights_ok xs"
  by (simp_all add: weights_ok_def)

lemma open_weight_bounds:
  "weights_ok xs \<Longrightarrow> 0 \<le> open_weight xs es \<and> open_weight xs es \<le> 10000 * int (length xs)"
  by (induction xs es rule: open_weight.induct) auto

lemma total_weight_open:
  assumes "length es = length xs" and "weights_ok xs" and "0 \<le> acc"
    and "acc + 10000 * int (length xs) \<le> max_int64"
  shows "total_weight xs es acc = Some (acc + open_weight xs es)"
  using assms
proof (induction es xs arbitrary: acc rule: list_induct2)
  case Nil
  then show ?case by simp
next
  case (Cons e es x xs)
  have "i64 (acc + oc_weight x) = acc + oc_weight x"
    using Cons.prems by (intro i64_id) (auto simp: max_int64_def)
  then show ?case using Cons.prems Cons.IH [of acc] Cons.IH [of "acc + oc_weight x"] by (cases e) simp_all
qed

text \<open>\<open>before k\<close>: the weight of the open operations in front of the \<open>k\<close>-th.\<close>

definition before :: "operation_config list \<Rightarrow> bool list \<Rightarrow> nat \<Rightarrow> int" where
  "before xs es k = open_weight (take k xs) (take k es)"

lemma before_simps [simp]:
  "before xs es 0 = 0"
  "before (x # xs) (e # es) (Suc k) = (if e then 0 else oc_weight x) + before xs es k"
  by (simp_all add: before_def)

lemma before_Suc:
  "length es = length xs \<Longrightarrow> k < length xs \<Longrightarrow>
    before xs es (Suc k) = before xs es k + (if es ! k then 0 else oc_weight (xs ! k))"
proof (induction es xs arbitrary: k rule: list_induct2)
  case Nil
  then show ?case by simp
next
  case (Cons e es x xs)
  then show ?case by (cases k) simp_all
qed

lemma before_mono:
  assumes "length es = length xs" and "weights_ok xs" and "j \<le> k" and "k \<le> length xs"
  shows "before xs es j \<le> before xs es k"
  using assms(3,4)
proof (induction k)
  case 0
  then show ?case by simp
next
  case (Suc k)
  have "xs ! k \<in> set xs" using Suc.prems by simp
  then have "0 \<le> oc_weight (xs ! k)" using assms(2) by (force simp: weights_ok_def list_all_iff)
  then show ?case
    using Suc before_Suc [OF assms(1), of k] by (cases "j = Suc k") auto
qed

lemma before_all: "length es = length xs \<Longrightarrow> before xs es (length xs) = open_weight xs es"
  by (simp add: before_def)

lemma select_weighted_interval:
  assumes "length es = length xs" and "weights_ok xs"
    and "0 \<le> d" and "d < open_weight xs es" and "d \<le> max_int64"
  shows "\<exists>k < length xs. select_weighted xs es d i = Some (i + k, True)
    \<and> \<not> es ! k \<and> before xs es k \<le> d \<and> d < before xs es (Suc k)"
  using assms
proof (induction es xs arbitrary: d i rule: list_induct2)
  case Nil
  then show ?case by simp
next
  case (Cons e es x xs)
  have step: "\<exists>k < length (x # xs). select_weighted xs es d' (Suc i) = Some (i + k, True)
      \<and> \<not> (e # es) ! k \<and> before (x # xs) (e # es) k \<le> d \<and> d < before (x # xs) (e # es) (Suc k)"
    if d: "d' = d - (if e then 0 else oc_weight x)" and "0 \<le> d'" for d'
  proof -
    have "weights_ok xs" "d' < open_weight xs es" "d' \<le> max_int64" using Cons.prems d by (auto split: if_splits)
    from Cons.IH [OF this(1) \<open>0 \<le> d'\<close> this(2,3), of "Suc i"] obtain k where
      "k < length xs" "select_weighted xs es d' (Suc i) = Some (Suc i + k, True)" "\<not> es ! k"
      "before xs es k \<le> d'" "d' < before xs es (Suc k)" by blast
    then show ?thesis using d by (intro exI [of _ "Suc k"]) simp
  qed
  show ?case
  proof (cases "\<not> e \<and> d < oc_weight x")
    case True
    then show ?thesis using Cons.prems by (intro exI [of _ 0]) simp
  next
    case False
    define d' where "d' = d - (if e then 0 else oc_weight x)"
    have "0 \<le> d'" using False Cons.prems by (auto simp: d'_def)
    moreover have "\<not> e \<Longrightarrow> i64 (d - oc_weight x) = d'"
      using \<open>0 \<le> d'\<close> Cons.prems by (auto simp: d'_def max_int64_def intro!: i64_id)
    ultimately show ?thesis
      using step [OF d'_def] False by (cases e) (auto simp: d'_def)
  qed
qed

lemma select_weighted_iff:
  assumes "length es = length xs" and "weights_ok xs" and "k < length xs"
    and "0 \<le> d" and "d < open_weight xs es" and "d \<le> max_int64"
  shows "select_weighted xs es d 0 = Some (k, True) \<longleftrightarrow> before xs es k \<le> d \<and> d < before xs es (Suc k)"
proof -
  obtain j where j: "j < length xs" "select_weighted xs es d 0 = Some (j, True)"
    "before xs es j \<le> d" "d < before xs es (Suc j)"
    using select_weighted_interval [OF assms(1,2,4,5,6), of 0] by auto
  have "k = j" if "before xs es k \<le> d" "d < before xs es (Suc k)"
  proof (rule ccontr)
    assume "k \<noteq> j"
    then consider "Suc k \<le> j" | "Suc j \<le> k" by linarith
    then show False
      using before_mono [OF assms(1,2), of "Suc k" j] before_mono [OF assms(1,2), of "Suc j" k]
        j assms(3) that by cases auto
  qed
  with j show ?thesis by auto
qed

lemma pickWeighted_cases:
  assumes "length es = length xs" and "weights_ok xs" and "length xs \<le> MaxOperations"
  shows "open_weight xs es = 0 \<Longrightarrow> pickWeighted xs es random r = Some ((0, False), r)"
    and "0 < open_weight xs es \<Longrightarrow> \<exists>k d. k < length xs \<and> \<not> es ! k
      \<and> pickWeighted xs es rand_n r = Some ((k, True), \<lambda>i. r (Suc i))
      \<and> d = int (r 0) mod open_weight xs es \<and> select_weighted xs es d 0 = Some (k, True)"
proof -
  have len: "10000 * int (length xs) \<le> max_int64"
    using assms(3) by (simp add: max_int64_def MaxOperations_def)
  have t: "total_weight xs es 0 = Some (open_weight xs es)"
    using total_weight_open [OF assms(1,2), of 0] len by simp
  show "pickWeighted xs es random r = Some ((0, False), r)" if "open_weight xs es = 0"
    using that t by (simp add: pickWeighted_def)
  show "\<exists>k d. k < length xs \<and> \<not> es ! k \<and> pickWeighted xs es rand_n r = Some ((k, True), \<lambda>i. r (Suc i))
      \<and> d = int (r 0) mod open_weight xs es \<and> select_weighted xs es d 0 = Some (k, True)"
    if pos: "0 < open_weight xs es"
  proof -
    let ?d = "int (r 0) mod open_weight xs es"
    have d: "0 \<le> ?d" "?d < open_weight xs es" "?d \<le> max_int64"
      using pos open_weight_bounds [OF assms(2), of es] len
      by (auto intro: order.trans [OF less_imp_le [OF pos_mod_bound]])
    obtain k where "k < length xs" "\<not> es ! k" "select_weighted xs es ?d 0 = Some (k, True)"
      using select_weighted_interval [OF assms(1,2) d, of 0] by auto
    then show ?thesis using pos t by (auto simp: pickWeighted_def rand_n_def)
  qed
qed

text \<open>C20. The weighted choice is exact: among the draws a random source can return, exactly as many
  select an operation as its weight says, none selects an excluded one, and the choice never
  panics and finds an operation as long as one is left.\<close>

theorem weighted_pick_distribution:
  assumes "length excluded = length operations" and "weights_ok operations"
    and "length operations \<le> MaxOperations" and "k < length operations"
  shows "card {d. d < nat (open_weight operations excluded)
        \<and> (\<exists>r. pickWeighted operations excluded rand_n (\<lambda>_. d) = Some ((k, True), r))}
      = (if excluded ! k then 0 else nat (oc_weight (operations ! k)))
    \<and> (\<exists>i r'. pickWeighted operations excluded rand_n r = Some ((i, list_ex Not excluded), r'))"
proof (rule conjI)
  let ?W = "open_weight operations excluded" and ?b = "before operations excluded"
  note cases = pickWeighted_cases [OF assms(1,2,3)]
  have W: "0 \<le> ?W" "?W \<le> max_int64"
    using open_weight_bounds [OF assms(2), of excluded] assms(3) by (auto simp: max_int64_def MaxOperations_def)
  have b: "0 \<le> ?b k" "?b (Suc k) \<le> ?W" "?b k \<le> ?b (Suc k)"
    using before_mono [OF assms(1,2), of 0 k] before_mono [OF assms(1,2), of "Suc k" "length operations"]
      before_mono [OF assms(1,2), of k "Suc k"] before_all [OF assms(1)] assms(4) by simp_all
  have "(\<exists>r. pickWeighted operations excluded rand_n (\<lambda>_. d) = Some ((k, True), r))
      \<longleftrightarrow> nat (?b k) \<le> d \<and> d < nat (?b (Suc k))" if "d < nat ?W" for d
  proof -
    have pos: "0 < ?W" and d: "int d < ?W" "int d mod ?W = int d" using that by auto
    obtain j where "pickWeighted operations excluded rand_n (\<lambda>_. d) = Some ((j, True), \<lambda>_. d)"
      "select_weighted operations excluded (int d) 0 = Some (j, True)"
      using cases(2) [OF pos, of "\<lambda>_. d"] d by auto
    then have "(\<exists>r. pickWeighted operations excluded rand_n (\<lambda>_. d) = Some ((k, True), r))
        \<longleftrightarrow> select_weighted operations excluded (int d) 0 = Some (k, True)" by auto
    also have "\<dots> \<longleftrightarrow> ?b k \<le> int d \<and> int d < ?b (Suc k)"
      using d W by (intro select_weighted_iff [OF assms(1,2,4)]) auto
    finally show ?thesis using b by auto
  qed
  note drawn = this
  have "{d. d < nat ?W \<and> (\<exists>r. pickWeighted operations excluded rand_n (\<lambda>_. d) = Some ((k, True), r))}
      = {nat (?b k) ..< nat (?b (Suc k))}" (is "?drawn = _")
  proof (intro set_eqI iffI)
    fix d assume "d \<in> ?drawn"
    then show "d \<in> {nat (?b k) ..< nat (?b (Suc k))}" using drawn [of d] by simp
  next
    fix d assume "d \<in> {nat (?b k) ..< nat (?b (Suc k))}"
    moreover from this have "d < nat ?W" using b by auto
    ultimately show "d \<in> ?drawn" using drawn [of d] by simp
  qed
  moreover have "nat (?b (Suc k)) - nat (?b k) = (if excluded ! k then 0 else nat (oc_weight (operations ! k)))"
    using before_Suc [OF assms(1,4)] b by (simp add: nat_diff_distrib' del: before_simps) linarith
  ultimately show "card {d. d < nat ?W \<and> (\<exists>r. pickWeighted operations excluded rand_n (\<lambda>_. d) = Some ((k, True), r))}
      = (if excluded ! k then 0 else nat (oc_weight (operations ! k)))" by simp
  have "0 < ?W \<longleftrightarrow> list_ex Not excluded"
    using assms(1,2)
  proof (induction excluded operations rule: list_induct2)
    case (Cons e es x xs)
    then show ?case using open_weight_bounds [of xs es] by auto
  qed simp
  then show "\<exists>i r'. pickWeighted operations excluded rand_n r = Some ((i, list_ex Not excluded), r')"
    using cases(1) [of rand_n r] cases(2) [of r] W(1) by (cases "0 < ?W") auto
qed

theorem weighted_pick_distribution_witness:
  "card {d. d < nat (open_weight [ping_operation, ping_operation] [True, False])
        \<and> (\<exists>r. pickWeighted [ping_operation, ping_operation] [True, False] rand_n (\<lambda>_. d) = Some ((1, True), r))} = 1"
  using weighted_pick_distribution [of "[True, False]" "[ping_operation, ping_operation]" 1]
  by (simp add: ping_operation_def MaxOperations_def)

subsection \<open>No panic, and termination\<close>

lemma NextDelay_total:
  assumes "timing_ok t" and "1 \<le> dc_requests_per_minute x" and "dc_requests_per_minute x \<le> 6000"
  shows "NextDelay t x r \<noteq> None"
proof (cases t)
  case FixedProfile
  then show ?thesis using assms by (simp add: meanDelay_eq)
next
  case UniformProfile
  then show ?thesis using NextDelay_uniform [OF assms(2,3) refl, of r] by auto
next
  case (BurstProfile minB maxB d)
  then have "d \<noteq> 0" using assms(1) by auto
  then show ?thesis using BurstProfile assms by (simp add: meanDelay_eq go_quot_def)
qed

text \<open>
  The contract between the scheduler and what it calls: a limiter with windows of a minute, a
  rate schedule, and an executor, handler and timer that keep their own invariant.
\<close>

locale scheduler_runtime = permit_limiter acquire inv_l minute + rate_schedule rpm_call inv_c lo hi
  for acquire :: "'l limiter_call" and inv_l :: "'l \<Rightarrow> bool"
    and rpm_call :: "'c schedule_call" and inv_c :: "'c \<Rightarrow> bool" and lo hi :: int +
  fixes sch :: "('l, 'c, 'e) scheduler" and inv_e :: "'e \<Rightarrow> bool"
  assumes wired: "sc_limiter sch = acquire" "sc_schedule sch = rpm_call" "sc_random sch = rand_n"
    and profile_ok: "timing_ok (sc_profile sch)"
    and operations_ok: "weights_ok (sc_operations sch)" "length (sc_operations sch) \<le> MaxOperations"
    and execute_total: "inv_e e \<Longrightarrow> x \<in> set (sc_operations sch) \<Longrightarrow> sc_execute sch x e \<noteq> None"
    and execute_inv: "inv_e e \<Longrightarrow> x \<in> set (sc_operations sch) \<Longrightarrow> sc_execute sch x e = Some (r, e') \<Longrightarrow> inv_e e'"
    and handle_inv: "inv_e e \<Longrightarrow> inv_e (sc_handle sch res err e)"
    and wait_inv: "inv_e e \<Longrightarrow> inv_e (snd (sc_wait sch delay e))"
begin

definition good :: "('l, 'c, 'e) sched_state \<Rightarrow> bool" where
  "good s \<longleftrightarrow> inv_l (sd_limiter s) \<and> inv_c (sd_schedule s) \<and> inv_e (sd_env s)"

lemma slot_attempts_total:
  "good s \<Longrightarrow> length excluded = length (sc_operations sch) \<Longrightarrow>
    \<exists>s'. slot_attempts sch n excluded s = Some s' \<and> good s'"
proof (induction n arbitrary: excluded s)
  case 0
  then show ?case by auto
next
  case (Suc n)
  note cases = pickWeighted_cases [OF Suc.prems(2) operations_ok, where r = "sd_rng s"]
  show ?case
  proof (cases "0 < open_weight (sc_operations sch) excluded")
    case False
    then have "open_weight (sc_operations sch) excluded = 0"
      using open_weight_bounds [OF operations_ok(1), of excluded] by simp
    then show ?thesis using cases(1) [of rand_n] Suc.prems by (simp add: wired good_def)
  next
    case True
    obtain k where k: "k < length (sc_operations sch)"
      "pickWeighted (sc_operations sch) excluded rand_n (sd_rng s) = Some ((k, True), \<lambda>i. sd_rng s (Suc i))"
      using cases(2) [OF True] by blast
    let ?x = "sc_operations sch ! k"
    have mem: "?x \<in> set (sc_operations sch)" using k(1) by simp
    have env: "inv_e (sd_env s)" using Suc.prems(1) by (simp add: good_def)
    obtain res err env' where run: "sc_execute sch ?x (sd_env s) = Some ((res, err), env')"
      using execute_total [OF env mem] by (metis option.exhaust prod.exhaust)
    define s' where "s' = s\<lparr>sd_rng := \<lambda>i. sd_rng s (Suc i),
      sd_env := sc_handle sch (if er_operation res = '''' then res\<lparr>er_operation := oc_name ?x\<rparr> else res) err env'\<rparr>"
    have good': "good s'"
      using Suc.prems(1) handle_inv [OF execute_inv [OF env mem run]] by (simp add: good_def s'_def)
    have "slot_attempts sch (Suc n) excluded s =
        (if \<not> store_value_unavailable err then Some s' else slot_attempts sch n (excluded[k := True]) s')"
      using k run by (simp add: wired Let_def s'_def)
    then show ?thesis using good' Suc.IH [OF good', of "excluded[k := True]"] Suc.prems(2) by simp
  qed
qed

lemma executeReservedSlot_total: "good s \<Longrightarrow> \<exists>s'. executeReservedSlot sch s = Some s' \<and> good s'"
  unfolding executeReservedSlot_def by (rule slot_attempts_total) simp_all

lemma currentRequestsPerMinute_total:
  assumes "good s"
  obtains rpm ok s' where "currentRequestsPerMinute sch s = Some ((rpm, ok), s')" "good s'"
    "ok \<Longrightarrow> 1 \<le> rpm \<and> rpm \<le> MaxRequestsPerMinute" "sd_env s' = sd_env s"
proof -
  have c: "inv_c (sd_schedule s)" using assms by (simp add: good_def)
  obtain n err r c' where run: "rpm_call (fst (sd_tape s 0)) (snd (sd_tape s 0)) (sd_rng s) (sd_schedule s)
      = Some ((n, err), r, c')"
    using schedule_total [OF c] by (metis option.exhaust prod.exhaust)
  have "inv_c c'" by (rule schedule_inv [OF c run])
  then have "\<exists>rpm ok s'. currentRequestsPerMinute sch s = Some ((rpm, ok), s') \<and> good s'
      \<and> (ok \<longrightarrow> 1 \<le> rpm \<and> rpm \<le> MaxRequestsPerMinute) \<and> sd_env s' = sd_env s"
    using run assms by (auto simp: currentRequestsPerMinute_def wired Let_def next_tape_def good_def)
  then show ?thesis using that by blast
qed

lemma reserveBatch_total:
  assumes "good s" and "1 \<le> rpm" and "rpm \<le> MaxRequestsPerMinute"
  obtains d ok s' where "reserveBatch sch rpm s = Some ((d, ok), s')" "good s'" "sd_env s' = sd_env s"
    "ok \<Longrightarrow> 0 \<le> granted d"
proof -
  have fits: "limit_fits minute \<lparr>lim_requests = rpm, lim_window = minute\<rparr>"
    using assms(3) by (simp add: limit_fits_def MaxRequestsPerMinute_def max_int64_def)
  obtain b r where b: "BatchSize (sc_profile sch) rpm (sd_rng s) = Some (b, r)"
    using BatchSize_total [OF profile_ok assms(2), of "sd_rng s"] assms(3)
    by (auto simp: MaxRequestsPerMinute_def max_int64_def)
  obtain d err l where acq: "acquire (fst (sd_tape s 0)) (snd (sd_tape s 0))
      \<lparr>lim_requests = rpm, lim_window = minute\<rparr> b (sd_limiter s) = ((d, err), l)"
    by (metis prod.exhaust)
  have "inv_l l"
    using acquire_inv [OF _ fits, of "sd_limiter s" "fst (sd_tape s 0)" "snd (sd_tape s 0)" b] assms(1) acq
    by (simp add: good_def)
  then have "\<exists>d ok s'. reserveBatch sch rpm s = Some ((d, ok), s') \<and> good s' \<and> sd_env s' = sd_env s
      \<and> (ok \<longrightarrow> 0 \<le> granted d)"
    using b acq assms(1) by (auto simp: reserveBatch_def wired Let_def next_tape_def good_def)
  then show ?thesis using that by blast
qed

lemma wait_for_good: "good s \<Longrightarrow> good (snd (wait_for sch delay s))"
  using wait_inv by (simp add: wait_for_def good_def split: prod.splits) (metis snd_conv)

lemma run_batch_total:
  assumes "good s" and "1 \<le> rpm" and "rpm \<le> MaxRequestsPerMinute"
  shows "\<exists>b s'. run_batch sch rpm d k position s = Some (b, s') \<and> good s'"
  using assms(1)
proof (induction k arbitrary: position s)
  case 0
  then show ?case by auto
next
  case (Suc k)
  obtain s1 where s1: "executeReservedSlot sch s = Some s1" "good s1"
    using executeReservedSlot_total [OF Suc.prems] by blast
  let ?x = "\<lparr>dc_requests_per_minute = rpm, dc_position = position, dc_batch_size = granted d\<rparr>"
  obtain delay r where dl: "NextDelay (sc_profile sch) ?x (sd_rng s1) = Some (delay, r)"
    using NextDelay_total [OF profile_ok, of ?x "sd_rng s1"] assms(2,3)
    by (auto simp: MaxRequestsPerMinute_def)
  define delay' where "delay' = (if position = granted d \<and> delay < retry_after d then retry_after d else delay)"
  have g: "good (s1\<lparr>sd_rng := r\<rparr>)" using s1(2) by (simp add: good_def)
  obtain ok s2 where w: "wait_for sch delay' (s1\<lparr>sd_rng := r\<rparr>) = (ok, s2)" by (cases "wait_for sch delay' (s1\<lparr>sd_rng := r\<rparr>)")
  have "good s2" using wait_for_good [OF g, of delay'] w by simp
  then show ?case
    using Suc.IH [of s2 "position + 1"] s1(1) dl w by (cases ok) (auto simp: Let_def delay'_def)
qed

lemma run_round_total:
  assumes "good s"
  shows "\<exists>b s'. run_round sch s = Some (b, s') \<and> good s'"
proof -
  obtain rpm ok s1 where c: "currentRequestsPerMinute sch s = Some ((rpm, ok), s1)" "good s1"
    "ok \<Longrightarrow> 1 \<le> rpm \<and> rpm \<le> MaxRequestsPerMinute"
    using currentRequestsPerMinute_total [OF assms] by metis
  have tape: "good (next_tape s1)" using c(2) by (simp add: good_def next_tape_def)
  show ?thesis
  proof (cases ok)
    case False
    obtain b s' where w: "wait_for sch second (next_tape s1) = (b, s')"
      by (cases "wait_for sch second (next_tape s1)")
    have "good s'" using wait_for_good [OF tape, of second] w by simp
    then show ?thesis
      using False c(1) tape w by (cases "fst (sd_tape s1 0)") (auto simp: run_round_def)
  next
    case True
    then have rpm: "1 \<le> rpm" "rpm \<le> MaxRequestsPerMinute" using c(3) by simp_all
    obtain d ok' s2 where r: "reserveBatch sch rpm s1 = Some ((d, ok'), s2)" "good s2"
      using reserveBatch_total [OF c(2) rpm] by metis
    have w: "\<exists>b s'. wait_for sch delay s2 = (b, s') \<and> good s'" for delay
      using wait_for_good [OF r(2), of delay] by (cases "wait_for sch delay s2") simp
    show ?thesis
      using True c(1) r(1) w run_batch_total [OF r(2) rpm, of d] by (simp add: run_round_def)
  qed
qed

lemma run_rounds_total:
  "good s \<Longrightarrow> \<exists>b s'. run_rounds sch n s = Some (b, s') \<and> good s'"
proof (induction n arbitrary: s)
  case 0
  then show ?case by auto
next
  case (Suc n)
  obtain b s1 where r: "run_round sch s = Some (b, s1)" "good s1" using run_round_total [OF Suc.prems] by blast
  then show ?case using Suc.IH [OF r(2)] by (cases b) auto
qed

end

text \<open>\<open>left e\<close> bounds how often a wait can still succeed: the context is cancelled at some time.\<close>

locale cancelled_runtime = scheduler_runtime acquire inv_l rpm_call inv_c lo hi sch inv_e
  for acquire :: "'l limiter_call" and inv_l :: "'l \<Rightarrow> bool"
    and rpm_call :: "'c schedule_call" and inv_c :: "'c \<Rightarrow> bool" and lo hi :: int
    and sch :: "('l, 'c, 'e) scheduler" and inv_e :: "'e \<Rightarrow> bool" +
  fixes left :: "'e \<Rightarrow> nat"
  assumes wait_uses: "sc_wait sch delay e = (True, e') \<Longrightarrow> left e' < left e"
    and execute_keeps: "sc_execute sch x e = Some (r, e') \<Longrightarrow> left e' \<le> left e"
    and handle_keeps: "left (sc_handle sch res err e) \<le> left e"
begin

lemma slot_attempts_left:
  "slot_attempts sch n excluded s = Some s' \<Longrightarrow> left (sd_env s') \<le> left (sd_env s)"
proof (induction n arbitrary: excluded s)
  case 0
  then show ?case by simp
next
  case (Suc n)
  from Suc.prems show ?case
    by (auto simp: Let_def split: option.splits prod.splits if_splits
        dest!: Suc.IH execute_keeps intro: order.trans [OF handle_keeps] order.trans [OF order.trans [OF _ handle_keeps]])
qed

lemma wait_for_left: "wait_for sch delay s = (True, s') \<Longrightarrow> left (sd_env s') < left (sd_env s)"
  using wait_uses by (auto simp: wait_for_def split: prod.splits)

lemma run_batch_left:
  "run_batch sch rpm d k position s = Some (True, s') \<Longrightarrow>
    left (sd_env s') \<le> left (sd_env s) \<and> (0 < k \<longrightarrow> left (sd_env s') < left (sd_env s))"
proof (induction k arbitrary: position s)
  case 0
  then show ?case by simp
next
  case (Suc k)
  obtain s1 where s1: "executeReservedSlot sch s = Some s1"
    using Suc.prems by (auto split: option.splits)
  obtain delay r where dl: "NextDelay (sc_profile sch)
      \<lparr>dc_requests_per_minute = rpm, dc_position = position, dc_batch_size = granted d\<rparr> (sd_rng s1) = Some (delay, r)"
    using Suc.prems s1 by (auto split: option.splits)
  define delay' where "delay' = (if position = granted d \<and> delay < retry_after d then retry_after d else delay)"
  obtain s2 where w: "wait_for sch delay' (s1\<lparr>sd_rng := r\<rparr>) = (True, s2)"
    and rest: "run_batch sch rpm d k (position + 1) s2 = Some (True, s')"
    using Suc.prems s1 dl by (auto simp: Let_def delay'_def split: prod.splits if_splits)
  have "left (sd_env s1) \<le> left (sd_env s)"
    using s1 slot_attempts_left unfolding executeReservedSlot_def by blast
  moreover have "left (sd_env s2) < left (sd_env s1)" using wait_for_left [OF w] by simp
  ultimately show ?case using Suc.IH [OF rest] by linarith
qed

lemma run_round_left:
  assumes "good s" and "run_round sch s = Some (True, s')"
  shows "left (sd_env s') < left (sd_env s)"
proof -
  obtain rpm ok s1 where c: "currentRequestsPerMinute sch s = Some ((rpm, ok), s1)" "good s1"
    "ok \<Longrightarrow> 1 \<le> rpm \<and> rpm \<le> MaxRequestsPerMinute" "sd_env s1 = sd_env s"
    using currentRequestsPerMinute_total [OF assms(1)] by metis
  show ?thesis
  proof (cases ok)
    case False
    then have "wait_for sch second (next_tape s1) = (True, s')"
      using assms(2) c(1) by (auto simp: run_round_def split: if_splits)
    then show ?thesis using wait_for_left c(4) by (fastforce simp: next_tape_def)
  next
    case True
    then have rpm: "1 \<le> rpm" "rpm \<le> MaxRequestsPerMinute" using c(3) by simp_all
    obtain d ok' s2 where r: "reserveBatch sch rpm s1 = Some ((d, ok'), s2)" "sd_env s2 = sd_env s1"
      "ok' \<Longrightarrow> 0 \<le> granted d"
      using reserveBatch_total [OF c(2) rpm] by metis
    consider (failed) delay where "wait_for sch delay s2 = (True, s')"
      | (batch) "run_batch sch rpm d (nat (granted d)) 1 s2 = Some (True, s')" "0 < nat (granted d)"
      using assms(2) c(1) True r by (fastforce simp: run_round_def split: if_splits)
    then show ?thesis
    proof cases
      case failed
      then show ?thesis using wait_for_left r(2) c(4) by metis
    next
      case batch
      then show ?thesis using run_batch_left r(2) c(4) by metis
    qed
  qed
qed

lemma Run_terminates: "good s \<Longrightarrow> \<exists>s'. Run sch s = Some s'"
proof (induction "left (sd_env s)" arbitrary: s rule: less_induct)
  case less
  obtain b s1 where r: "run_round sch s = Some (b, s1)" "good s1" using run_round_total [OF less.prems] by blast
  show ?case
  proof (cases b)
    case True
    then have "left (sd_env s1) < left (sd_env s)" using run_round_left [OF less.prems] r(1) by simp
    then obtain s' where "Run sch s1 = Some s'" using less.hyps [OF _ r(2)] by blast
    then show ?thesis using r True by (subst Run.simps) simp
  next
    case False
    then show ?thesis using r by (subst Run.simps) simp
  qed
qed

end

subsection \<open>What a run does: its log\<close>

text \<open>
  The same scheduler with its calls written down: the executions and waits in the order they
  happen, and the permits each call of the limiter yields.
\<close>

datatype event = Executed operation_config "exec_error option" | Waited int bool

definition log_execute :: "'e execute_call \<Rightarrow> ('e \<times> event list) execute_call" where
  "log_execute f x e =
     (case f x (fst e) of
        None \<Rightarrow> None
      | Some ((res, err), e') \<Rightarrow> Some ((res, err), (e', snd e @ [Executed x err])))"

definition log_wait :: "(int \<Rightarrow> 'e \<Rightarrow> bool \<times> 'e) \<Rightarrow> int \<Rightarrow> 'e \<times> event list \<Rightarrow> bool \<times> 'e \<times> event list" where
  "log_wait f d e = (case f d (fst e) of (ok, e') \<Rightarrow> (ok, (e', snd e @ [Waited d ok])))"

definition log_limiter :: "'l limiter_call \<Rightarrow> ('l \<times> int list) limiter_call" where
  "log_limiter f ctx now lim p l =
     (case f ctx now lim p (fst l) of
        ((d, err), l') \<Rightarrow>
          ((d, err), (l', snd l @ (if err = None \<and> 0 \<le> granted d \<and> granted d \<le> p then [granted d] else []))))"

definition logged :: "('l, 'c, 'e) scheduler \<Rightarrow> ('l \<times> int list, 'c, 'e \<times> event list) scheduler" where
  "logged sch = \<lparr>sc_profile = sc_profile sch, sc_operations = sc_operations sch,
     sc_execute = log_execute (sc_execute sch), sc_random = sc_random sch,
     sc_handle = (\<lambda>res err e. (sc_handle sch res err (fst e), snd e)),
     sc_wait = log_wait (sc_wait sch), sc_limiter = log_limiter (sc_limiter sch),
     sc_schedule = sc_schedule sch\<rparr>"

text \<open>An execution that did not report a missing store value may have sent a request.\<close>

fun is_served :: "event \<Rightarrow> bool" where
  "is_served (Executed x err) \<longleftrightarrow> \<not> store_value_unavailable err"
| "is_served (Waited d ok) \<longleftrightarrow> False"

definition served :: "('l \<times> int list, 'c, 'e \<times> event list) sched_state \<Rightarrow> int" where
  "served s = int (length (filter is_served (snd (sd_env s))))"

definition permits :: "('l \<times> int list, 'c, 'e \<times> event list) sched_state \<Rightarrow> int" where
  "permits s = sum_list (snd (sd_limiter s))"

lemma logged_fields [simp]:
  "sc_profile (logged sch) = sc_profile sch" "sc_operations (logged sch) = sc_operations sch"
  "sc_random (logged sch) = sc_random sch" "sc_schedule (logged sch) = sc_schedule sch"
  "sc_execute (logged sch) = log_execute (sc_execute sch)" "sc_wait (logged sch) = log_wait (sc_wait sch)"
  "sc_limiter (logged sch) = log_limiter (sc_limiter sch)"
  "sc_handle (logged sch) res err e = (sc_handle sch res err (fst e), snd e)"
  by (simp_all add: logged_def)

lemma slot_served:
  "slot_attempts (logged sch) n excluded s = Some s' \<Longrightarrow>
    served s' \<le> served s + 1 \<and> permits s' = permits s"
proof (induction n arbitrary: excluded s)
  case 0
  then show ?case by simp
next
  case (Suc n)
  obtain k ok r where pick: "pickWeighted (sc_operations sch) excluded (sc_random sch) (sd_rng s) = Some ((k, ok), r)"
    using Suc.prems by (auto split: option.splits)
  show ?case
  proof (cases ok)
    case False
    then show ?thesis using Suc.prems pick by (auto simp: served_def permits_def)
  next
    case True
    let ?x = "sc_operations sch ! k"
    obtain res err e where run: "sc_execute sch ?x (fst (sd_env s)) = Some ((res, err), e)"
      using Suc.prems pick True by (auto simp: log_execute_def Let_def split: option.splits)
    define s1 where "s1 = s\<lparr>sd_rng := r, sd_env :=
      (sc_handle sch (if er_operation res = '''' then res\<lparr>er_operation := oc_name ?x\<rparr> else res) err e,
       snd (sd_env s) @ [Executed ?x err])\<rparr>"
    have s': "(if \<not> store_value_unavailable err then Some s1
        else slot_attempts (logged sch) n (excluded[k := True]) s1) = Some s'"
      using Suc.prems pick True run
      by (cases "er_operation res = ''''"; cases "store_value_unavailable err")
        (simp_all add: log_execute_def Let_def s1_def)
    have s1: "served s1 = served s + (if store_value_unavailable err then 0 else 1)" "permits s1 = permits s"
      by (simp_all add: s1_def served_def permits_def)
    show ?thesis
      using s' s1 Suc.IH [of "excluded[k := True]" s1] by (cases "store_value_unavailable err") auto
  qed
qed

lemma executeReservedSlot_served:
  "executeReservedSlot (logged sch) s = Some s' \<Longrightarrow> served s' \<le> served s + 1 \<and> permits s' = permits s"
  unfolding executeReservedSlot_def by (rule slot_served)

lemma wait_for_served:
  "wait_for (logged sch) delay s = (ok, s') \<Longrightarrow> served s' = served s \<and> permits s' = permits s"
  by (auto simp: wait_for_def log_wait_def served_def permits_def split: prod.splits)

lemma run_batch_served:
  "run_batch (logged sch) rpm d k position s = Some (b, s') \<Longrightarrow>
    served s' \<le> served s + int k \<and> permits s' = permits s"
proof (induction k arbitrary: position s)
  case 0
  then show ?case by simp
next
  case (Suc k)
  obtain s1 where s1: "executeReservedSlot (logged sch) s = Some s1"
    using Suc.prems by (auto split: option.splits)
  obtain delay r where dl: "NextDelay (sc_profile sch)
      \<lparr>dc_requests_per_minute = rpm, dc_position = position, dc_batch_size = granted d\<rparr> (sd_rng s1) = Some (delay, r)"
    using Suc.prems s1 by (auto split: option.splits)
  obtain delay' ok s2 where w: "wait_for (logged sch) delay' (s1\<lparr>sd_rng := r\<rparr>) = (ok, s2)"
    and rest: "(if \<not> ok then Some (False, s2) else run_batch (logged sch) rpm d k (position + 1) s2) = Some (b, s')"
    using Suc.prems s1 dl by (auto simp: Let_def split: prod.splits)
  have "served s2 = served s1" "permits s2 = permits s1"
    using wait_for_served [OF w] by (simp_all add: served_def permits_def)
  then show ?case
    using executeReservedSlot_served [OF s1] rest Suc.IH [of "position + 1" s2]
    by (cases ok) auto
qed

lemma reserveBatch_served:
  assumes "reserveBatch (logged sch) rpm s = Some ((d, ok), s')"
  shows "served s' = served s"
    and "permits s' \<ge> permits s + (if ok then granted d else 0)" and "ok \<Longrightarrow> 0 \<le> granted d"
  using assms
  by (auto simp: reserveBatch_def log_limiter_def Let_def next_tape_def served_def permits_def
      split: option.splits prod.splits if_splits)

lemma currentRequestsPerMinute_served:
  "currentRequestsPerMinute (logged sch) s = Some ((rpm, ok), s') \<Longrightarrow>
    served s' = served s \<and> permits s' = permits s"
  by (auto simp: currentRequestsPerMinute_def Let_def next_tape_def served_def permits_def
      split: option.splits prod.splits if_splits)

lemma next_tape_served [simp]: "served (next_tape s) = served s" "permits (next_tape s) = permits s"
  by (simp_all add: next_tape_def served_def permits_def)

lemma run_round_served:
  assumes "run_round (logged sch) s = Some (b, s')"
  shows "served s' - served s \<le> permits s' - permits s \<and> permits s \<le> permits s'"
proof -
  obtain rpm ok s1 where c: "currentRequestsPerMinute (logged sch) s = Some ((rpm, ok), s1)"
    using assms by (auto simp: run_round_def split: option.splits)
  note cs = currentRequestsPerMinute_served [OF c]
  show ?thesis
  proof (cases ok)
    case False
    then show ?thesis
      using assms c cs wait_for_served [of sch second "next_tape s1" b s']
      by (auto simp: run_round_def split: if_splits)
  next
    case True
    obtain d ok' s2 where r: "reserveBatch (logged sch) rpm s1 = Some ((d, ok'), s2)"
      using assms c True by (auto simp: run_round_def split: option.splits)
    note rs = reserveBatch_served [OF r]
    consider (failed) delay where "wait_for (logged sch) delay s2 = (b, s')"
      | (batch) "ok'" "run_batch (logged sch) rpm d (nat (granted d)) 1 s2 = Some (b, s')"
      using assms c True r by (fastforce simp: run_round_def split: if_splits)
    then show ?thesis
    proof cases
      case failed
      then show ?thesis using wait_for_served [OF failed] rs cs by (auto split: if_splits)
    next
      case batch
      then show ?thesis using run_batch_served [OF batch(2)] rs cs by auto
    qed
  qed
qed

lemma run_rounds_served:
  "run_rounds (logged sch) n s = Some (b, s') \<Longrightarrow> served s' - served s \<le> permits s' - permits s"
proof (induction n arbitrary: s)
  case 0
  then show ?case by simp
next
  case (Suc n)
  obtain b1 s1 where r: "run_round (logged sch) s = Some (b1, s1)"
    using Suc.prems by (auto split: option.splits)
  then show ?case
    using run_round_served [OF r] Suc.IH [of s1] Suc.prems by (cases b1) auto
qed

subsection \<open>One slot\<close>

lemma open_weight_set:
  "length es = length xs \<Longrightarrow> weights_ok xs \<Longrightarrow> open_weight xs es = 0 \<longleftrightarrow> list_all id es"
proof (induction es xs rule: list_induct2)
  case Nil
  then show ?case by simp
next
  case (Cons e es x xs)
  then show ?case using open_weight_bounds [of xs es] by auto
qed

lemma exclude_one:
  "k < length es \<Longrightarrow> \<not> es ! k \<Longrightarrow> Suc (length (filter Not (es[k := True]))) = length (filter Not es)"
proof (induction es arbitrary: k)
  case Nil
  then show ?case by simp
next
  case (Cons e es)
  then show ?case by (cases k) auto
qed

text \<open>The attempts of a slot, some operations being excluded already.\<close>

lemma slot_attempts_log:
  assumes "weights_ok (sc_operations sch)" and "length (sc_operations sch) \<le> MaxOperations"
    and "sc_random sch = rand_n" and "length excluded = length (sc_operations sch)"
    and "slot_attempts (logged sch) n excluded s = Some s'"
    and "n = length (filter Not excluded)"
  shows "\<exists>ks errs. length errs = length ks \<and> distinct ks
    \<and> (\<forall>k \<in> set ks. k < length (sc_operations sch) \<and> \<not> excluded ! k)
    \<and> snd (sd_env s') = snd (sd_env s) @ map2 (\<lambda>k. Executed (sc_operations sch ! k)) ks errs
    \<and> list_all store_value_unavailable (butlast errs)
    \<and> (list_all store_value_unavailable errs \<longrightarrow> length ks = n)"
  using assms(4-)
proof (induction n arbitrary: excluded s)
  case 0
  then show ?case by (intro exI [of _ "[]"]) simp
next
  case (Suc n)
  note cases = pickWeighted_cases [OF Suc.prems(1) assms(1,2)]
  have "filter Not excluded \<noteq> []" using Suc.prems(3) by (metis list.size(3) nat.distinct(1))
  then have "\<not> list_all id excluded" unfolding list_all_iff filter_empty_conv by simp
  then have pos: "0 < open_weight (sc_operations sch) excluded"
    using open_weight_set [OF Suc.prems(1) assms(1)] open_weight_bounds [OF assms(1), of excluded] by linarith
  obtain k where k: "k < length (sc_operations sch)" "\<not> excluded ! k"
    "pickWeighted (sc_operations sch) excluded rand_n (sd_rng s) = Some ((k, True), \<lambda>i. sd_rng s (Suc i))"
    using cases(2) [OF pos] by blast
  let ?x = "sc_operations sch ! k"
  obtain res err e where run: "sc_execute sch ?x (fst (sd_env s)) = Some ((res, err), e)"
    using Suc.prems(2) k by (auto simp: assms(3) log_execute_def Let_def split: option.splits)
  define s1 where "s1 = s\<lparr>sd_rng := \<lambda>i. sd_rng s (Suc i), sd_env :=
    (sc_handle sch (if er_operation res = '''' then res\<lparr>er_operation := oc_name ?x\<rparr> else res) err e,
     snd (sd_env s) @ [Executed ?x err])\<rparr>"
  have s': "(if \<not> store_value_unavailable err then Some s1
      else slot_attempts (logged sch) n (excluded[k := True]) s1) = Some s'"
    using Suc.prems(2) k run
    by (cases "er_operation res = ''''"; cases "store_value_unavailable err")
      (simp_all add: log_execute_def Let_def s1_def assms(3))
  have log1: "snd (sd_env s1) = snd (sd_env s) @ [Executed ?x err]" by (simp add: s1_def)
  show ?case
  proof (cases "store_value_unavailable err")
    case False
    then show ?thesis using s' log1 k by (intro exI [of _ "[k]"] exI [of _ "[err]"]) simp
  next
    case True
    have n: "n = length (filter Not (excluded[k := True]))"
      using exclude_one [of k excluded] k Suc.prems(1,3) by simp
    have len: "length (excluded[k := True]) = length (sc_operations sch)" using Suc.prems(1) by simp
    have run': "slot_attempts (logged sch) n (excluded[k := True]) s1 = Some s'" using s' True by simp
    obtain ks errs where r: "length errs = length ks" "distinct ks"
      "\<forall>j \<in> set ks. j < length (sc_operations sch) \<and> \<not> excluded[k := True] ! j"
      "snd (sd_env s') = snd (sd_env s1) @ map2 (\<lambda>k. Executed (sc_operations sch ! k)) ks errs"
      "list_all store_value_unavailable (butlast errs)"
      "list_all store_value_unavailable errs \<longrightarrow> length ks = n"
      using Suc.IH [OF len run' n] by blast
    have fresh: "k \<notin> set ks" using r(3) k Suc.prems(1) by auto
    have other: "\<forall>j \<in> set ks. j < length (sc_operations sch) \<and> \<not> excluded ! j"
      using r(3) fresh by (metis nth_list_update_neq)
    show ?thesis
      using r fresh other k log1 True
      by (intro exI [of _ "k # ks"] exI [of _ "err # errs"]) auto
  qed
qed

text \<open>One permit, one request: a slot tries each operation at most once, goes on only while the
  tried operation had no store value, and gives the permit up unused only after it has tried all
  of them. (\<open>errs\<close> are the errors of the attempts at the operations with the indices \<open>ks\<close>.)\<close>

theorem slot_tries_each_once:
  assumes "weights_ok (sc_operations sch)" and "length (sc_operations sch) \<le> MaxOperations"
    and "sc_random sch = rand_n" and "executeReservedSlot (logged sch) s = Some s'"
  shows "\<exists>ks errs. length errs = length ks \<and> distinct ks
    \<and> (\<forall>k \<in> set ks. k < length (sc_operations sch))
    \<and> snd (sd_env s') = snd (sd_env s) @ map2 (\<lambda>k. Executed (sc_operations sch ! k)) ks errs
    \<and> list_all store_value_unavailable (butlast errs)
    \<and> (list_all store_value_unavailable errs \<longrightarrow> length ks = length (sc_operations sch))"
proof -
  have "slot_attempts (logged sch) (length (filter Not (replicate (length (sc_operations sch)) False)))
      (replicate (length (sc_operations sch)) False) s = Some s'"
    using assms(4) by (simp add: executeReservedSlot_def)
  from slot_attempts_log [OF assms(1-3) _ this] show ?thesis by (simp; metis)
qed

subsection \<open>Running and stopping\<close>

lemma wait_for_True: "(\<And>d e. fst (sc_wait sch d e)) \<Longrightarrow> wait_for sch d s = (b, s') \<Longrightarrow> b"
  by (auto simp: wait_for_def split: prod.splits) (metis fst_conv)

lemma run_batch_True:
  assumes "\<And>d e. fst (sc_wait sch d e)"
  shows "run_batch sch rpm d k position s = Some (b, s') \<Longrightarrow> b"
proof (induction k arbitrary: position s)
  case 0
  then show ?case by simp
next
  case (Suc k)
  then show ?case
    using wait_for_True [OF assms] by (fastforce simp: Let_def split: option.splits prod.splits if_splits)
qed

lemma wait_for_tape [simp]: "wait_for sch d s = (b, s') \<Longrightarrow> sd_tape s' = sd_tape s"
  by (auto simp: wait_for_def split: prod.splits)

lemma slot_attempts_tape: "slot_attempts sch n excluded s = Some s' \<Longrightarrow> sd_tape s' = sd_tape s"
proof (induction n arbitrary: excluded s)
  case 0
  then show ?case by simp
next
  case (Suc n)
  from Suc.prems show ?case
    by (auto simp: Let_def split: option.splits prod.splits if_splits dest!: Suc.IH)
qed

lemma run_batch_tape: "run_batch sch rpm d k position s = Some (b, s') \<Longrightarrow> sd_tape s' = sd_tape s"
proof (induction k arbitrary: position s)
  case 0
  then show ?case by simp
next
  case (Suc k)
  from Suc.prems show ?case
    by (auto simp: Let_def executeReservedSlot_def split: option.splits prod.splits if_splits
        dest!: Suc.IH slot_attempts_tape dest: wait_for_tape)
qed

lemma run_round_continues:
  assumes "\<And>d e. fst (sc_wait sch d e)" and "\<And>i. fst (sd_tape s i) = None"
    and "run_round sch s = Some (b, s')"
  shows "b \<and> (\<forall>i. fst (sd_tape s' i) = None)"
proof -
  obtain rpm ok s1 where c: "currentRequestsPerMinute sch s = Some ((rpm, ok), s1)"
    using assms(3) by (auto simp: run_round_def split: option.splits)
  then have t1: "\<And>i. fst (sd_tape s1 i) = None"
    using assms(2) by (auto simp: currentRequestsPerMinute_def next_tape_def Let_def
        split: option.splits prod.splits if_splits)
  show ?thesis
  proof (cases ok)
    case False
    then have w: "wait_for sch second (next_tape s1) = (b, s')"
      using assms(3) c t1 by (auto simp: run_round_def)
    show ?thesis using wait_for_True [OF assms(1) w] wait_for_tape [OF w] t1 by (simp add: next_tape_def)
  next
    case True
    obtain d ok' s2 where r: "reserveBatch sch rpm s1 = Some ((d, ok'), s2)"
      using assms(3) c True by (auto simp: run_round_def split: option.splits)
    then have t2: "\<And>i. fst (sd_tape s2 i) = None"
      using t1 by (auto simp: reserveBatch_def next_tape_def Let_def split: option.splits prod.splits if_splits)
    consider (failed) delay where "wait_for sch delay s2 = (b, s')"
      | (batch) "run_batch sch rpm d (nat (granted d)) 1 s2 = Some (b, s')"
      using assms(3) c True r by (fastforce simp: run_round_def split: if_splits)
    then show ?thesis
    proof cases
      case failed
      then show ?thesis using wait_for_True [OF assms(1) failed] wait_for_tape [OF failed] t2 by simp
    next
      case batch
      then show ?thesis using run_batch_True [OF assms(1) batch] run_batch_tape [OF batch] t2 by simp
    qed
  qed
qed

text \<open>C36. The loop stops for cancellation only: as long as no wait is interrupted and the context is
  alive, every number of rounds leaves it running, whatever the schedule, the limiter and the
  executor answer.\<close>

theorem run_keeps_going:
  assumes "\<And>d e. fst (sc_wait sch d e)" and "\<And>i. fst (sd_tape s i) = None"
    and "run_rounds sch n s = Some (b, s')"
  shows "b"
  using assms(2,3)
proof (induction n arbitrary: s)
  case 0
  then show ?case by simp
next
  case (Suc n)
  obtain b1 s1 where r: "run_round sch s = Some (b1, s1)" using Suc.prems(2) by (auto split: option.splits)
  then show ?case
    using run_round_continues [OF assms(1) Suc.prems(1) r] Suc.IH [of s1] Suc.prems(2) by simp
qed

subsection \<open>Pacing\<close>

lemma steady_delay:
  assumes "newProfile c = Inr t" and "pc_type c \<noteq> ''uniform''"
    and "1 \<le> rpm" and "rpm \<le> 6000" and "1 \<le> n" and "n \<le> rpm"
  shows "\<exists>f. (\<forall>pos r. NextDelay t \<lparr>dc_requests_per_minute = rpm, dc_position = pos, dc_batch_size = n\<rparr> r = Some (f pos, r))
    \<and> (\<Sum>i \<in> {1..n}. f i) = n * (minute div rpm) \<and> (\<forall>i \<in> {1..n}. 1 \<le> f i)"
  using assms(1)
proof (cases rule: newProfile_cases)
  case fixed
  then show ?thesis
    using assms mean_ge [OF assms(3,4)] by (intro exI [of _ "\<lambda>_. minute div rpm"]) (simp add: meanDelay_eq)
next
  case uniform
  then show ?thesis using assms(2) by simp
next
  case (burst d)
  let ?mean = "minute div rpm" and ?intra = "minute div rpm div d"
  have d: "2 \<le> d" "d \<le> 100" using burst by simp_all
  have i: "1 \<le> ?intra" "?intra \<le> ?mean" using burst_intra [OF assms(3,4) d] by simp_all
  define f where "f pos = (if pos < n then ?intra else n * ?mean - (n - 1) * ?intra)" for pos
  have "{1..n} = insert n {1..n - 1}" using assms(5) by auto
  then have "(\<Sum>j \<in> {1..n}. f j) = f n + (\<Sum>j \<in> {1..n - 1}. f j)" by simp
  also have "(\<Sum>j \<in> {1..n - 1}. f j) = (\<Sum>j \<in> {1..n - 1}. ?intra)"
    by (rule sum.cong) (auto simp: f_def)
  also have "f n + \<dots> = n * ?mean" using assms(5) by (simp add: f_def)
  finally have total: "(\<Sum>j \<in> {1..n}. f j) = n * ?mean" .
  have "(n - 1) * ?intra \<le> (n - 1) * ?mean" using assms(5) i by (intro mult_left_mono) auto
  then have "1 \<le> n * ?mean - (n - 1) * ?intra" using i by (simp add: algebra_simps)
  then have "\<forall>j \<in> {1..n}. 1 \<le> f j" using i by (simp add: f_def)
  then show ?thesis
    using total NextDelay_burst [OF assms(3,4) d assms(5,6)] burst(1)
    by (intro exI [of _ f]) (simp add: f_def del: NextDelay.simps)
qed

fun waited :: "event list \<Rightarrow> int list" where
  "waited [] = []"
| "waited (Waited d ok # es) = d # waited es"
| "waited (Executed x err # es) = waited es"

lemma waited_append [simp]: "waited (a @ b) = waited a @ waited b"
  by (induction a rule: waited.induct) simp_all

lemma slot_attempts_waited:
  "slot_attempts (logged sch) n excluded s = Some s' \<Longrightarrow> waited (snd (sd_env s')) = waited (snd (sd_env s))"
proof (induction n arbitrary: excluded s)
  case 0
  then show ?case by simp
next
  case (Suc n)
  from Suc.prems show ?case
    by (auto simp: Let_def log_execute_def split: option.splits prod.splits if_splits dest!: Suc.IH)
qed

lemma run_batch_paced:
  fixes h f :: "int \<Rightarrow> int" and d :: decision
  defines "h \<equiv> (\<lambda>pos. if pos = granted d \<and> f pos < retry_after d then retry_after d else f pos)"
  assumes "\<And>pos r. NextDelay (sc_profile sch)
      \<lparr>dc_requests_per_minute = rpm, dc_position = pos, dc_batch_size = granted d\<rparr> r = Some (f pos, r)"
    and "run_batch (logged sch) rpm d k position s = Some (True, s')"
    and "position + int k = granted d + 1"
  shows "waited (snd (sd_env s')) = waited (snd (sd_env s)) @ map (\<lambda>i. h (position + int i)) [0..<k]"
  using assms(3,4)
proof (induction k arbitrary: position s)
  case 0
  then show ?case by simp
next
  case (Suc k)
  obtain s1 where s1: "executeReservedSlot (logged sch) s = Some s1"
    using Suc.prems(1) by (auto split: option.splits)
  obtain s2 where w: "wait_for (logged sch) (h position) s1 = (True, s2)"
    and rest: "run_batch (logged sch) rpm d k (position + 1) s2 = Some (True, s')"
    using Suc.prems(1) s1 by (auto simp: Let_def h_def assms(2) split: prod.splits if_splits)
  have "waited (snd (sd_env s2)) = waited (snd (sd_env s1)) @ [h position]"
    using w by (auto simp: wait_for_def log_wait_def split: prod.splits)
  moreover have "waited (snd (sd_env s1)) = waited (snd (sd_env s))"
    using s1 slot_attempts_waited unfolding executeReservedSlot_def by blast
  moreover have "map (\<lambda>i. h (position + int i)) [0..<Suc k]
      = h position # map (\<lambda>i. h (position + 1 + int i)) [0..<k]"
    by (simp add: upt_conv_Cons map_Suc_upt [symmetric] o_def ac_simps del: upt_Suc)
  ultimately show ?case using Suc.IH [OF rest] Suc.prems(2) by simp
qed

text \<open>Pacing: a granted batch of a fixed or burst profile that is not interrupted waits once after
  each of its slots, and the waits add up to at least one mean delay per permit, exactly so if
  the limiter did not ask to wait longer: however the permits are bundled, the rate between
  batches is the scheduled one.\<close>

theorem batch_waits:
  assumes "newProfile c = Inr (sc_profile sch)" and "pc_type c \<noteq> ''uniform''"
    and "1 \<le> rpm" and "rpm \<le> MaxRequestsPerMinute" and "1 \<le> granted d" and "granted d \<le> rpm"
    and "run_batch (logged sch) rpm d (nat (granted d)) 1 s = Some (True, s')"
  shows "\<exists>ds. waited (snd (sd_env s')) = waited (snd (sd_env s)) @ ds \<and> length ds = nat (granted d)
    \<and> granted d * (minute div rpm) \<le> sum_list ds
    \<and> (retry_after d \<le> 0 \<longrightarrow> sum_list ds = granted d * (minute div rpm))"
proof -
  let ?n = "granted d"
  have rpm: "rpm \<le> 6000" using assms(4) by (simp add: MaxRequestsPerMinute_def)
  obtain f where f: "\<And>pos r. NextDelay (sc_profile sch)
      \<lparr>dc_requests_per_minute = rpm, dc_position = pos, dc_batch_size = ?n\<rparr> r = Some (f pos, r)"
    "(\<Sum>i \<in> {1..?n}. f i) = ?n * (minute div rpm)" "\<forall>i \<in> {1..?n}. 1 \<le> f i"
    using steady_delay [OF assms(1-3) rpm assms(5,6)] by blast
  define g where "g i = (if 1 + int i = ?n \<and> f (1 + int i) < retry_after d then retry_after d else f (1 + int i))" for i
  have w: "waited (snd (sd_env s')) = waited (snd (sd_env s)) @ map g [0..<nat ?n]"
    unfolding g_def using assms(5) by (intro run_batch_paced [OF f(1) assms(7)]) simp
  have ge: "f (1 + int i) \<le> g i" for i unfolding g_def by (auto simp del: of_nat_Suc)
  have eq: "g i = f (1 + int i)" if "retry_after d \<le> 0" "i < nat ?n" for i
  proof -
    have "1 \<le> f (1 + int i)" using f(3) that by auto
    then show ?thesis using that unfolding g_def by auto
  qed
  have "(\<Sum>i \<in> {1..?n}. f i) = (\<Sum>i \<in> {0..<nat ?n}. f (1 + int i))"
    by (rule sum.reindex_bij_witness [of _ "\<lambda>i. 1 + int i" "\<lambda>i. nat (i - 1)"]) auto
  then have total: "(\<Sum>i \<in> {0..<nat ?n}. f (1 + int i)) = ?n * (minute div rpm)" using f(2) by simp
  have "(\<Sum>i \<in> {0..<nat ?n}. f (1 + int i)) \<le> (\<Sum>i \<in> {0..<nat ?n}. g i)" using ge by (rule sum_mono)
  moreover have "retry_after d \<le> 0 \<Longrightarrow> (\<Sum>i \<in> {0..<nat ?n}. g i) = (\<Sum>i \<in> {0..<nat ?n}. f (1 + int i))"
    using eq by (intro sum.cong) auto
  moreover have "sum_list (map g [0..<nat ?n]) = (\<Sum>i \<in> {0..<nat ?n}. g i)"
    by (simp add: sum_list_distinct_conv_sum_set)
  ultimately show ?thesis using w total by (intro exI [of _ "map g [0..<nat ?n]"]) simp
qed

subsection \<open>A small scheduler, for evaluation\<close>

definition tiny_scheduler :: "(local_limiter, unit, unit) scheduler" where
  "tiny_scheduler = \<lparr>sc_profile = FixedProfile, sc_operations = [ping_operation],
     sc_execute = (\<lambda>x e. Some ((\<lparr>er_operation = oc_name x, er_status = 200, er_response_bytes = 2,
       er_captured = False\<rparr>, None), e)),
     sc_random = rand_n, sc_handle = (\<lambda>_ _ e. e), sc_wait = (\<lambda>d e. (True, e)),
     sc_limiter = localTryAcquire, sc_schedule = fixedRequestsPerMinute 60\<rparr>"

definition tiny_state :: "(local_limiter \<times> int list, unit, unit \<times> event list) sched_state" where
  "tiny_state = \<lparr>sd_limiter = (newLocalLimiter, []), sd_schedule = (), sd_env = ((), []),
     sd_rng = (\<lambda>_. 0), sd_tape = (\<lambda>_. (None, 0))\<rparr>"

definition tiny_after :: "(local_limiter \<times> int list, unit, unit \<times> event list) sched_state" where
  "tiny_after = tiny_state\<lparr>sd_limiter := (\<lparr>ll_window_start = 0, ll_window = minute, ll_used = 1\<rparr>, [1]),
     sd_env := ((), [Executed ping_operation None, Waited second True])\<rparr>"

lemma tiny_slot:
  "executeReservedSlot (logged tiny_scheduler) s =
    Some (s\<lparr>sd_rng := (\<lambda>i. sd_rng s (Suc i)), sd_env := (fst (sd_env s), snd (sd_env s) @ [Executed ping_operation None])\<rparr>)"
  by (simp add: executeReservedSlot_def tiny_scheduler_def pickWeighted_def rand_n_def ping_operation_def
      i64_id log_execute_def Let_def store_value_unavailable_def)

lemma tiny_delay: "NextDelay FixedProfile \<lparr>dc_requests_per_minute = 60, dc_position = p, dc_batch_size = n\<rparr> r = Some (second, r)"
  by (simp add: meanDelay_eq profile_constants)

lemma tiny_batch:
  "run_batch (logged tiny_scheduler) 60 \<lparr>granted = 1, retry_after = 0\<rparr> 1 1 s =
    Some (True, s\<lparr>sd_rng := (\<lambda>i. sd_rng s (Suc i)), sd_env := (fst (sd_env s),
      snd (sd_env s) @ [Executed ping_operation None, Waited second True])\<rparr>)"
  by (simp add: tiny_slot One_nat_def del: NextDelay.simps)
    (simp add: tiny_scheduler_def tiny_delay wait_for_def log_wait_def Let_def profile_constants del: NextDelay.simps)

lemma tiny_round: "run_rounds (logged tiny_scheduler) 1 tiny_state = Some (True, tiny_after)"
proof -
  have "currentRequestsPerMinute (logged tiny_scheduler) tiny_state = Some ((60, True), tiny_state)"
    by (simp add: currentRequestsPerMinute_def tiny_scheduler_def tiny_state_def fixedRequestsPerMinute_def
        next_tape_def MaxRequestsPerMinute_def Let_def)
  moreover have "reserveBatch (logged tiny_scheduler) 60 tiny_state = Some ((\<lparr>granted = 1, retry_after = 0\<rparr>, True),
      tiny_state\<lparr>sd_limiter := (\<lparr>ll_window_start = 0, ll_window = minute, ll_used = 1\<rparr>, [1])\<rparr>)"
    by (simp add: reserveBatch_def tiny_scheduler_def tiny_state_def log_limiter_def localTryAcquire_def
        acquire_checks_def validateLimit_def validatePermits_def newLocalLimiter_def truncate_time_def
        next_tape_def i64_id profile_constants Let_def)
  ultimately show ?thesis
    using tiny_batch by (simp add: run_round_def tiny_after_def tiny_state_def One_nat_def del: run_batch.simps)
qed

text \<open>C6. The permits are the upper bound of the traffic: in any number of rounds, whatever the
  schedule, limiter, executor and timer do, at most as many executions get as far as sending a
  request as permits were granted by valid answers of the limiter.\<close>

theorem run_within_permits:
  assumes "run_rounds (logged sch) n s = Some (b, s')"
    and "snd (sd_limiter s) = []" and "snd (sd_env s) = []"
  shows "int (length (filter is_served (snd (sd_env s')))) \<le> sum_list (snd (sd_limiter s'))"
  using run_rounds_served [OF assms(1)] assms(2,3) by (simp add: served_def permits_def)

theorem run_within_permits_witness:
  "length (filter is_served [Executed ping_operation None, Waited second True]) \<le> 1"
  using run_within_permits [OF tiny_round] by (simp add: tiny_state_def tiny_after_def)

theorem slot_tries_each_once_witness:
  "\<exists>ks errs. [Executed ping_operation None] = map2 (\<lambda>k. Executed ([ping_operation] ! k)) ks errs \<and> distinct ks"
proof -
  have "weights_ok (sc_operations tiny_scheduler)" "length (sc_operations tiny_scheduler) \<le> MaxOperations"
    "sc_random tiny_scheduler = rand_n"
    by (simp_all add: tiny_scheduler_def ping_operation_def MaxOperations_def)
  from slot_tries_each_once [OF this tiny_slot [of tiny_state]] obtain ks errs where r: "distinct ks"
    "snd (sd_env (tiny_state\<lparr>sd_rng := (\<lambda>i. sd_rng tiny_state (Suc i)),
        sd_env := (fst (sd_env tiny_state), snd (sd_env tiny_state) @ [Executed ping_operation None])\<rparr>))
      = snd (sd_env tiny_state) @ map2 (\<lambda>k. Executed (sc_operations tiny_scheduler ! k)) ks errs" by blast
  have "[Executed ping_operation None] = map2 (\<lambda>k. Executed ([ping_operation] ! k)) ks errs"
    using r(2) by (simp add: tiny_state_def tiny_scheduler_def)
  with r(1) show ?thesis by (intro exI [of _ ks] exI [of _ errs] conjI)
qed

theorem run_keeps_going_witness: "True \<and> (\<exists>s'. run_rounds (logged tiny_scheduler) 1 tiny_state = Some (True, s'))"
proof -
  have "fst (sc_wait (logged tiny_scheduler) d e)" for d e by (simp add: tiny_scheduler_def log_wait_def)
  moreover have "fst (sd_tape tiny_state i) = None" for i by (simp add: tiny_state_def)
  ultimately have True by (rule run_keeps_going [OF _ _ tiny_round])
  then show ?thesis using tiny_round by blast
qed

theorem batch_waits_witness:
  "\<exists>ds. [second] = ds \<and> sum_list ds = 1 * (minute div 60)"
proof -
  have p: "newProfile \<lparr>pc_type = '''', pc_min_burst_size = 0, pc_max_burst_size = 0, pc_delay_divisor = 0\<rparr>
      = Inr (sc_profile tiny_scheduler)"
    by (simp add: newProfile_def newWithRandomSource_def tiny_scheduler_def)
  from batch_waits [OF p, of 60 "\<lparr>granted = 1, retry_after = 0\<rparr>" tiny_state] tiny_batch [of tiny_state]
  show ?thesis by (simp add: tiny_state_def MaxRequestsPerMinute_def del: run_batch.simps)
qed

subsection \<open>The default runner\<close>

lemma newProfile_accepted:
  assumes "validateRateProfile (rc_profile rate) = None"
  shows "\<exists>t. newProfile (profile_of rate) = Inr t"
  using assms
  by (auto simp: profile_of_def newProfile_def newWithRandomSource_def validateRateProfile_def Let_def
      profile_constants MaxProfileBurstSize_def MaxProfileDelayDivisor_def split: option.splits if_splits)

lemma weights_accepted:
  assumes "validateConfig lib c = None"
  shows "each_err weight_error 0 (cf_operations c) = None" and "weights_ok (cf_operations c)"
proof -
  have w: "1 \<le> oc_weight x \<and> oc_weight x \<le> 10000" if "x \<in> set (cf_operations c)" for x
    using validateOperation_None(2,3) [OF validateConfig_None(8) [OF assms that]] by simp
  then show "weights_ok (cf_operations c)" by (simp add: weights_ok_def list_all_iff)
  show "each_err weight_error 0 (cf_operations c) = None"
    using w [OF nth_mem] by (fastforce simp: each_err_None weight_error_def fail_if_None)
qed

text \<open>Whatever the configuration validation accepts, the scheduler accepts too: construction
  fails for one reason only, a uniform schedule for which no shared schedule is passed.\<close>

theorem accepted_config_schedulable:
  assumes "validateConfig lib c = None"
  shows "(\<exists>sch. NewScheduler log wait local (cf_rate c) (cf_operations c) (Some run)
        [WithRateLimiter limiter, WithRateSchedule schedule] = Inr sch
      \<and> sc_operations sch = cf_operations c \<and> timing_ok (sc_profile sch)
      \<and> sc_schedule sch = (case schedule of Some f \<Rightarrow> f
          | None \<Rightarrow> fixedRequestsPerMinute (rs_requests_per_minute (rc_schedule (cf_rate c)))))
    \<or> (rs_type (rc_schedule (cf_rate c)) = ''uniform'' \<and> schedule = None
      \<and> NewScheduler log wait local (cf_rate c) (cf_operations c) (Some run)
        [WithRateLimiter limiter, WithRateSchedule schedule] = Inl (SchedulerExternalSchedule ''uniform''))"
proof -
  note v = validateConfig_None [OF assms]
  obtain t where t: "newProfile (profile_of (cf_rate c)) = Inr t" using newProfile_accepted [OF v(4)] by blast
  have "rs_type (rc_schedule (cf_rate c)) = ''fixed'' \<or> rs_type (rc_schedule (cf_rate c)) = ''uniform''"
    using v(2) by (auto simp: validateRateSchedule_def split: if_splits)
  then show ?thesis
    using v(2,4,6,7) t weights_accepted(1) [OF assms] newProfile_ok [OF t]
    by (cases schedule) (auto simp: NewScheduler_def Let_def given_def)
qed

theorem accepted_config_schedulable_witness:
  "\<exists>sch. NewScheduler (\<lambda>_ _ e. e) (\<lambda>_ e. (True, e)) localTryAcquire (cf_rate ping_config)
      (cf_operations ping_config) (Some (\<lambda>_ e. None)) [WithRateLimiter None, WithRateSchedule None]
    = (Inr sch :: scheduler_error + (local_limiter, unit, unit) scheduler)"
  using accepted_config_schedulable [OF ping_config_ok, of "\<lambda>_ _ e. e" "\<lambda>_ e. (True, e)" localTryAcquire
      "\<lambda>_ e. None" None "None :: unit schedule_call option"]
  by (fastforce simp: ping_config_def example_config_def)

text \<open>
  The default runner: memory stores, the local limiter and a fixed schedule. The state of the
  timer is kept beside the executor's.
\<close>

definition beside_execute ::
  "('e \<Rightarrow> ((execution_result \<times> exec_error option) \<times> 'e) option) \<Rightarrow> 'e \<times> 'k
    \<Rightarrow> ((execution_result \<times> exec_error option) \<times> 'e \<times> 'k) option" where
  "beside_execute f e = (case f (fst e) of None \<Rightarrow> None | Some (r, e') \<Rightarrow> Some (r, (e', snd e)))"

definition beside_wait :: "(int \<Rightarrow> 'k \<Rightarrow> bool \<times> 'k) \<Rightarrow> int \<Rightarrow> 'e \<times> 'k \<Rightarrow> bool \<times> 'e \<times> 'k" where
  "beside_wait timer d e = (case timer d (snd e) of (ok, k) \<Rightarrow> (ok, (fst e, k)))"

definition default_scheduler ::
  "config \<Rightarrow> (operation_config \<Rightarrow> 'e \<Rightarrow> ((execution_result \<times> exec_error option) \<times> 'e) option)
    \<Rightarrow> (int \<Rightarrow> 'k \<Rightarrow> bool \<times> 'k) \<Rightarrow> scheduler_error + (local_limiter, unit, 'e \<times> 'k) scheduler" where
  "default_scheduler c run timer =
     NewScheduler (\<lambda>_ _ e. e) (beside_wait timer) localTryAcquire (cf_rate c) (cf_operations c)
       (Some (\<lambda>x. beside_execute (run x))) []"

lemma default_scheduler_fields:
  assumes "default_scheduler c run timer = Inr sch"
  shows "sc_limiter sch = localTryAcquire" "sc_random sch = rand_n" "sc_handle sch = (\<lambda>_ _ e. e)"
    "sc_wait sch = beside_wait timer" "sc_execute sch = (\<lambda>x. beside_execute (run x))"
    "sc_operations sch = cf_operations c"
    "sc_schedule sch = fixedRequestsPerMinute (rs_requests_per_minute (rc_schedule (cf_rate c)))"
    "timing_ok (sc_profile sch)"
  using assms newProfile_ok
  by (auto simp: default_scheduler_def NewScheduler_def Let_def split: option.splits sum.splits if_splits)

locale default_runner =
  fixes c :: config and lib lib' :: go_lib and label :: string and jd :: "json json_decoder"
    and new_request :: "string \<Rightarrow> string \<Rightarrow> bool"
    and send :: "http_request \<Rightarrow> 'w \<Rightarrow> http_response option \<times> 'w"
    and read :: "string \<Rightarrow> 'w \<Rightarrow> string option" and x :: executor
    and timer :: "int \<Rightarrow> 'k \<Rightarrow> bool \<times> 'k" and left :: "'k \<Rightarrow> nat"
    and sch :: "(local_limiter, unit, (memory_store instrumented_store, entropy, 'w) exec_state \<times> 'k) scheduler"
  assumes accepted: "validateConfig lib c = None"
    and built: "default_scheduler c (Execute (runner_ops label lib' jd new_request send read) x) timer = Inr sch"
    and timer_uses: "timer d k = (True, k') \<Longrightarrow> left k' < left k"
begin

abbreviation stores_ok :: "(memory_store instrumented_store, entropy, 'w) exec_state \<times> 'k \<Rightarrow> bool" where
  "stores_ok e \<equiv> memory_inv (capacity_of (cf_stores c)) (iv_inner (ex_store (fst e)))"

lemmas fields = default_scheduler_fields [OF built]

lemma execute_ok:
  assumes "y \<in> set (sc_operations sch)" and "stores_ok e"
  shows "\<exists>r e'. sc_execute sch y e = Some (r, e') \<and> stores_ok e' \<and> snd e' = snd e"
proof -
  have op: "validateOperation lib y (map st_name (cf_stores c)) = None"
    using validateConfig_None(8) [OF accepted] assms(1) fields(6) by simp
  obtain res err e' where "Execute (runner_ops label lib' jd new_request send read) x y (fst e) = Some ((res, err), e')"
    "memory_inv (capacity_of (cf_stores c)) (iv_inner (ex_store e'))"
    by (rule runner.Execute_ok [OF assms(2), of y label lib' jd new_request send read x])
      (use accepted_operation_ok [OF op] in auto)
  then show ?thesis using fields(5) by (simp add: beside_execute_def)
qed

end

sublocale default_runner < cancelled_runtime localTryAcquire local_inv
  "fixedRequestsPerMinute (rs_requests_per_minute (rc_schedule (cf_rate c)))" "\<lambda>_. True"
  "rs_requests_per_minute (rc_schedule (cf_rate c))" "rs_requests_per_minute (rc_schedule (cf_rate c))"
  sch "\<lambda>e. memory_inv (capacity_of (cf_stores c)) (iv_inner (ex_store (fst e)))" "\<lambda>e. left (snd e)"
proof unfold_locales
  show "sc_limiter sch = localTryAcquire"
    "sc_schedule sch = fixedRequestsPerMinute (rs_requests_per_minute (rc_schedule (cf_rate c)))"
    "sc_random sch = rand_n" "timing_ok (sc_profile sch)" by (rule fields)+
  show "weights_ok (sc_operations sch)" "length (sc_operations sch) \<le> MaxOperations"
    using weights_accepted(2) [OF accepted] validateConfig_None(7) [OF accepted] fields(6) by simp_all
next
  fix e y assume "stores_ok e" "y \<in> set (sc_operations sch)"
  then show "sc_execute sch y e \<noteq> None" using execute_ok [of y e] by auto
next
  fix e e' y r assume "stores_ok e" "y \<in> set (sc_operations sch)" "sc_execute sch y e = Some (r, e')"
  then show "stores_ok e'" using execute_ok [of y e] by auto
next
  fix e res err assume "stores_ok e"
  then show "stores_ok (sc_handle sch res err e)" by (simp add: fields(3))
next
  fix e d assume "stores_ok e"
  then show "stores_ok (snd (sc_wait sch d e))" by (simp add: fields(4) beside_wait_def split: prod.splits)
next
  fix d e e' assume "sc_wait sch d e = (True, e')"
  then show "left (snd e') < left (snd e)"
    using timer_uses by (auto simp: fields(4) beside_wait_def split: prod.splits)
next
  fix y e r e' assume "sc_execute sch y e = Some (r, e')"
  then show "left (snd e') \<le> left (snd e)"
    by (auto simp: fields(5) beside_execute_def split: option.splits prod.splits)
next
  fix res err e show "left (snd (sc_handle sch res err e)) \<le> left (snd e)" by (simp add: fields(3))
qed

context default_runner
begin

lemma runs_from_start:
  assumes "newMemoryStore (cf_stores c) = Inr (iv_inner (ex_store (fst (sd_env s))))"
    and "sd_limiter s = newLocalLimiter"
  shows "run_rounds sch n s \<noteq> None" and "\<exists>s'. Run sch s = Some s'"
proof -
  have "good s"
    using newMemoryStore_inv(1) [OF assms(1)] assms(2) local_inv_new by (simp add: good_def)
  then show "run_rounds sch n s \<noteq> None" "\<exists>s'. Run sch s = Some s'"
    using run_rounds_total [of s n] Run_terminates [of s] by auto
qed

end

lemma default_scheduler_total:
  assumes "validateConfig lib c = None" and "rs_type (rc_schedule (cf_rate c)) = ''fixed''"
  shows "\<exists>sch. default_scheduler c run timer = Inr sch"
proof -
  note v = validateConfig_None [OF assms(1)]
  obtain t where "newProfile (profile_of (cf_rate c)) = Inr t" using newProfile_accepted [OF v(4)] by blast
  then show ?thesis
    using assms(2) v(2,4,6,7) weights_accepted(1) [OF assms(1)]
    by (auto simp: default_scheduler_def NewScheduler_def Let_def)
qed

text \<open>A timer that lets some waits pass before the cancellation.\<close>

fun count_down :: "int \<Rightarrow> nat \<Rightarrow> bool \<times> nat" where
  "count_down d 0 = (False, 0)"
| "count_down d (Suc k) = (True, k)"

lemma count_down_uses: "count_down d k = (True, k') \<Longrightarrow> k' < k"
  by (cases k) auto

definition ping_run_operation ::
  "operation_config \<Rightarrow> (memory_store instrumented_store, entropy, http_request list) exec_state
    \<Rightarrow> ((execution_result \<times> exec_error option)
        \<times> (memory_store instrumented_store, entropy, http_request list) exec_state) option" where
  "ping_run_operation = Execute ping_ops ping_executor"

definition ping_scheduler ::
  "(local_limiter, unit, (memory_store instrumented_store, entropy, http_request list) exec_state \<times> nat) scheduler" where
  "ping_scheduler = \<lparr>sc_profile = FixedProfile, sc_operations = [ping_operation],
     sc_execute = (\<lambda>x. beside_execute (ping_run_operation x)), sc_random = rand_n,
     sc_handle = (\<lambda>_ _ e. e), sc_wait = beside_wait count_down, sc_limiter = localTryAcquire,
     sc_schedule = fixedRequestsPerMinute 60\<rparr>"

lemma ping_scheduler_built: "default_scheduler ping_config ping_run_operation count_down = Inr ping_scheduler"
proof -
  have "validateRateSchedule (rc_schedule (cf_rate ping_config)) = None"
    "each_err weight_error 0 (cf_operations ping_config) = None"
    using validateConfig_None(2) [OF ping_config_ok] weights_accepted(1) [OF ping_config_ok] by simp_all
  then show ?thesis
    by (simp add: default_scheduler_def NewScheduler_def ping_config_def example_config_def
        validateRateProfile_def profile_of_def newProfile_def newWithRandomSource_def MaxOperations_def
        ping_scheduler_def Let_def)
qed

interpretation ping_runner: default_runner ping_config example_lib example_lib "''memory''"
  "eo_json ping_ops" "eo_new_request ping_ops" "eo_do ping_ops" "eo_read_file ping_ops" ping_executor
  count_down "\<lambda>k. k" ping_scheduler
proof
  show "validateConfig example_lib ping_config = None" by (rule ping_config_ok)
  have "runner_ops ''memory'' example_lib (eo_json ping_ops) (eo_new_request ping_ops) (eo_do ping_ops)
      (eo_read_file ping_ops) = ping_ops"
    by (simp add: ping_ops_def runner_ops_def)
  then show "default_scheduler ping_config (Execute (runner_ops ''memory'' example_lib (eo_json ping_ops)
      (eo_new_request ping_ops) (eo_do ping_ops) (eo_read_file ping_ops)) ping_executor) count_down = Inr ping_scheduler"
    using ping_scheduler_built by (simp add: ping_run_operation_def)
qed (rule count_down_uses)

text \<open>
  The default runner works for every accepted configuration with a fixed schedule: the scheduler
  can be built, no number of rounds panics, whatever the target answers and the random sources
  draw, and once waits stop succeeding \<open>Run\<close> returns.
\<close>

lemma default_runner_runs:
  fixes s :: "(local_limiter, unit, (memory_store instrumented_store, entropy, 'w) exec_state \<times> 'k) sched_state"
    and left :: "'k \<Rightarrow> nat"
  assumes "validateConfig lib c = None" and "rs_type (rc_schedule (cf_rate c)) = ''fixed''"
    and "newMemoryStore (cf_stores c) = Inr (iv_inner (ex_store (fst (sd_env s))))"
    and "sd_limiter s = newLocalLimiter"
    and "\<And>d k k'. timer d k = (True, k') \<Longrightarrow> left k' < left k"
  shows "\<exists>sch. default_scheduler c (Execute (runner_ops label lib' jd new_request send read) x) timer = Inr sch
    \<and> (\<forall>n. run_rounds sch n s \<noteq> None) \<and> (\<exists>s'. Run sch s = Some s')"
proof -
  obtain sch where sch: "default_scheduler c (Execute (runner_ops label lib' jd new_request send read) x) timer = Inr sch"
    using default_scheduler_total [OF assms(1,2)] by blast
  have r: "default_runner c lib lib' label jd new_request send read x timer left sch"
    by (rule default_runner.intro [OF assms(1) sch assms(5)])
  show ?thesis using sch default_runner.runs_from_start [OF r assms(3,4)] by blast
qed

end
