(* ===== verification/Scheduler_Runtime.thy ===== *)
theory Scheduler_Runtime
  imports Scheduler
begin

section \<open>The scheduler's defaults\<close>

text \<open>
  \<open>internal/runner/scheduler_runtime.go\<close>: the log entry of an execution, and the wait that ends with
  its timer or with the context. A log entry has the attributes of the result and the error; no
  captured value and no secret is an attribute of it. The duration is left out with the clock.
\<close>

datatype log_level = Info | Warn | Error

record log_entry =
  le_level :: log_level
  le_message :: string
  le_result :: execution_result
  le_error :: "exec_error option"

definition logExecution :: "execution_result \<Rightarrow> exec_error option \<Rightarrow> log_entry" where
  "logExecution result err =
     (if err = None then
        \<lparr>le_level = Info, le_message = ''Kurama request completed'', le_result = result, le_error = None\<rparr>
      else if store_value_unavailable err then
        \<lparr>le_level = Warn, le_message = ''Kurama operation temporarily unavailable'', le_result = result, le_error = err\<rparr>
      else
        \<lparr>le_level = Error, le_message = ''Kurama request failed'', le_result = result, le_error = err\<rparr>)"

lemma logged_level:
  "le_level (logExecution result err) = Warn \<longleftrightarrow> store_value_unavailable err"
  "le_level (logExecution result err) = Info \<longleftrightarrow> err = None"
  by (simp_all add: logExecution_def store_value_unavailable_def)

subsection \<open>Waiting\<close>

text \<open>
  The clock of a wait, in nanoseconds: the time, how much later than its due time each
  further timer wakes the loop, beyond the one nanosecond every wait takes, and how often Go's
  \<open>select\<close>, which chooses at random among the channels that are ready, still chooses the timer when
  the context is done as well.
\<close>

record clock =
  tm_now :: int
  tm_overrun :: "nat \<Rightarrow> nat"
  tm_ties :: nat

text \<open>\<open>cancelled\<close> is when the context ends, if ever.\<close>

definition waitWithTimer :: "int option \<Rightarrow> int \<Rightarrow> clock \<Rightarrow> bool \<times> clock" where
  "waitWithTimer cancelled delay k =
     (let due = tm_now k + max 0 delay;
          wake = due + 1 + int (tm_overrun k 0);
          next = k\<lparr>tm_now := wake, tm_overrun := (\<lambda>i. tm_overrun k (Suc i))\<rparr>
      in case cancelled of
           None \<Rightarrow> (True, next)
         | Some t \<Rightarrow>
            if max (tm_now k) t < due then (False, k\<lparr>tm_now := max (tm_now k) t\<rparr>)
            else if wake < t then (True, next)
            else (case tm_ties k of
                    0 \<Rightarrow> (False, next)
                  | Suc n \<Rightarrow> (True, next\<lparr>tm_ties := n\<rparr>)))"

lemmas wait_cases = waitWithTimer_def Let_def

lemma wait_takes_delay: "waitWithTimer c delay k = (True, k') \<Longrightarrow> tm_now k + max 0 delay < tm_now k'"
  by (auto simp: wait_cases split: option.splits if_splits nat.splits)

lemma wait_fails_cancelled:
  "waitWithTimer c delay k = (False, k') \<Longrightarrow> \<exists>t. c = Some t \<and> t \<le> tm_now k'"
  by (auto simp: wait_cases split: option.splits if_splits nat.splits)

lemma wait_after_cancel: "t \<le> tm_now k \<Longrightarrow> 0 < delay \<Longrightarrow> waitWithTimer (Some t) delay k = (False, k)"
  by (simp add: wait_cases max_def)

definition time_left :: "int \<Rightarrow> clock \<Rightarrow> nat" where
  "time_left t k = nat (t - tm_now k) + tm_ties k"

lemma wait_uses_time: "waitWithTimer (Some t) delay k = (True, k') \<Longrightarrow> time_left t k' < time_left t k"
  by (auto simp: wait_cases time_left_def split: if_splits nat.splits)

text \<open>
  C11. The default runner works and stops for every accepted configuration with a fixed schedule: the
  scheduler can be built, no number of rounds panics, whatever the target answers, the random
  sources draw and the timers overrun; and \<open>Run\<close> returns once its context is cancelled, however
  often Go's choice between a timer and the context falls to the timer, as long as that
  happens finitely often.
\<close>

theorem cancelled_runner_stops:
  fixes s :: "(local_limiter, unit, (memory_store instrumented_store, entropy, 'w) exec_state \<times> clock) sched_state"
  assumes "validateConfig lib c = None" and "rs_type (rc_schedule (cf_rate c)) = ''fixed''"
    and "newMemoryStore (cf_stores c) = Inr (iv_inner (ex_store (fst (sd_env s))))"
    and "sd_limiter s = newLocalLimiter"
  shows "\<exists>sch. default_scheduler c (Execute (runner_ops label lib' jd new_request send read) x)
      (waitWithTimer (Some t)) = Inr sch
    \<and> (\<forall>n. run_rounds sch n s \<noteq> None) \<and> (\<exists>s'. Run sch s = Some s')"
  by (rule default_runner_runs [OF assms wait_uses_time])

theorem cancelled_runner_stops_witness:
  "\<exists>sch s'. default_scheduler ping_config ping_run_operation (waitWithTimer (Some 10)) = Inr sch
    \<and> Run sch \<lparr>sd_limiter = newLocalLimiter, sd_schedule = (),
        sd_env = (ping_state, \<lparr>tm_now = 0, tm_overrun = (\<lambda>_. 0), tm_ties = 2\<rparr>),
        sd_rng = (\<lambda>_. 0), sd_tape = (\<lambda>_. (None, 0))\<rparr> = Some s'"
proof -
  let ?s = "\<lparr>sd_limiter = newLocalLimiter, sd_schedule = (),
    sd_env = (ping_state, \<lparr>tm_now = 0, tm_overrun = (\<lambda>_. 0), tm_ties = 2\<rparr>),
    sd_rng = (\<lambda>_. 0), sd_tape = (\<lambda>_. (None, 0))\<rparr>"
  have m: "newMemoryStore (cf_stores ping_config) = Inr (iv_inner (ex_store (fst (sd_env ?s))))"
    by (simp add: newMemoryStore_def ping_config_def ping_state_def validateStoreConfigs_def validateName_def
        name_pattern_def name_char_def config_limits)
  have t: "rs_type (rc_schedule (cf_rate ping_config)) = ''fixed''" by (simp add: ping_config_def example_config_def)
  have o: "runner_ops ''memory'' example_lib (eo_json ping_ops) (eo_new_request ping_ops) (eo_do ping_ops)
      (eo_read_file ping_ops) = ping_ops"
    by (simp add: ping_ops_def runner_ops_def)
  show ?thesis
    using cancelled_runner_stops [OF ping_config_ok t m, of "''memory''" example_lib "eo_json ping_ops"
      "eo_new_request ping_ops" "eo_do ping_ops" "eo_read_file ping_ops" ping_executor 10]
    by (auto simp: o simp flip: ping_run_operation_def)
qed

end
