(* ===== verification/Metrics.thy ===== *)
theory Metrics
  imports Rate_Schedule Value_Store
begin

section \<open>Prometheus metrics\<close>

text \<open>
  The observers behind the decorators (\<open>prometheus_store_observer.go\<close>, \<open>ratelimit/prometheus.go\<close>,
  \<open>rateschedule/prometheus.go\<close>), the profile gauges (\<open>prometheus_rate_profile.go\<close>) and the counter
  of abandoned cleanups (\<open>redis_cleanup_observer.go\<close>). The registry is client_golang's: a parameter
  that may refuse a collector, here named by its full metric name. What a collector has
  recorded is a function of its label values; durations stay nanoseconds and counters integers,
  where the library keeps floats.
\<close>

record 'g registry_ops =
  go_register :: "string \<Rightarrow> 'g \<Rightarrow> bool \<times> 'g"
  go_unregister :: "string \<Rightarrow> 'g \<Rightarrow> 'g"

text \<open>The documented laws: a refusal changes nothing, and unregistering undoes a registration.\<close>

definition registry_laws :: "'g registry_ops \<Rightarrow> bool" where
  "registry_laws reg \<longleftrightarrow>
     (\<forall>n g g'. go_register reg n g = (False, g') \<longrightarrow> g' = g)
     \<and> (\<forall>n g g'. go_register reg n g = (True, g') \<longrightarrow> go_unregister reg n g' = g)
     \<and> (\<forall>m n g. go_unregister reg m (go_unregister reg n g) = go_unregister reg n (go_unregister reg m g))"

datatype metrics_error = RegistererNil | RegisterFailed string

subsection \<open>Registration\<close>

text \<open>A nil registerer is \<open>None\<close>.\<close>

definition NewPrometheusStoreObserver ::
  "'g registry_ops option \<Rightarrow> 'g \<Rightarrow> metrics_error option \<times> 'g" where
  "NewPrometheusStoreObserver registerer g0 =
     (case registerer of None \<Rightarrow> (Some RegistererNil, g0)
      | Some reg \<Rightarrow>
     (let operations = ''kurama_store_operations_total'';
          duration = ''kurama_store_operation_duration_seconds''
      in case go_register reg operations g0 of
           (False, g1) \<Rightarrow> (Some (RegisterFailed operations), g1)
         | (True, g1) \<Rightarrow>
        (case go_register reg duration g1 of
           (False, g2) \<Rightarrow> (Some (RegisterFailed duration), go_unregister reg operations g2)
         | (True, g2) \<Rightarrow> (None, g2))))"

definition NewPrometheusLimiterObserver ::
  "'g registry_ops option \<Rightarrow> 'g \<Rightarrow> metrics_error option \<times> 'g" where
  "NewPrometheusLimiterObserver registerer g0 =
     (case registerer of None \<Rightarrow> (Some RegistererNil, g0)
      | Some reg \<Rightarrow>
     (let acquisitions = ''kurama_rate_limiter_acquisitions_total'';
          duration = ''kurama_rate_limiter_acquisition_duration_seconds'';
          requested = ''kurama_rate_limiter_permits_requested_total'';
          granted = ''kurama_rate_limiter_permits_granted_total''
      in case go_register reg acquisitions g0 of
           (False, g1) \<Rightarrow> (Some (RegisterFailed acquisitions), g1)
         | (True, g1) \<Rightarrow>
        (case go_register reg duration g1 of
           (False, g2) \<Rightarrow> (Some (RegisterFailed duration), go_unregister reg acquisitions g2)
         | (True, g2) \<Rightarrow>
        (case go_register reg requested g2 of
           (False, g3) \<Rightarrow> (Some (RegisterFailed requested),
             go_unregister reg duration (go_unregister reg acquisitions g3))
         | (True, g3) \<Rightarrow>
        (case go_register reg granted g3 of
           (False, g4) \<Rightarrow> (Some (RegisterFailed granted),
             go_unregister reg requested (go_unregister reg duration (go_unregister reg acquisitions g4)))
         | (True, g4) \<Rightarrow> (None, g4))))))"

definition NewPrometheusScheduleObserver ::
  "'g registry_ops option \<Rightarrow> 'g \<Rightarrow> metrics_error option \<times> 'g" where
  "NewPrometheusScheduleObserver registerer g0 =
     (case registerer of None \<Rightarrow> (Some RegistererNil, g0)
      | Some reg \<Rightarrow>
     (let rpm = ''kurama_rate_schedule_requests_per_minute'';
          resolutions = ''kurama_rate_schedule_resolutions_total'';
          duration = ''kurama_rate_schedule_resolution_duration_seconds''
      in case go_register reg rpm g0 of
           (False, g1) \<Rightarrow> (Some (RegisterFailed rpm), g1)
         | (True, g1) \<Rightarrow>
        (case go_register reg resolutions g1 of
           (False, g2) \<Rightarrow> (Some (RegisterFailed resolutions), go_unregister reg rpm g2)
         | (True, g2) \<Rightarrow>
        (case go_register reg duration g2 of
           (False, g3) \<Rightarrow> (Some (RegisterFailed duration),
             go_unregister reg resolutions (go_unregister reg rpm g3))
         | (True, g3) \<Rightarrow> (None, g3)))))"

text \<open>The gauges of a burst profile: the bounds by label, and the effective divisor.\<close>

definition profile_gauges :: "rate_profile_config \<Rightarrow> (string \<times> string list) \<rightharpoonup> int" where
  "profile_gauges c =
     [(''kurama_rate_profile_burst_size'', [''min'']) \<mapsto> rp_min_burst_size c,
      (''kurama_rate_profile_burst_size'', [''max'']) \<mapsto> rp_max_burst_size c,
      (''kurama_rate_profile_delay_divisor'', []) \<mapsto>
        (if rp_delay_divisor c = 0 then DefaultBurstDelayDivisor else rp_delay_divisor c)]"

definition RegisterPrometheusRateProfileMetrics ::
  "'g registry_ops option \<Rightarrow> rate_profile_config option \<Rightarrow> 'g
    \<Rightarrow> metrics_error option \<times> ((string \<times> string list) \<rightharpoonup> int) \<times> 'g" where
  "RegisterPrometheusRateProfileMetrics registerer config g0 =
     (case registerer of None \<Rightarrow> (Some RegistererNil, Map.empty, g0)
      | Some reg \<Rightarrow>
     (case config of None \<Rightarrow> (None, Map.empty, g0)
      | Some c \<Rightarrow>
     (if rp_type c \<noteq> ''burst'' then (None, Map.empty, g0)
      else
        (let burstSize = ''kurama_rate_profile_burst_size'';
             delayDivisor = ''kurama_rate_profile_delay_divisor''
         in case go_register reg burstSize g0 of
              (False, g1) \<Rightarrow> (Some (RegisterFailed burstSize), Map.empty, g1)
            | (True, g1) \<Rightarrow>
           (case go_register reg delayDivisor g1 of
              (False, g2) \<Rightarrow> (Some (RegisterFailed delayDivisor), Map.empty, go_unregister reg burstSize g2)
            | (True, g2) \<Rightarrow> (None, profile_gauges c, g2))))))"

definition NewPrometheusRedisCleanupObserver ::
  "'g registry_ops option \<Rightarrow> 'g \<Rightarrow> metrics_error option \<times> 'g" where
  "NewPrometheusRedisCleanupObserver registerer g0 =
     (case registerer of None \<Rightarrow> (Some RegistererNil, g0)
      | Some reg \<Rightarrow>
     (let abandoned = ''kurama_redis_cleanup_abandoned_total''
      in case go_register reg abandoned g0 of
           (False, g1) \<Rightarrow> (Some (RegisterFailed abandoned), g1)
         | (True, g1) \<Rightarrow> (None, g1)))"

text \<open>Registration is all or nothing: a failed one leaves the registry as it found it.\<close>

lemma registry_steps:
  assumes "registry_laws reg"
  shows "go_register reg n g = (False, g') \<Longrightarrow> g' = g"
    and "go_register reg n g = (True, g') \<Longrightarrow> go_unregister reg n g' = g"
    and "go_register reg a g = (True, g1) \<Longrightarrow> go_register reg b g1 = (True, g2)
      \<Longrightarrow> go_unregister reg b (go_unregister reg a g2) = g"
    and "go_register reg a g = (True, g1) \<Longrightarrow> go_register reg b g1 = (True, g2)
      \<Longrightarrow> go_register reg c g2 = (True, g3)
      \<Longrightarrow> go_unregister reg c (go_unregister reg b (go_unregister reg a g3)) = g"
  using assms unfolding registry_laws_def by metis+

lemma registration_undone:
  assumes "registry_laws reg" and "f \<in> {NewPrometheusStoreObserver, NewPrometheusLimiterObserver,
      NewPrometheusScheduleObserver, NewPrometheusRedisCleanupObserver}"
    and "f (Some reg) g = (Some e, g')"
  shows "g' = g"
  using assms(2,3)
  by (auto simp: NewPrometheusStoreObserver_def NewPrometheusLimiterObserver_def
      NewPrometheusScheduleObserver_def NewPrometheusRedisCleanupObserver_def Let_def
      registry_steps(2-4) [OF assms(1)] dest!: registry_steps(1) [OF assms(1)]
      split: prod.splits bool.splits)

lemma profile_registration_undone:
  assumes "registry_laws reg" and "RegisterPrometheusRateProfileMetrics (Some reg) config g = (Some e, gauges, g')"
  shows "g' = g \<and> gauges = Map.empty"
  using assms(2)
  by (auto simp: RegisterPrometheusRateProfileMetrics_def Let_def
      registry_steps(2-4) [OF assms(1)] dest!: registry_steps(1) [OF assms(1)]
      split: prod.splits bool.splits option.splits if_splits)

subsection \<open>Observation\<close>

record metric_values =
  mx_counters :: "string \<times> string list \<Rightarrow> int"
  mx_durations :: "string \<times> string list \<Rightarrow> int list"
  mx_gauges :: "(string \<times> string list) \<rightharpoonup> int"

text \<open>A counter panics when it would decrease.\<close>

definition counter_add :: "string \<Rightarrow> string list \<Rightarrow> int \<Rightarrow> metric_values \<Rightarrow> metric_values option" where
  "counter_add name label_values x m =
     (if x < 0 then None
      else Some (m\<lparr>mx_counters := (mx_counters m)
             ((name, label_values) := mx_counters m (name, label_values) + x)\<rparr>))"

definition duration_observe :: "string \<Rightarrow> string list \<Rightarrow> int \<Rightarrow> metric_values \<Rightarrow> metric_values" where
  "duration_observe name label_values x m =
     m\<lparr>mx_durations := (mx_durations m)
         ((name, label_values) := mx_durations m (name, label_values) @ [x])\<rparr>"

definition gauge_set :: "string \<Rightarrow> string list \<Rightarrow> int \<Rightarrow> metric_values \<Rightarrow> metric_values" where
  "gauge_set name label_values x m =
     m\<lparr>mx_gauges := (mx_gauges m)((name, label_values) \<mapsto> x)\<rparr>"

definition ObserveStoreOperation :: "store_observation \<Rightarrow> metric_values \<Rightarrow> metric_values option" where
  "ObserveStoreOperation ob m =
     (let label_values = [ob_backend ob, ob_store ob, ob_operation ob, ob_result ob]
      in map_option (duration_observe ''kurama_store_operation_duration_seconds'' label_values (ob_duration ob))
           (counter_add ''kurama_store_operations_total'' label_values 1 m))"

definition ObserveRateLimit :: "limiter_observation \<Rightarrow> metric_values \<Rightarrow> metric_values option" where
  "ObserveRateLimit ob m =
     (let label_values = [lo_backend ob, lo_result ob]
      in case counter_add ''kurama_rate_limiter_acquisitions_total'' label_values 1 m of
           None \<Rightarrow> None
         | Some m1 \<Rightarrow>
        (let m2 = duration_observe ''kurama_rate_limiter_acquisition_duration_seconds'' label_values
                    (lo_duration ob) m1
         in case counter_add ''kurama_rate_limiter_permits_requested_total'' [lo_backend ob] (lo_requested ob) m2 of
              None \<Rightarrow> None
            | Some m3 \<Rightarrow>
               counter_add ''kurama_rate_limiter_permits_granted_total'' [lo_backend ob] (lo_granted ob) m3))"

definition ObserveRateSchedule :: "schedule_observation \<Rightarrow> metric_values \<Rightarrow> metric_values option" where
  "ObserveRateSchedule ob m =
     (let label_values = [so_type ob, so_result ob]
      in case counter_add ''kurama_rate_schedule_resolutions_total'' label_values 1 m of
           None \<Rightarrow> None
         | Some m1 \<Rightarrow>
        (let m2 = duration_observe ''kurama_rate_schedule_resolution_duration_seconds'' label_values
                    (so_duration ob) m1
         in Some (if so_result ob = ''success''
              then gauge_set ''kurama_rate_schedule_requests_per_minute'' [so_type ob]
                     (so_requests_per_minute ob) m2
              else m2)))"

definition ObserveAbandoned :: "metric_values \<Rightarrow> metric_values option" where
  "ObserveAbandoned = counter_add ''kurama_redis_cleanup_abandoned_total'' [] 1"

text \<open>A list of observations in their order; \<open>None\<close> once one of them panics.\<close>

fun observe_all :: "('o \<Rightarrow> 'm \<Rightarrow> 'm option) \<Rightarrow> 'o list \<Rightarrow> 'm \<Rightarrow> 'm option" where
  "observe_all observe_one [] m = Some m"
| "observe_all observe_one (x # xs) m = Option.bind (observe_one x m) (observe_all observe_one xs)"

lemma observed_permits:
  assumes "observe_all ObserveRateLimit obs m = Some m'"
  shows "mx_counters m' (''kurama_rate_limiter_permits_granted_total'', [b])
      = mx_counters m (''kurama_rate_limiter_permits_granted_total'', [b])
        + sum_list (map lo_granted (filter (\<lambda>x. lo_backend x = b) obs))"
  using assms
proof (induction obs arbitrary: m)
  case (Cons x xs)
  then obtain m1 where 1: "ObserveRateLimit x m = Some m1" "observe_all ObserveRateLimit xs m1 = Some m'"
    by (auto simp: bind_eq_Some_conv)
  then have "mx_counters m1 (''kurama_rate_limiter_permits_granted_total'', [b])
      = mx_counters m (''kurama_rate_limiter_permits_granted_total'', [b])
        + (if lo_backend x = b then lo_granted x else 0)"
    by (auto simp: ObserveRateLimit_def counter_add_def duration_observe_def Let_def split: if_splits)
  then show ?case using Cons.IH [OF 1(2)] by simp
qed simp

text \<open>Observations of non-negative permits never panic, and the scheduler only asks for those.\<close>

lemma observing_total:
  "(\<forall>x \<in> set obs. 0 \<le> lo_requested x \<and> 0 \<le> lo_granted x) \<Longrightarrow> \<exists>m'. observe_all ObserveRateLimit obs m = Some m'"
proof (induction obs arbitrary: m)
  case (Cons x xs)
  then obtain m1 where "ObserveRateLimit x m = Some m1"
    by (auto simp: ObserveRateLimit_def counter_add_def Let_def)
  then show ?case using Cons by simp
qed simp

end
