(* ===== verification/Traffic_Scenario.thy ===== *)
theory Traffic_Scenario
  imports Runner_Config
begin

section \<open>The TrafficScenario resource\<close>

text \<open>
  \<open>api/v1alpha1/trafficscenario_types.go\<close>: one record per Go struct, in the order of the file.
  Pointer fields are options; a Go map is a list of pairs, in the order of one iteration over
  it; the string types with constants are strings. Of the Kubernetes metadata the record
  \<open>traffic_scenario\<close> has what the controller reads or writes. A resource quantity
  (\<open>resource.Quantity\<close>) is its value in nano-units, the smallest Kubernetes knows.
  \<open>DeepCopy\<close> (\<open>zz_generated.deepcopy.go\<close>) has no counterpart: values are not shared here.
\<close>

record target_spec =
  tg_base_url :: string

record rate_schedule_spec =
  ss_type :: string
  ss_requests_per_minute :: int
  ss_min_requests_per_minute :: int
  ss_max_requests_per_minute :: int
  ss_window_minutes :: int

definition RateScheduleTypeFixed :: string where "RateScheduleTypeFixed = ''fixed''"
definition RateScheduleTypeUniform :: string where "RateScheduleTypeUniform = ''uniform''"

record rate_limiter_spec =
  ls_type :: string

definition RateLimiterTypeLocal :: string where "RateLimiterTypeLocal = ''local''"
definition RateLimiterTypeRedis :: string where "RateLimiterTypeRedis = ''redis''"

record rate_profile_spec =
  ps_type :: string
  ps_min_burst_size :: int
  ps_max_burst_size :: int
  ps_delay_divisor :: int

definition RateProfileTypeFixed :: string where "RateProfileTypeFixed = ''fixed''"
definition RateProfileTypeUniform :: string where "RateProfileTypeUniform = ''uniform''"
definition RateProfileTypeBurst :: string where "RateProfileTypeBurst = ''burst''"

record rate_spec =
  ra_schedule :: rate_schedule_spec
  ra_limiter :: "rate_limiter_spec option"
  ra_profile :: "rate_profile_spec option"

record store_spec =
  so_name :: string
  so_capacity :: int

record storage_spec =
  sg_type :: string

definition StorageTypeMemory :: string where "StorageTypeMemory = ''memory''"
definition StorageTypeRedis :: string where "StorageTypeRedis = ''redis''"

type_synonym quantity = int
type_synonym resource_list = "(string \<times> quantity) list"

record runner_resources_spec =
  rr_requests :: resource_list
  rr_limits :: resource_list

record runner_spec =
  rn_resources :: "runner_resources_spec option"

record variable_source_spec =
  vr_type :: string
  vr_store :: string
  vr_length :: int

record variable_spec =
  va_name :: string
  va_source :: variable_source_spec

record secret_key_selector =
  sk_name :: string
  sk_key :: string

record secret_header_value_source =
  sv_secret_key_ref :: secret_key_selector

record secret_header_spec =
  se_name :: string
  se_value_from :: secret_header_value_source

record request_spec =
  re_method :: string
  re_path_template :: string
  re_headers :: "(string \<times> string) list"
  re_secret_headers :: "secret_header_spec list"
  re_body_template :: string
  re_variables :: "variable_spec list"

record capture_spec =
  ca_json_pointer :: string
  ca_store :: string

record operation_spec =
  op_name :: string
  op_weight :: int
  op_request :: request_spec
  op_expected_status_codes :: "int list"
  op_capture :: "capture_spec option"

record traffic_scenario_spec =
  sp_target :: target_spec
  sp_rate :: rate_spec
  sp_stores :: "store_spec list"
  sp_operations :: "operation_spec list"
  sp_storage :: "storage_spec option"
  sp_suspend :: bool
  sp_replicas :: int
  sp_runner :: "runner_spec option"

definition PhaseProgressing :: string where "PhaseProgressing = ''Progressing''"
definition PhaseReady :: string where "PhaseReady = ''Ready''"
definition PhaseDegraded :: string where "PhaseDegraded = ''Degraded''"
definition PhaseSuspended :: string where "PhaseSuspended = ''Suspended''"
definition PhaseFailed :: string where "PhaseFailed = ''Failed''"

definition ConditionReady :: string where "ConditionReady = ''Ready''"
definition ConditionProgressing :: string where "ConditionProgressing = ''Progressing''"
definition ConditionDegraded :: string where "ConditionDegraded = ''Degraded''"
definition ConditionSuspended :: string where "ConditionSuspended = ''Suspended''"

text \<open>The fields of \<open>metav1.Condition\<close>; the transition time is the library's business.\<close>

record condition =
  cd_type :: string
  cd_status :: bool
  cd_observed_generation :: int
  cd_reason :: string
  cd_message :: string
  cd_last_transition :: int

record traffic_scenario_status =
  tt_phase :: string
  tt_message :: string
  tt_observed_generation :: int
  tt_conditions :: "condition list"

record traffic_scenario =
  ts_namespace :: string
  ts_name :: string
  ts_uid :: string
  ts_generation :: int
  ts_deletion_timestamp :: "int option"
  ts_finalizers :: "string list"
  ts_spec :: traffic_scenario_spec
  ts_status :: traffic_scenario_status

lemmas scenario_constants = RateScheduleTypeFixed_def RateScheduleTypeUniform_def
  RateLimiterTypeLocal_def RateLimiterTypeRedis_def RateProfileTypeFixed_def
  RateProfileTypeUniform_def RateProfileTypeBurst_def StorageTypeMemory_def StorageTypeRedis_def

lemmas phase_constants = PhaseProgressing_def PhaseReady_def PhaseDegraded_def PhaseSuspended_def
  PhaseFailed_def ConditionReady_def ConditionProgressing_def ConditionDegraded_def
  ConditionSuspended_def

end
