(* ===== verification/Config_Json.thy ===== *)
theory Config_Json
  imports Templates "HOL-Library.List_Lexorder"
begin

section \<open>The configuration as JSON\<close>

text \<open>
  \<open>json.Marshal\<close> of a \<open>runner.Config\<close>, as the tags of \<open>internal/runner/config.go\<close> direct it:
  fields in the order of the struct, \<open>omitempty\<close> fields left out when zero, map keys sorted,
  strings escaped for HTML. A list that is empty and not \<open>omitempty\<close> is written \<open>[]\<close>; Go
  writes \<open>null\<close> for a nil slice, which no validated configuration has there.
\<close>

fun json_text :: "json \<Rightarrow> string" where
  "json_text JNull = ''null''"
| "json_text (JBool b) = (if b then ''true'' else ''false'')"
| "json_text (JNumber n) = n"
| "json_text (JString s) = CHR 0x22 # json_escape s @ [CHR 0x22]"
| "json_text (JArray xs) = ''['' @ join '','' (map json_text xs) @ '']''"
| "json_text (JObject kvs) =
     ''{'' @ join '','' (map (\<lambda>(k, v). CHR 0x22 # json_escape k @ [CHR 0x22] @ '':'' @ json_text v) kvs) @ ''}''"

definition j_int :: "int \<Rightarrow> json" where "j_int n = JNumber (itoa n)"

definition opt_string :: "string \<Rightarrow> string \<Rightarrow> (string \<times> json) list" where
  "opt_string k s = (if s = '''' then [] else [(k, JString s)])"

definition opt_int :: "string \<Rightarrow> int \<Rightarrow> (string \<times> json) list" where
  "opt_int k n = (if n = 0 then [] else [(k, j_int n)])"

definition opt_list :: "string \<Rightarrow> ('a \<Rightarrow> json) \<Rightarrow> 'a list \<Rightarrow> (string \<times> json) list" where
  "opt_list k f xs = (if xs = [] then [] else [(k, JArray (map f xs))])"

definition opt_pointer :: "string \<Rightarrow> ('a \<Rightarrow> json) \<Rightarrow> 'a option \<Rightarrow> (string \<times> json) list" where
  "opt_pointer k f p = (case p of None \<Rightarrow> [] | Some x \<Rightarrow> [(k, f x)])"

definition sorted_pairs :: "(string \<times> string) list \<Rightarrow> (string \<times> string) list" where
  "sorted_pairs kvs = sort_key (\<lambda>kv. map byte_of (fst kv)) kvs"

definition opt_headers :: "string \<Rightarrow> (string \<times> string) list \<Rightarrow> (string \<times> json) list" where
  "opt_headers k hs =
     (if hs = [] then [] else [(k, JObject (map (\<lambda>(n, v). (n, JString v)) (sorted_pairs hs)))])"

definition schedule_json :: "rate_schedule_config \<Rightarrow> json" where
  "schedule_json s = JObject ((''type'', JString (rs_type s))
     # opt_int ''requestsPerMinute'' (rs_requests_per_minute s)
     @ opt_int ''minRequestsPerMinute'' (rs_min_requests_per_minute s)
     @ opt_int ''maxRequestsPerMinute'' (rs_max_requests_per_minute s)
     @ opt_int ''windowMinutes'' (rs_window_minutes s))"

definition profile_json :: "rate_profile_config \<Rightarrow> json" where
  "profile_json p = JObject (opt_string ''type'' (rp_type p)
     @ opt_int ''minBurstSize'' (rp_min_burst_size p)
     @ opt_int ''maxBurstSize'' (rp_max_burst_size p)
     @ opt_int ''delayDivisor'' (rp_delay_divisor p))"

definition rate_json :: "rate_config \<Rightarrow> json" where
  "rate_json r = JObject ((''schedule'', schedule_json (rc_schedule r))
     # opt_pointer ''limiter'' (\<lambda>l. JObject (opt_string ''type'' (rl_type l))) (rc_limiter r)
     @ opt_pointer ''profile'' profile_json (rc_profile r))"

definition store_json :: "store_config \<Rightarrow> json" where
  "store_json s = JObject [(''name'', JString (st_name s)), (''capacity'', j_int (st_capacity s))]"

definition secret_header_json :: "secret_header_config \<Rightarrow> json" where
  "secret_header_json h = JObject [(''name'', JString (sh_name h)), (''valueFile'', JString (sh_value_file h))]"

definition variable_json :: "variable_config \<Rightarrow> json" where
  "variable_json v = JObject [(''name'', JString (vc_name v)),
     (''source'', JObject ((''type'', JString (vs_type (vc_source v)))
        # opt_string ''store'' (vs_store (vc_source v)) @ opt_int ''length'' (vs_length (vc_source v))))]"

definition request_json :: "request_config \<Rightarrow> json" where
  "request_json r = JObject ((''method'', JString (rq_method r))
     # (''pathTemplate'', JString (rq_path_template r))
     # opt_headers ''headers'' (rq_headers r)
     @ opt_list ''secretHeaders'' secret_header_json (rq_secret_headers r)
     @ opt_string ''bodyTemplate'' (rq_body_template r)
     @ opt_list ''variables'' variable_json (rq_variables r))"

definition capture_json :: "capture_config \<Rightarrow> json" where
  "capture_json c = JObject [(''jsonPointer'', JString (cc_json_pointer c)), (''store'', JString (cc_store c))]"

definition operation_json :: "operation_config \<Rightarrow> json" where
  "operation_json x = JObject ([(''name'', JString (oc_name x)), (''weight'', j_int (oc_weight x)),
      (''request'', request_json (oc_request x)),
      (''expectedStatusCodes'', JArray (map j_int (oc_expected_status_codes x)))]
     @ opt_pointer ''capture'' capture_json (oc_capture x))"

definition config_json :: "config \<Rightarrow> json" where
  "config_json c = JObject ([(''target'', JObject [(''baseURL'', JString (tc_base_url (cf_target c)))]),
      (''rate'', rate_json (cf_rate c))]
     @ opt_list ''stores'' store_json (cf_stores c)
     @ [(''operations'', JArray (map operation_json (cf_operations c)))])"

definition marshal_config :: "config \<Rightarrow> string" where
  "marshal_config c = json_text (config_json c)"

end
