(* ===== verification/Sha256.thy ===== *)
theory Sha256
  imports Templates
begin

section \<open>SHA-256\<close>

text \<open>
  \<open>crypto/sha256\<close> of Go's standard library (FIPS 180-4), which the controller uses for runner
  names, labels and the hash of the configuration; \<open>sha256_hex\<close> is \<open>fmt.Sprintf("%x", sum)\<close>.
\<close>

unbundle bit_operations_syntax

type_synonym word32 = "32 word"

text \<open>
  The constants of the standard are the first 32 bits after the binary point of the square roots
  of the first eight primes and of the cube roots of the first 64; \<open>root_below k x n 0\<close> is the
  largest number of \<open>n\<close> bits whose \<open>k\<close>-th power is at most \<open>x\<close>.
\<close>

fun root_below :: "nat \<Rightarrow> int \<Rightarrow> nat \<Rightarrow> int \<Rightarrow> int" where
  "root_below k x 0 r = r"
| "root_below k x (Suc i) r = root_below k x i (if (r + 2 ^ i) ^ k \<le> x then r + 2 ^ i else r)"

lemma root_below_max:
  assumes "r ^ k \<le> x" and "x < (r + 2 ^ n) ^ k"
  shows "root_below k x n r ^ k \<le> x \<and> x < (root_below k x n r + 1) ^ k"
  using assms
proof (induction n arbitrary: r)
  case (Suc n)
  show ?case
  proof (cases "(r + 2 ^ n) ^ k \<le> x")
    case True
    moreover have "r + 2 ^ Suc n = r + 2 ^ n + 2 ^ n" by simp
    with Suc.prems(2) have "x < (r + 2 ^ n + 2 ^ n) ^ k" by (simp only:)
    ultimately show ?thesis using Suc.IH [of "r + 2 ^ n"] by simp
  next
    case False
    then have "x < (r + 2 ^ n) ^ k" by simp
    then show ?thesis using Suc.IH [of r] Suc.prems(1) False by simp
  qed
qed simp

definition small_primes :: "int list" where
  "small_primes = filter (\<lambda>n. list_all (\<lambda>d. n mod d \<noteq> 0) [2..n - 1]) [2..311]"

definition root_fraction :: "nat \<Rightarrow> int \<Rightarrow> word32" where
  "root_fraction k p = word_of_int (root_below k (p * 2 ^ (32 * k)) 40 0)"

definition round_constants :: "word32 list" where
  "round_constants = map (root_fraction 3) small_primes"

type_synonym hash_state = "word32 \<times> word32 \<times> word32 \<times> word32 \<times> word32 \<times> word32 \<times> word32 \<times> word32"

definition initial_hash :: hash_state where
  "initial_hash =
     (let h = (\<lambda>i. root_fraction 2 (small_primes ! i)) in (h 0, h 1, h 2, h 3, h 4, h 5, h 6, h 7))"

definition word_of_bytes :: "8 word list \<Rightarrow> word32" where
  "word_of_bytes bs = foldl (\<lambda>acc b. push_bit 8 acc OR ucast b) 0 bs"

definition bytes_of_word :: "word32 \<Rightarrow> 8 word list" where
  "bytes_of_word w = [ucast (drop_bit 24 w), ucast (drop_bit 16 w), ucast (drop_bit 8 w), ucast w]"

fun chunks_of :: "nat \<Rightarrow> nat \<Rightarrow> 'a list \<Rightarrow> 'a list list" where
  "chunks_of n 0 xs = []"
| "chunks_of n (Suc k) xs = take n xs # chunks_of n k (drop n xs)"

text \<open>The message, a one bit, zeros, and the length in bits as eight bytes.\<close>

definition padded :: "8 word list \<Rightarrow> 8 word list" where
  "padded bs =
     (let n = length bs; zeros = (119 - n mod 64) mod 64
      in bs @ [0x80] @ replicate zeros 0
           @ map (\<lambda>i. ucast (drop_bit (8 * (7 - i)) (word_of_nat (8 * n) :: 64 word))) [0..<8])"

definition extend_schedule :: "word32 list \<Rightarrow> word32 list" where
  "extend_schedule ws =
     (let n = length ws; a = ws ! (n - 15); b = ws ! (n - 2);
          s0 = word_rotr 7 a XOR word_rotr 18 a XOR drop_bit 3 a;
          s1 = word_rotr 17 b XOR word_rotr 19 b XOR drop_bit 10 b
      in ws @ [ws ! (n - 16) + s0 + ws ! (n - 7) + s1])"

definition message_schedule :: "8 word list \<Rightarrow> word32 list" where
  "message_schedule chunk = (extend_schedule ^^ 48) (map word_of_bytes (chunks_of 4 16 chunk))"

fun compress_round :: "hash_state \<Rightarrow> word32 \<times> word32 \<Rightarrow> hash_state" where
  "compress_round (a, b, c, d, e, f, g, h) (k, w) =
     (let s1 = word_rotr 6 e XOR word_rotr 11 e XOR word_rotr 25 e;
          ch = (e AND f) XOR (NOT e AND g);
          t1 = h + s1 + ch + k + w;
          s0 = word_rotr 2 a XOR word_rotr 13 a XOR word_rotr 22 a;
          maj = (a AND b) XOR (a AND c) XOR (b AND c);
          t2 = s0 + maj
      in (t1 + t2, a, b, c, d + t1, e, f, g))"

definition add_state :: "hash_state \<Rightarrow> hash_state \<Rightarrow> hash_state" where
  "add_state x y =
     (case (x, y) of ((a, b, c, d, e, f, g, h), (a', b', c', d', e', f', g', h')) \<Rightarrow>
        (a + a', b + b', c + c', d + d', e + e', f + f', g + g', h + h'))"

definition compress :: "hash_state \<Rightarrow> 8 word list \<Rightarrow> hash_state" where
  "compress st chunk = add_state st (foldl compress_round st (zip round_constants (message_schedule chunk)))"

definition sha256 :: "8 word list \<Rightarrow> 8 word list" where
  "sha256 bs =
     (let p = padded bs
      in case foldl compress initial_hash (chunks_of 64 (length p div 64) p) of
           (a, b, c, d, e, f, g, h) \<Rightarrow> concat (map bytes_of_word [a, b, c, d, e, f, g, h]))"

text \<open>On strings, whose characters are bytes.\<close>

definition sha256_hex :: "string \<Rightarrow> string" where
  "sha256_hex s = hex (sha256 (map of_char s))"

lemma sha256_length [simp]: "length (sha256 bs) = 32"
  by (simp add: sha256_def Let_def bytes_of_word_def split: prod.splits)


lemma sha256_hex_length [simp]: "length (sha256_hex s) = 64"
  by (simp add: sha256_hex_def hex_byte_length)

end
