(* ===== verification/Scenario_Config.thy ===== *)
theory Scenario_Config
  imports Traffic_Scenario Config_Json Sha256
begin

section \<open>From a scenario to the runner's names and configuration\<close>

text \<open>
  \<open>internal/controller/trafficscenario_identity.go\<close>, \<open>trafficscenario_config.go\<close> and
  \<open>trafficscenario_secrets.go\<close>: the names of the runner's objects, the configuration a
  scenario stands for, and the volume that projects its secret headers.
\<close>

subsection \<open>Identity\<close>

definition maxRunnerNameLength :: nat where "maxRunnerNameLength = 63"
definition runnerNameSuffix :: string where "runnerNameSuffix = ''-runner''"
definition scenarioHashLength :: nat where "scenarioHashLength = 8"
definition scenarioNameAnnotation :: string where
  "scenarioNameAnnotation = ''traffic.kurama.dev/scenario-name''"
definition maxLabelValueLength :: nat where "maxLabelValueLength = 63"
definition hashedScenarioLabelPrefix :: string where "hashedScenarioLabelPrefix = ''sha256-''"
definition componentLabel :: string where "componentLabel = ''app.kubernetes.io/component''"
definition scenarioLabel :: string where "scenarioLabel = ''traffic.kurama.dev/scenario''"

lemmas identity_constants = maxRunnerNameLength_def runnerNameSuffix_def scenarioHashLength_def
  scenarioNameAnnotation_def maxLabelValueLength_def hashedScenarioLabelPrefix_def
  componentLabel_def scenarioLabel_def

definition scenarioHash :: "string \<Rightarrow> string" where
  "scenarioHash scenarioName = take scenarioHashLength (sha256_hex scenarioName)"

definition runnerName :: "string \<Rightarrow> string" where
  "runnerName scenarioName =
     (if length scenarioName + length runnerNameSuffix \<le> maxRunnerNameLength
      then scenarioName @ runnerNameSuffix
      else
        (let hash = scenarioHash scenarioName;
             maxPrefixLength = maxRunnerNameLength - length runnerNameSuffix - 1 - length hash;
             prefix = trim_right (take maxPrefixLength scenarioName) ''.-''
         in prefix @ ''-'' @ hash @ runnerNameSuffix))"

definition scenarioLabelValue :: "string \<Rightarrow> string" where
  "scenarioLabelValue scenarioName =
     (if length scenarioName \<le> maxLabelValueLength then scenarioName
      else hashedScenarioLabelPrefix @ scenarioHash scenarioName)"

definition labels :: "traffic_scenario \<Rightarrow> (string \<times> string) list" where
  "labels scenario =
     [(componentLabel, ''runner''), (scenarioLabel, scenarioLabelValue (ts_name scenario))]"

definition scenarioAnnotations :: "traffic_scenario \<Rightarrow> (string \<times> string) list" where
  "scenarioAnnotations scenario =
     (if length (ts_name scenario) + length runnerNameSuffix \<le> maxRunnerNameLength then []
      else [(scenarioNameAnnotation, ts_name scenario)])"

subsection \<open>Backends\<close>

definition runnerReplicas :: "traffic_scenario \<Rightarrow> int" where
  "runnerReplicas scenario = (if sp_replicas (ts_spec scenario) = 0 then 1 else sp_replicas (ts_spec scenario))"

definition storageBackend :: "traffic_scenario \<Rightarrow> string" where
  "storageBackend scenario =
     (case sp_storage (ts_spec scenario) of
        None \<Rightarrow> StorageTypeMemory
      | Some s \<Rightarrow> if sg_type s = '''' then StorageTypeMemory else sg_type s)"

definition rateLimiterBackend :: "traffic_scenario \<Rightarrow> string" where
  "rateLimiterBackend scenario =
     (let implied = (if storageBackend scenario = StorageTypeRedis then RateLimiterTypeRedis else RateLimiterTypeLocal)
      in case ra_limiter (sp_rate (ts_spec scenario)) of
           None \<Rightarrow> implied
         | Some l \<Rightarrow> if ls_type l \<noteq> '''' then ls_type l else implied)"

definition rateProfileType :: "traffic_scenario \<Rightarrow> string" where
  "rateProfileType scenario =
     (case ra_profile (sp_rate (ts_spec scenario)) of
        None \<Rightarrow> RateProfileTypeFixed
      | Some p \<Rightarrow> if ps_type p = '''' then RateProfileTypeFixed else ps_type p)"

definition requiresRedis :: "traffic_scenario \<Rightarrow> bool" where
  "requiresRedis scenario \<longleftrightarrow>
     storageBackend scenario = StorageTypeRedis
     \<or> rateLimiterBackend scenario = RateLimiterTypeRedis
     \<or> ss_type (ra_schedule (sp_rate (ts_spec scenario))) = RateScheduleTypeUniform"

definition rateProfileMinBurstSize :: "traffic_scenario \<Rightarrow> int" where
  "rateProfileMinBurstSize scenario =
     (case ra_profile (sp_rate (ts_spec scenario)) of None \<Rightarrow> 0 | Some p \<Rightarrow> ps_min_burst_size p)"

definition rateProfileMaxBurstSize :: "traffic_scenario \<Rightarrow> int" where
  "rateProfileMaxBurstSize scenario =
     (case ra_profile (sp_rate (ts_spec scenario)) of None \<Rightarrow> 0 | Some p \<Rightarrow> ps_max_burst_size p)"

definition rateProfileDelayDivisor :: "traffic_scenario \<Rightarrow> int" where
  "rateProfileDelayDivisor scenario =
     (case ra_profile (sp_rate (ts_spec scenario)) of None \<Rightarrow> 0 | Some p \<Rightarrow> ps_delay_divisor p)"

subsection \<open>Secret headers\<close>

text \<open>\<open>%03d\<close> of a natural number, and \<open>path.Join\<close> of two non-empty elements.\<close>

definition pad3 :: "nat \<Rightarrow> string" where
  "pad3 n = replicate (3 - length (nat_str n)) (CHR ''0'') @ nat_str n"

definition path_join :: "string \<Rightarrow> string \<Rightarrow> string" where
  "path_join a b = clean_path (a @ ''/'' @ b)"

definition secretHeadersVolumeName :: string where "secretHeadersVolumeName = ''request-secrets''"

definition secretHeaderRelativePath :: "nat \<Rightarrow> nat \<Rightarrow> string" where
  "secretHeaderRelativePath operationIndex headerIndex =
     ''operation-'' @ pad3 operationIndex @ ''-header-'' @ pad3 headerIndex"

definition secretHeaderFilePath :: "nat \<Rightarrow> nat \<Rightarrow> string" where
  "secretHeaderFilePath operationIndex headerIndex =
     path_join SecretHeadersMountPath (secretHeaderRelativePath operationIndex headerIndex)"

subsection \<open>Configuration\<close>

definition convert_secret_header :: "nat \<Rightarrow> nat \<times> secret_header_spec \<Rightarrow> secret_header_config" where
  "convert_secret_header i jh =
     \<lparr>sh_name = se_name (snd jh), sh_value_file = secretHeaderFilePath i (fst jh)\<rparr>"

definition convert_variable :: "variable_spec \<Rightarrow> variable_config" where
  "convert_variable v =
     \<lparr>vc_name = va_name v,
      vc_source = \<lparr>vs_type = vr_type (va_source v), vs_store = vr_store (va_source v),
                   vs_length = vr_length (va_source v)\<rparr>\<rparr>"

definition convert_operation :: "nat \<Rightarrow> operation_spec \<Rightarrow> operation_config" where
  "convert_operation i x =
     \<lparr>oc_name = op_name x, oc_weight = op_weight x,
      oc_request =
        \<lparr>rq_method = re_method (op_request x),
         rq_path_template = re_path_template (op_request x),
         rq_headers = re_headers (op_request x),
         rq_secret_headers =
           map (convert_secret_header i) (List.enumerate 0 (re_secret_headers (op_request x))),
         rq_body_template = re_body_template (op_request x),
         rq_variables = map convert_variable (re_variables (op_request x))\<rparr>,
      oc_expected_status_codes = op_expected_status_codes x,
      oc_capture = map_option (\<lambda>c. \<lparr>cc_json_pointer = ca_json_pointer c, cc_store = ca_store c\<rparr>)
                     (op_capture x)\<rparr>"

definition scenarioRunnerConfig :: "traffic_scenario \<Rightarrow> config" where
  "scenarioRunnerConfig scenario =
     (let spec = ts_spec scenario; schedule = ra_schedule (sp_rate spec)
      in \<lparr>cf_target = \<lparr>tc_base_url = tg_base_url (sp_target spec)\<rparr>,
          cf_rate =
            \<lparr>rc_schedule =
               \<lparr>rs_type = ss_type schedule,
                rs_requests_per_minute = ss_requests_per_minute schedule,
                rs_min_requests_per_minute = ss_min_requests_per_minute schedule,
                rs_max_requests_per_minute = ss_max_requests_per_minute schedule,
                rs_window_minutes = ss_window_minutes schedule\<rparr>,
             rc_limiter = Some \<lparr>rl_type = rateLimiterBackend scenario\<rparr>,
             rc_profile = Some
               \<lparr>rp_type = rateProfileType scenario,
                rp_min_burst_size = rateProfileMinBurstSize scenario,
                rp_max_burst_size = rateProfileMaxBurstSize scenario,
                rp_delay_divisor = rateProfileDelayDivisor scenario\<rparr>\<rparr>,
          cf_stores = map (\<lambda>s. \<lparr>st_name = so_name s, st_capacity = so_capacity s\<rparr>) (sp_stores spec),
          cf_operations = map (\<lambda>(i, x). convert_operation i x) (List.enumerate 0 (sp_operations spec))\<rparr>)"

text \<open>Marshalling these types cannot fail, so there is no error branch.\<close>

definition scenarioConfigJSON :: "traffic_scenario \<Rightarrow> string" where
  "scenarioConfigJSON scenario = marshal_config (scenarioRunnerConfig scenario)"

definition configHash :: "string \<Rightarrow> string" where
  "configHash config = sha256_hex config"

subsection \<open>Names\<close>

text \<open>An RFC 1123 subdomain, which Kubernetes asks of the names of these objects.\<close>

definition alnum_lower :: "char \<Rightarrow> bool" where
  "alnum_lower c \<longleftrightarrow> (let n = byte_of c in (97 \<le> n \<and> n \<le> 122) \<or> (48 \<le> n \<and> n \<le> 57))"

definition dns_label :: "string \<Rightarrow> bool" where
  "dns_label s \<longleftrightarrow> s \<noteq> [] \<and> alnum_lower (hd s) \<and> alnum_lower (last s)
     \<and> list_all (\<lambda>c. alnum_lower c \<or> c = CHR ''-'') s"

definition dns_subdomain :: "string \<Rightarrow> bool" where
  "dns_subdomain s \<longleftrightarrow> length s \<le> 253 \<and> list_all dns_label (split_on CHR ''.'' s)"

lemma split_on_append:
  "split_on c (p @ r)
    = butlast (split_on c p) @ (last (split_on c p) @ hd (split_on c r)) # tl (split_on c r)"
proof (induction p)
  case Nil
  then show ?case by (cases "split_on c r") auto
next
  case (Cons x p)
  then show ?case by (cases "split_on c p"; cases "butlast (split_on c p)") (auto split: list.splits)
qed

lemma dns_label_append_suffix:
  assumes "dns_label (w @ r)" "w \<noteq> []" "dns_label t"
  shows "dns_label (w @ CHR ''-'' # t)"
  using assms by (auto simp: dns_label_def)

lemma split_on_last: "last (split_on c p) = [] \<Longrightarrow> p = [] \<or> last p = c"
proof (induction p)
  case (Cons x p)
  show ?case
  proof (cases "split_on c p")
    case (Cons w ws)
    then show ?thesis using Cons.IH Cons.prems by (cases ws) (auto split: if_splits)
  qed simp
qed simp

lemma labels_extend:
  assumes "list_all dns_label (split_on CHR ''.'' (p @ r))" "p \<noteq> []" "last p \<noteq> CHR ''.''" "dns_label t"
  shows "list_all dns_label (split_on CHR ''.'' (p @ CHR ''-'' # t))"
proof -
  let ?s = "split_on CHR ''.''"
  have t: "?s (CHR ''-'' # t) = [CHR ''-'' # t]"
    using assms(4) by (intro split_on_no_sep) (auto simp: dns_label_def list_all_iff alnum_lower_def byte_of_def)
  have "last (?s p) \<noteq> []" using split_on_last assms(2,3) by blast
  moreover have "dns_label (last (?s p) @ hd (?s r))" "list_all dns_label (butlast (?s p))"
    using assms(1) by (simp_all add: split_on_append)
  ultimately show ?thesis
    using dns_label_append_suffix assms(4) by (simp add: split_on_append t del: split_on.simps)
qed

lemma alnum_hex: "c \<in> set ''0123456789abcdef'' \<Longrightarrow> alnum_lower c"
  by (auto simp: alnum_lower_def byte_of_def)

lemma scenarioHash_props:
  "length (scenarioHash s) = 8" "list_all alnum_lower (scenarioHash s)"
proof -
  show "length (scenarioHash s) = 8" by (simp add: scenarioHash_def scenarioHashLength_def)
  have "set (sha256_hex s) \<subseteq> set ''0123456789abcdef''"
    using hex_hex_text [of "sha256 (map of_char s)"] unfolding hex_text_def sha256_hex_def by blast
  then show "list_all alnum_lower (scenarioHash s)"
    using alnum_hex set_take_subset [of scenarioHashLength "sha256_hex s"]
    unfolding scenarioHash_def list_all_iff by blast
qed

lemma hash_suffix_label: "dns_label (scenarioHash s @ runnerNameSuffix)"
proof -
  obtain a b where h: "scenarioHash s = a # b"
    using scenarioHash_props(1) [of s] by (cases "scenarioHash s") auto
  show ?thesis using scenarioHash_props(2) [of s]
    by (auto simp: h dns_label_def runnerNameSuffix_def alnum_lower_def byte_of_def list_all_iff)
qed

abbreviation name_prefix :: "string \<Rightarrow> string" where
  "name_prefix s \<equiv> trim_right (take 47 s) ''.-''"

lemma runnerName_cases:
  "runnerName s = (if length s \<le> 56 then s @ runnerNameSuffix
    else name_prefix s @ ''-'' @ scenarioHash s @ runnerNameSuffix)"
  using scenarioHash_props(1) [of s]
  by (simp add: runnerName_def Let_def maxRunnerNameLength_def runnerNameSuffix_def)

lemma trim_right_last: "trim_right s cs = [] \<or> last (trim_right s cs) \<notin> set cs"
  unfolding trim_right_def last_rev by (metis hd_dropWhile rev_is_Nil_conv hd_rev last_rev)

lemma name_prefix_facts:
  assumes "dns_subdomain s" "56 < length s"
  obtains r where "s = name_prefix s @ r" "name_prefix s \<noteq> []" "last (name_prefix s) \<notin> set ''.-''"
proof -
  obtain q where q: "take 47 s = name_prefix s @ q" "set q \<subseteq> set ''.-''" using trim_right_suffix by blast
  have n: "name_prefix s \<noteq> []"
  proof
    assume e: "name_prefix s = []"
    then have "set (take 47 s) \<subseteq> set ''.-''" using q by simp
    moreover obtain c u where s: "s = c # u" using assms(2) by (cases s) auto
    ultimately have c: "c = CHR ''.'' \<or> c = CHR ''-''" by simp
    have "hd (split_on CHR ''.'' s) = [] \<or> hd (hd (split_on CHR ''.'' s)) = CHR ''-''"
      using c by (auto simp: s split: list.splits)
    moreover have "dns_label (hd (split_on CHR ''.'' s))"
      using assms(1) by (cases "split_on CHR ''.'' s") (simp_all add: dns_subdomain_def)
    ultimately show False by (auto simp: dns_label_def alnum_lower_def byte_of_def)
  qed
  have "s = name_prefix s @ (q @ drop 47 s)" using q(1) by (metis append_assoc append_take_drop_id)
  then show ?thesis using that n trim_right_last by blast
qed

lemma runnerName_length: "length (runnerName s) \<le> 63"
proof -
  obtain q where "take 47 s = name_prefix s @ q" using trim_right_suffix by blast
  then have "length (name_prefix s) \<le> length (take 47 s)" by (metis length_append le_add1)
  then show ?thesis using scenarioHash_props(1) [of s] by (auto simp: runnerName_cases runnerNameSuffix_def)
qed

text \<open>
  C40. Every scenario name Kubernetes accepts gives a runner name that Kubernetes accepts for
  a Deployment and a ConfigMap and that also fits a label value: a subdomain of at most 63
  characters, whatever is cut off a long name.
\<close>

theorem runner_name_valid:
  assumes "dns_subdomain s"
  shows "dns_subdomain (runnerName s) \<and> length (runnerName s) \<le> 63"
proof -
  have l: "list_all dns_label (split_on CHR ''.'' s)" using assms by (simp add: dns_subdomain_def)
  have "list_all dns_label (split_on CHR ''.'' (runnerName s))"
  proof (cases "length s \<le> 56")
    case True
    have "s \<noteq> []" using l by (auto simp: dns_label_def)
    moreover have "last s \<noteq> CHR ''.''"
    proof
      assume "last s = CHR ''.''"
      then obtain u where "s = u @ ''.''" using \<open>s \<noteq> []\<close> by (metis append_butlast_last_id)
      then show False using l by (simp add: split_on_append dns_label_def)
    qed
    moreover have "dns_label ''runner''" by (simp add: dns_label_def alnum_lower_def byte_of_def)
    ultimately show ?thesis
      using labels_extend [of s "[]" "''runner''"] l True by (simp add: runnerName_cases runnerNameSuffix_def)
  next
    case False
    then obtain r where r: "s = name_prefix s @ r" "name_prefix s \<noteq> []" "last (name_prefix s) \<notin> set ''.-''"
      using name_prefix_facts assms by (metis not_le)
    then show ?thesis
      using labels_extend [of "name_prefix s" r] hash_suffix_label l False
      by (simp add: runnerName_cases)
  qed
  then show ?thesis using runnerName_length [of s] by (simp add: dns_subdomain_def)
qed

theorem runner_name_valid_witness:
  "dns_subdomain (runnerName ''checkout.v2'') \<and> length (runnerName ''checkout.v2'') \<le> 63"
  by (rule runner_name_valid) (simp add: dns_subdomain_def dns_label_def alnum_lower_def byte_of_def)

text \<open>
  Two names share a runner name only through the hash: two long names with the same hash, or
  a short name that is itself the cut and hashed form of a long one.
\<close>

theorem runner_names_distinct:
  assumes "runnerName a = runnerName b"
  shows "a = b \<or> (56 < length a \<and> 56 < length b \<and> scenarioHash a = scenarioHash b)
    \<or> (length a \<le> 56 \<and> 56 < length b \<and> a = name_prefix b @ ''-'' @ scenarioHash b)
    \<or> (length b \<le> 56 \<and> 56 < length a \<and> b = name_prefix a @ ''-'' @ scenarioHash a)"
proof -
  have h: "length (scenarioHash a) = length (scenarioHash b)" by (simp add: scenarioHash_props)
  have "x @ ''-'' @ scenarioHash a = y @ ''-'' @ scenarioHash b \<Longrightarrow> scenarioHash a = scenarioHash b" for x y
    using append_eq_append_conv [of "scenarioHash a" "scenarioHash b" "x @ ''-''" "y @ ''-''"] h by simp
  then show ?thesis using assms by (auto simp: runnerName_cases split: if_splits)
qed

subsection \<open>Secret files\<close>

lemma digits_val_zeros: "digits_val 0 (replicate n (CHR ''0'') @ s) = digits_val 0 s"
  by (induction n) (simp_all add: digit_of_def)

lemma digits_val_pad3: "digits_val 0 (pad3 n) = Some n"
  by (simp add: pad3_def digits_val_zeros digits_val_nat_str)

lemma pad3_inject: "pad3 m = pad3 n \<longleftrightarrow> m = n"
  using digits_val_pad3 by (metis option.inject)

lemma pad3_chars: "c \<in> set (pad3 n) \<Longrightarrow> \<exists>d < 10. c = digit_char d"
proof -
  assume "c \<in> set (pad3 n)"
  then have "c = digit_char 0 \<or> c \<in> set (nat_str n)" by (auto simp: pad3_def digit_char_def char_of_def bit_0)
  then show ?thesis using nat_str_digits by fastforce
qed

lemma pad3_no_dash: "CHR ''-'' \<notin> set (pad3 n)" "CHR ''/'' \<notin> set (pad3 n)"
  using pad3_chars [of _ n] digit_char_neq by metis+

lemma relative_path_inject:
  "secretHeaderRelativePath i j = secretHeaderRelativePath i' j' \<longleftrightarrow> i = i' \<and> j = j'"
proof
  assume "secretHeaderRelativePath i j = secretHeaderRelativePath i' j'"
  then have e: "pad3 i @ ''-header-'' @ pad3 j = pad3 i' @ ''-header-'' @ pad3 j'"
    by (simp add: secretHeaderRelativePath_def)
  have s: "split_on CHR ''-'' (pad3 k @ ''-header-'' @ pad3 l) = [pad3 k, ''header'', pad3 l]" for k l
    using split_on_append_sep [OF pad3_no_dash(1), of k "''header-'' @ pad3 l"] split_on_no_sep [OF pad3_no_dash(1) [of l]]
    by simp
  then show "i = i' \<and> j = j'" using arg_cong [OF e, of "split_on CHR ''-''"] by (simp add: pad3_inject)
qed simp

lemma relative_path_plain:
  "CHR ''/'' \<notin> set (secretHeaderRelativePath i j)" "secretHeaderRelativePath i j \<noteq> []"
  "hd (secretHeaderRelativePath i j) = CHR ''o''"
  using pad3_no_dash by (auto simp: secretHeaderRelativePath_def)

lemma mounted_path_clean:
  "clean_path (SecretHeadersMountPath @ ''/'' @ secretHeaderRelativePath i j)
    = SecretHeadersMountPath @ ''/'' @ secretHeaderRelativePath i j"
proof -
  let ?r = "secretHeaderRelativePath i j"
  have r: "?r \<noteq> ''.''" "?r \<noteq> ''..''" "?r \<noteq> []" using relative_path_plain [of i j] by auto
  have "split_on CHR ''/'' (SecretHeadersMountPath @ ''/'' @ ?r)
      = ['''', ''var'', ''run'', ''kurama'', ''request-secrets'', ?r]"
    using split_on_no_sep [OF relative_path_plain(1) [of i j]] by (simp add: SecretHeadersMountPath_def)
  then have "clean_segments (SecretHeadersMountPath @ ''/'' @ ?r) = [''var'', ''run'', ''kurama'', ''request-secrets'', ?r]"
    using r by (simp add: clean_segments_def clean_step_def has_prefix_def SecretHeadersMountPath_def)
  then show ?thesis by (simp add: clean_path_def SecretHeadersMountPath_def has_prefix_def)
qed

lemma secret_file_path:
  "secretHeaderFilePath i j = SecretHeadersMountPath @ ''/'' @ secretHeaderRelativePath i j"
  by (simp only: secretHeaderFilePath_def path_join_def mounted_path_clean)

lemma secret_file_allowed: "secretHeaderPathAllowed (secretHeaderFilePath i j)"
  unfolding secretHeaderPathAllowed_def secret_file_path mounted_path_clean clean_mount
  by (simp add: SecretHeadersMountPath_def has_prefix_def)

end
