(* ===== verification/Scenario_Objects.thy ===== *)
theory Scenario_Objects
  imports Scenario_Config "HOL-Library.AList"
begin

section \<open>The objects a scenario asks for\<close>

text \<open>
  \<open>trafficscenario_secrets.go\<close>, \<open>trafficscenario_runner_pod.go\<close> and
  \<open>trafficscenario_resources.go\<close>: the ConfigMap and the Deployment of a runner. The
  Kubernetes types are records of the fields the controller sets or reads; what else an
  object holds is the opaque field \<open>\<dots>_other\<close>, which the controller must not disturb. A
  Go pointer is an option. The constants of \<open>internal/runner/environment.go\<close> and
  \<open>server.go\<close>, which the controller shares with the runner, are here too.
\<close>

subsection \<open>Constants shared with the runner\<close>

definition StoreBackendEnv :: string where "StoreBackendEnv = ''KURAMA_STORE_BACKEND''"
definition RedisAddressEnv :: string where "RedisAddressEnv = ''KURAMA_REDIS_ADDR''"
definition NamespaceEnv :: string where "NamespaceEnv = ''KURAMA_NAMESPACE''"
definition ScenarioEnv :: string where "ScenarioEnv = ''KURAMA_SCENARIO''"
definition ScenarioUIDEnv :: string where "ScenarioUIDEnv = ''KURAMA_SCENARIO_UID''"
definition MetricsAddrEnv :: string where "MetricsAddrEnv = ''KURAMA_METRICS_ADDR''"

definition MetricsPortName :: string where "MetricsPortName = ''metrics''"
definition MetricsPort :: int where "MetricsPort = 8080"
definition MetricsPath :: string where "MetricsPath = ''/metrics''"
definition HealthPath :: string where "HealthPath = ''/healthz''"
definition ReadinessPath :: string where "ReadinessPath = ''/readyz''"

lemmas environment_names = StoreBackendEnv_def RedisAddressEnv_def NamespaceEnv_def ScenarioEnv_def
  ScenarioUIDEnv_def MetricsAddrEnv_def

subsection \<open>Kubernetes types\<close>

record owner_ref =
  ow_kind :: string
  ow_name :: string
  ow_uid :: string
  ow_controller :: bool

record object_meta =
  om_namespace :: string
  om_name :: string
  om_labels :: "(string \<times> string) list"
  om_annotations :: "(string \<times> string) list"
  om_owners :: "owner_ref list"
  om_other :: string

record config_map =
  cm_meta :: object_meta
  cm_data :: "(string \<times> string) list"

datatype env_source = EnvValue string | EnvFieldRef string string

record env_var =
  ev_name :: string
  ev_source :: env_source

record volume_mount =
  vm_name :: string
  vm_path :: string
  vm_read_only :: bool

record container_port =
  cp_name :: string
  cp_port :: int
  cp_protocol :: string

record probe =
  pb_path :: string
  pb_port :: string
  pb_scheme :: string
  pb_timeout :: int
  pb_period :: int
  pb_success_threshold :: int
  pb_failure_threshold :: int

record resource_requirements =
  rq_requests :: resource_list
  rq_limits :: resource_list

record security_context =
  sx_privileged :: "bool option"
  sx_allow_escalation :: "bool option"
  sx_read_only_root :: "bool option"
  sx_drop :: "string list option"
  sx_other :: string

record pod_security_context =
  px_run_as_non_root :: "bool option"
  px_seccomp :: "string option"
  px_other :: string

record config_map_source =
  cs_name :: string
  cs_items :: "(string \<times> string) list"
  cs_optional :: "bool option"
  cs_default_mode :: "int option"

record secret_projection =
  pj_secret :: string
  pj_items :: "(string \<times> string) list"

datatype volume_source =
    ConfigMapVolume config_map_source
  | ProjectedVolume "secret_projection list" "int option"
  | OtherVolume string

record volume =
  vo_name :: string
  vo_source :: volume_source

record container =
  ct_name :: string
  ct_image :: string
  ct_command :: "string list"
  ct_args :: "string list"
  ct_env :: "env_var list"
  ct_resources :: resource_requirements
  ct_mounts :: "volume_mount list"
  ct_ports :: "container_port list"
  ct_startup :: "probe option"
  ct_liveness :: "probe option"
  ct_readiness :: "probe option"
  ct_security :: "security_context option"
  ct_other :: string

record pod_spec =
  pd_containers :: "container list"
  pd_volumes :: "volume list"
  pd_image_pull_secrets :: "string list"
  pd_automount_token :: "bool option"
  pd_service_links :: "bool option"
  pd_security :: "pod_security_context option"
  pd_other :: string

record rollout_strategy =
  sy_type :: string
  sy_max_unavailable :: "int option"
  sy_max_surge :: "int option"

record deployment_condition =
  dc_type :: string
  dc_status :: string
  dc_reason :: string
  dc_message :: string

record deployment_status =
  du_observed_generation :: int
  du_updated_replicas :: int
  du_available_replicas :: int
  du_unavailable_replicas :: int
  du_conditions :: "deployment_condition list"

record deployment =
  dp_meta :: object_meta
  dp_generation :: int
  dp_replicas :: "int option"
  dp_revision_history :: "int option"
  dp_progress_deadline :: "int option"
  dp_strategy :: rollout_strategy
  dp_selector :: "(string \<times> string) list"
  dp_template_labels :: "(string \<times> string) list"
  dp_template_annotations :: "(string \<times> string) list"
  dp_pod :: pod_spec
  dp_status :: deployment_status

subsection \<open>Secret volume\<close>

definition project_header :: "nat \<Rightarrow> nat \<times> secret_header_spec \<Rightarrow> secret_projection" where
  "project_header i jh =
     (let ref = sv_secret_key_ref (se_value_from (snd jh))
      in \<lparr>pj_secret = sk_name ref, pj_items = [(sk_key ref, secretHeaderRelativePath i (fst jh))]\<rparr>)"

definition secret_projections :: "traffic_scenario \<Rightarrow> secret_projection list" where
  "secret_projections scenario =
     concat (map (\<lambda>(i, x). map (project_header i) (List.enumerate 0 (re_secret_headers (op_request x))))
               (List.enumerate 0 (sp_operations (ts_spec scenario))))"

definition desiredSecretHeaderVolume :: "traffic_scenario \<Rightarrow> volume option" where
  "desiredSecretHeaderVolume scenario =
     (let projections = secret_projections scenario
      in if projections = [] then None
         else Some \<lparr>vo_name = secretHeadersVolumeName, vo_source = ProjectedVolume projections (Some 292)\<rparr>)"

subsection \<open>Pod\<close>

text \<open>The quantities of the constants, in nano-units: \<open>25m\<close> is 25 milli, \<open>Mi\<close> is \<open>2 ^ 20\<close>.\<close>

definition milli :: "int \<Rightarrow> quantity" where "milli n = n * 1000000"
definition mebi :: "int \<Rightarrow> quantity" where "mebi n = n * 1048576 * 1000000000"

definition defaultRunnerCPURequest :: quantity where "defaultRunnerCPURequest = milli 25"
definition defaultRunnerMemoryRequest :: quantity where "defaultRunnerMemoryRequest = mebi 32"
definition defaultRunnerEphemeralStorageRequest :: quantity where
  "defaultRunnerEphemeralStorageRequest = mebi 16"
definition defaultRunnerCPULimit :: quantity where "defaultRunnerCPULimit = milli 500"
definition defaultRunnerMemoryLimit :: quantity where "defaultRunnerMemoryLimit = mebi 128"
definition defaultRunnerEphemeralStorageLimit :: quantity where
  "defaultRunnerEphemeralStorageLimit = mebi 64"

definition ResourceCPU :: string where "ResourceCPU = ''cpu''"
definition ResourceMemory :: string where "ResourceMemory = ''memory''"
definition ResourceEphemeralStorage :: string where "ResourceEphemeralStorage = ''ephemeral-storage''"

lemmas resource_constants = milli_def mebi_def defaultRunnerCPURequest_def defaultRunnerMemoryRequest_def
  defaultRunnerEphemeralStorageRequest_def defaultRunnerCPULimit_def defaultRunnerMemoryLimit_def
  defaultRunnerEphemeralStorageLimit_def ResourceCPU_def ResourceMemory_def ResourceEphemeralStorage_def

definition runnerPodSecurityContext :: pod_security_context where
  "runnerPodSecurityContext =
     \<lparr>px_run_as_non_root = Some True, px_seccomp = Some ''RuntimeDefault'', px_other = ''''\<rparr>"

definition runnerContainerSecurityContext :: security_context where
  "runnerContainerSecurityContext =
     \<lparr>sx_privileged = Some False, sx_allow_escalation = Some False, sx_read_only_root = Some True,
      sx_drop = Some [''ALL''], sx_other = ''''\<rparr>"

definition defaultRunnerResources :: resource_requirements where
  "defaultRunnerResources =
     \<lparr>rq_requests =
        [(ResourceCPU, defaultRunnerCPURequest), (ResourceMemory, defaultRunnerMemoryRequest),
         (ResourceEphemeralStorage, defaultRunnerEphemeralStorageRequest)],
      rq_limits =
        [(ResourceCPU, defaultRunnerCPULimit), (ResourceMemory, defaultRunnerMemoryLimit),
         (ResourceEphemeralStorage, defaultRunnerEphemeralStorageLimit)]\<rparr>"

definition mergeMissingResources :: "resource_list \<Rightarrow> resource_list \<Rightarrow> resource_list" where
  "mergeMissingResources target defaults =
     fold (\<lambda>(name, quantity) target.
             if map_of target name \<noteq> None then target else target @ [(name, quantity)]) defaults target"

definition runnerResources :: "traffic_scenario \<Rightarrow> resource_requirements" where
  "runnerResources scenario =
     (case Option.bind (sp_runner (ts_spec scenario)) rn_resources of
        None \<Rightarrow> defaultRunnerResources
      | Some configured \<Rightarrow>
          \<lparr>rq_requests = mergeMissingResources (rr_requests configured) (rq_requests defaultRunnerResources),
           rq_limits = mergeMissingResources (rr_limits configured) (rq_limits defaultRunnerResources)\<rparr>)"

subsection \<open>ConfigMap and Deployment\<close>

definition scenarioConfigKey :: string where "scenarioConfigKey = ''scenario.json''"
definition configHashAnnotation :: string where "configHashAnnotation = ''traffic.kurama.dev/config-hash''"
definition runnerRevisionHistoryLimit :: int where "runnerRevisionHistoryLimit = 5"
definition runnerProgressDeadlineSeconds :: int where "runnerProgressDeadlineSeconds = 120"

definition desired_meta :: "traffic_scenario \<Rightarrow> string \<Rightarrow> object_meta" where
  "desired_meta scenario name =
     \<lparr>om_namespace = ts_namespace scenario, om_name = name, om_labels = labels scenario,
      om_annotations = scenarioAnnotations scenario, om_owners = [], om_other = ''''\<rparr>"

definition desiredConfigMap :: "traffic_scenario \<Rightarrow> string \<Rightarrow> string \<Rightarrow> config_map" where
  "desiredConfigMap scenario name config =
     \<lparr>cm_meta = desired_meta scenario name, cm_data = [(scenarioConfigKey, config)]\<rparr>"

definition runnerHTTPProbe :: "string \<Rightarrow> int \<Rightarrow> int \<Rightarrow> probe" where
  "runnerHTTPProbe path periodSeconds failureThreshold =
     \<lparr>pb_path = path, pb_port = MetricsPortName, pb_scheme = ''HTTP'', pb_timeout = 1,
      pb_period = periodSeconds, pb_success_threshold = 1, pb_failure_threshold = failureThreshold\<rparr>"

definition runnerEnvironment :: "traffic_scenario \<Rightarrow> string \<Rightarrow> env_var list" where
  "runnerEnvironment scenario redisAddress =
     (let environment = [\<lparr>ev_name = StoreBackendEnv, ev_source = EnvValue (storageBackend scenario)\<rparr>]
      in if \<not> requiresRedis scenario then environment
         else environment @
           [\<lparr>ev_name = RedisAddressEnv, ev_source = EnvValue redisAddress\<rparr>,
            \<lparr>ev_name = NamespaceEnv, ev_source = EnvFieldRef ''v1'' ''metadata.namespace''\<rparr>,
            \<lparr>ev_name = ScenarioEnv, ev_source = EnvValue (ts_name scenario)\<rparr>,
            \<lparr>ev_name = ScenarioUIDEnv, ev_source = EnvValue (ts_uid scenario)\<rparr>])"

definition map_updates :: "(string \<times> string) list \<Rightarrow> (string \<times> string) list \<Rightarrow> (string \<times> string) list" where
  "map_updates m kvs = fold (\<lambda>(k, v) m. AList.update k v m) kvs m"

definition pod_annotations :: "traffic_scenario \<Rightarrow> string \<Rightarrow> (string \<times> string) list" where
  "pod_annotations scenario config =
     map_updates
       [(configHashAnnotation, configHash config), (''prometheus.io/scrape'', ''true''),
        (''prometheus.io/port'', itoa MetricsPort), (''prometheus.io/path'', MetricsPath)]
       (scenarioAnnotations scenario)"

definition runner_container :: "traffic_scenario \<Rightarrow> string \<Rightarrow> string \<Rightarrow> container" where
  "runner_container scenario runnerImage redisAddress =
     \<lparr>ct_name = ''runner'', ct_image = runnerImage, ct_command = [''/app/runner''], ct_args = [],
      ct_env = runnerEnvironment scenario redisAddress,
      ct_resources = runnerResources scenario,
      ct_mounts = [\<lparr>vm_name = ''scenario'', vm_path = ''/etc/kurama'', vm_read_only = True\<rparr>],
      ct_ports = [\<lparr>cp_name = MetricsPortName, cp_port = MetricsPort, cp_protocol = ''TCP''\<rparr>],
      ct_startup = Some (runnerHTTPProbe HealthPath 2 30),
      ct_liveness = Some (runnerHTTPProbe HealthPath 10 3),
      ct_readiness = Some (runnerHTTPProbe ReadinessPath 5 3),
      ct_security = Some runnerContainerSecurityContext,
      ct_other = ''''\<rparr>"

definition base_pod_spec :: "traffic_scenario \<Rightarrow> string \<Rightarrow> string \<Rightarrow> string \<Rightarrow> pod_spec" where
  "base_pod_spec scenario name runnerImage redisAddress =
     \<lparr>pd_containers = [runner_container scenario runnerImage redisAddress],
      pd_volumes = [\<lparr>vo_name = ''scenario'', vo_source = ConfigMapVolume
        \<lparr>cs_name = name, cs_items = [], cs_optional = None, cs_default_mode = None\<rparr>\<rparr>],
      pd_image_pull_secrets = [],
      pd_automount_token = Some False, pd_service_links = Some False,
      pd_security = Some runnerPodSecurityContext, pd_other = ''''\<rparr>"

definition add_secret_volume :: "traffic_scenario \<Rightarrow> pod_spec \<Rightarrow> pod_spec" where
  "add_secret_volume scenario pod =
     (case desiredSecretHeaderVolume scenario of
        None \<Rightarrow> pod
      | Some secretVolume \<Rightarrow>
          pod\<lparr>pd_volumes := pd_volumes pod @ [secretVolume],
              pd_containers := (case pd_containers pod of
                  [] \<Rightarrow> []
                | c # cs \<Rightarrow> c\<lparr>ct_mounts := ct_mounts c @
                    [\<lparr>vm_name = secretHeadersVolumeName, vm_path = SecretHeadersMountPath,
                      vm_read_only = True\<rparr>]\<rparr> # cs)\<rparr>)"

definition desired_pod_spec :: "traffic_scenario \<Rightarrow> string \<Rightarrow> string \<Rightarrow> string \<Rightarrow> string \<Rightarrow> pod_spec" where
  "desired_pod_spec scenario name runnerImage imagePullSecret redisAddress =
     (let pod = add_secret_volume scenario (base_pod_spec scenario name runnerImage redisAddress)
      in if imagePullSecret \<noteq> '''' then pod\<lparr>pd_image_pull_secrets := [imagePullSecret]\<rparr> else pod)"

definition desiredDeployment ::
  "traffic_scenario \<Rightarrow> string \<Rightarrow> string \<Rightarrow> string \<Rightarrow> string \<Rightarrow> string \<Rightarrow> deployment" where
  "desiredDeployment scenario name runnerImage imagePullSecret redisAddress config =
     \<lparr>dp_meta = desired_meta scenario name,
      dp_generation = 0,
      dp_replicas = Some (runnerReplicas scenario),
      dp_revision_history = Some runnerRevisionHistoryLimit,
      dp_progress_deadline = Some runnerProgressDeadlineSeconds,
      dp_strategy = \<lparr>sy_type = ''RollingUpdate'', sy_max_unavailable = Some 0, sy_max_surge = Some 1\<rparr>,
      dp_selector = labels scenario,
      dp_template_labels = labels scenario,
      dp_template_annotations = pod_annotations scenario config,
      dp_pod = desired_pod_spec scenario name runnerImage imagePullSecret redisAddress,
      dp_status = \<lparr>du_observed_generation = 0, du_updated_replicas = 0, du_available_replicas = 0,
                   du_unavailable_replicas = 0, du_conditions = []\<rparr>\<rparr>"

subsection \<open>The projected secrets\<close>

text \<open>The scenario's secret headers with the indices the controller names their files by.\<close>

definition secret_header_at :: "traffic_scenario \<Rightarrow> nat \<Rightarrow> nat \<Rightarrow> secret_header_spec option" where
  "secret_header_at scenario i j =
     (if i < length (sp_operations (ts_spec scenario))
         \<and> j < length (re_secret_headers (op_request (sp_operations (ts_spec scenario) ! i)))
      then Some (re_secret_headers (op_request (sp_operations (ts_spec scenario) ! i)) ! j) else None)"

text \<open>What a projected volume has in a file: the secret and the key.\<close>

definition projected_at :: "secret_projection list \<Rightarrow> string \<Rightarrow> (string \<times> string) set" where
  "projected_at projections path =
     {(pj_secret p, key) | p key. p \<in> set projections \<and> (key, path) \<in> set (pj_items p)}"

lemma set_enumerate: "set (List.enumerate n xs) = {(n + i, xs ! i) | i. i < length xs}"
proof (rule set_eqI)
  fix p show "p \<in> set (List.enumerate n xs) \<longleftrightarrow> p \<in> {(n + i, xs ! i) | i. i < length xs}"
    by (cases p) (auto simp: in_set_enumerate_eq intro!: exI [of _ "fst p - n"])
qed

lemma set_secret_projections:
  "set (secret_projections scenario)
    = {project_header i (j, h) | i j h. secret_header_at scenario i j = Some h}"
  by (fastforce simp: secret_projections_def set_enumerate secret_header_at_def split: if_splits)

lemma projected_secret:
  assumes "secret_header_at scenario i j = Some h"
  shows "projected_at (secret_projections scenario) (secretHeaderRelativePath i j)
    = {(sk_name (sv_secret_key_ref (se_value_from h)), sk_key (sv_secret_key_ref (se_value_from h)))}"
  using assms unfolding projected_at_def set_secret_projections
  by (auto simp: project_header_def Let_def relative_path_inject intro!: exI)

lemma config_secret_header:
  assumes "secret_header_at scenario i j = Some h"
  shows "rq_secret_headers (oc_request (cf_operations (scenarioRunnerConfig scenario) ! i)) ! j
    = \<lparr>sh_name = se_name h, sh_value_file = secretHeaderFilePath i j\<rparr>"
  using assms by (auto simp: secret_header_at_def scenarioRunnerConfig_def Let_def convert_operation_def
      convert_secret_header_def nth_enumerate_eq split: if_splits)

text \<open>
  C25. The file a runner is told to read a secret header from is a file of the volume that the
  controller mounts at the runner's secrets directory, holds the secret and the key the scenario names
  for that header and no other, and is one the runner's own validation allows.
\<close>

theorem secret_files_match:
  assumes "secret_header_at scenario i j = Some h"
  defines "header \<equiv> rq_secret_headers (oc_request (cf_operations (scenarioRunnerConfig scenario) ! i)) ! j"
  shows "\<exists>projections path.
      desiredSecretHeaderVolume scenario
        = Some \<lparr>vo_name = secretHeadersVolumeName, vo_source = ProjectedVolume projections (Some 292)\<rparr>
      \<and> sh_name header = se_name h
      \<and> sh_value_file header = SecretHeadersMountPath @ ''/'' @ path
      \<and> projected_at projections path
          = {(sk_name (sv_secret_key_ref (se_value_from h)), sk_key (sv_secret_key_ref (se_value_from h)))}
      \<and> secretHeaderPathAllowed (sh_value_file header)"
proof -
  have "secret_projections scenario \<noteq> []"
    using assms(1) set_secret_projections [of scenario] by force
  then show ?thesis
    using projected_secret [OF assms(1)] config_secret_header [OF assms(1)]
      secret_file_allowed [of i j]
    by (auto simp: header_def desiredSecretHeaderVolume_def secret_file_path
        intro!: exI [of _ "secretHeaderRelativePath i j"])
qed

definition shop_operation :: operation_spec where
  "shop_operation = \<lparr>op_name = ''a'', op_weight = 1,
     op_request = \<lparr>re_method = ''GET'', re_path_template = ''/x/{{id}}'', re_headers = [],
       re_secret_headers = [\<lparr>se_name = ''X-K'', se_value_from =
         \<lparr>sv_secret_key_ref = \<lparr>sk_name = ''shop-api'', sk_key = ''token''\<rparr>\<rparr>\<rparr>],
       re_body_template = '''',
       re_variables = [\<lparr>va_name = ''id'', va_source = \<lparr>vr_type = ''randomUUID'', vr_store = '''', vr_length = 0\<rparr>\<rparr>]\<rparr>,
     op_expected_status_codes = [200], op_capture = None\<rparr>"

text \<open>A scenario of two replicas with Redis storage and a secret header.\<close>

definition shop_scenario :: traffic_scenario where
  "shop_scenario = \<lparr>ts_namespace = ''load'', ts_name = ''shop'', ts_uid = ''u1'', ts_generation = 3,
     ts_deletion_timestamp = None, ts_finalizers = [],
     ts_spec = \<lparr>sp_target = \<lparr>tg_base_url = ''http://h''\<rparr>,
       sp_rate = \<lparr>ra_schedule = \<lparr>ss_type = ''fixed'', ss_requests_per_minute = 60,
           ss_min_requests_per_minute = 0, ss_max_requests_per_minute = 0, ss_window_minutes = 0\<rparr>,
         ra_limiter = None, ra_profile = None\<rparr>,
       sp_stores = [], sp_operations = [shop_operation],
       sp_storage = Some \<lparr>sg_type = ''redis''\<rparr>, sp_suspend = False, sp_replicas = 2, sp_runner = None\<rparr>,
     ts_status = \<lparr>tt_phase = '''', tt_message = '''', tt_observed_generation = 0, tt_conditions = []\<rparr>\<rparr>"

theorem secret_files_match_witness:
  "\<exists>projections path.
      desiredSecretHeaderVolume shop_scenario
        = Some \<lparr>vo_name = secretHeadersVolumeName, vo_source = ProjectedVolume projections (Some 292)\<rparr>
      \<and> projected_at projections path = {(''shop-api'', ''token'')}"
proof -
  have "secret_header_at shop_scenario 0 0
      = Some \<lparr>se_name = ''X-K'', se_value_from = \<lparr>sv_secret_key_ref = \<lparr>sk_name = ''shop-api'', sk_key = ''token''\<rparr>\<rparr>\<rparr>"
    by (simp add: secret_header_at_def shop_scenario_def shop_operation_def)
  from secret_files_match [OF this] show ?thesis by auto
qed

end
