(* ===== verification/Scenario_Validation.thy ===== *)
theory Scenario_Validation
  imports Scenario_Objects
begin

section \<open>Validation of a scenario\<close>

text \<open>
  \<open>internal/controller/trafficscenario_validation.go\<close>. The two checks of
  \<open>k8s.io/apimachinery\<close> it calls, which list the problems of a name, are the record
  \<open>name_checks\<close>; the runner's own validation is \<open>validateConfig\<close>.
\<close>

record name_checks =
  nc_subdomain :: "string \<Rightarrow> string list"
  nc_config_map_key :: "string \<Rightarrow> string list"

datatype scenario_error =
    StorageUnsupported string
  | LimiterUnsupported string
  | ProfileTypeUnsupported string
  | ReplicasRange
  | ReplicasNeedRedis
  | ResourceUnsupported string string
  | ResourceNegative string string
  | ResourceTooLarge string string
  | ResourceMaximumPanic string
  | RequestExceedsLimit string
  | SecretNameInvalid nat nat string
  | SecretKeyInvalid nat nat string
  | ScenarioConfigInvalid config_error

subsection \<open>Runner resources\<close>

definition maxRunnerCPU :: quantity where "maxRunnerCPU = milli 1000"
definition maxRunnerMemory :: quantity where "maxRunnerMemory = mebi 512"
definition maxRunnerEphemeralStorage :: quantity where "maxRunnerEphemeralStorage = mebi 1024"

definition maxRunnerResource :: "string \<Rightarrow> quantity option" where
  "maxRunnerResource name =
     (if name = ResourceCPU then Some maxRunnerCPU
      else if name = ResourceMemory then Some maxRunnerMemory
      else if name = ResourceEphemeralStorage then Some maxRunnerEphemeralStorage
      else None)"

definition isAllowedRunnerResource :: "string \<Rightarrow> bool" where
  "isAllowedRunnerResource name \<longleftrightarrow> name \<in> {ResourceCPU, ResourceMemory, ResourceEphemeralStorage}"

fun validateRunnerResourceList :: "string \<Rightarrow> resource_list \<Rightarrow> scenario_error option" where
  "validateRunnerResourceList field [] = None"
| "validateRunnerResourceList field ((name, quantity) # resources) =
     (if \<not> isAllowedRunnerResource name then Some (ResourceUnsupported field name)
      else if quantity < 0 then Some (ResourceNegative field name)
      else case maxRunnerResource name of
             None \<Rightarrow> Some (ResourceMaximumPanic name)
           | Some maximum \<Rightarrow>
               if maximum < quantity then Some (ResourceTooLarge field name)
               else validateRunnerResourceList field resources)"

text \<open>A lookup in a Go map gives the zero quantity for a missing name.\<close>

definition quantity_of :: "resource_list \<Rightarrow> string \<Rightarrow> quantity" where
  "quantity_of resources name = (case map_of resources name of None \<Rightarrow> 0 | Some q \<Rightarrow> q)"

definition validateRunnerResources :: "traffic_scenario \<Rightarrow> scenario_error option" where
  "validateRunnerResources scenario =
     (case Option.bind (sp_runner (ts_spec scenario)) rn_resources of
        None \<Rightarrow> None
      | Some overrides \<Rightarrow>
          then_err (validateRunnerResourceList ''requests'' (rr_requests overrides))
         (then_err (validateRunnerResourceList ''limits'' (rr_limits overrides))
         (let merged = runnerResources scenario
          in map_option RequestExceedsLimit
               (find (\<lambda>name. quantity_of (rq_limits merged) name < quantity_of (rq_requests merged) name)
                  [ResourceCPU, ResourceMemory, ResourceEphemeralStorage]))))"

subsection \<open>Secret references\<close>

definition check_secret_ref :: "name_checks \<Rightarrow> nat \<Rightarrow> nat \<Rightarrow> secret_header_spec \<Rightarrow> scenario_error option" where
  "check_secret_ref checks i j header =
     (let ref = sv_secret_key_ref (se_value_from header)
      in then_err (fail_if (nc_subdomain checks (sk_name ref) \<noteq> []) (SecretNameInvalid i j (sk_name ref)))
                  (fail_if (nc_config_map_key checks (sk_key ref) \<noteq> []) (SecretKeyInvalid i j (sk_key ref))))"

definition validateSecretHeaderReferences :: "name_checks \<Rightarrow> traffic_scenario \<Rightarrow> scenario_error option" where
  "validateSecretHeaderReferences checks scenario =
     each_err (\<lambda>i x. each_err (check_secret_ref checks i) 0 (re_secret_headers (op_request x)))
       0 (sp_operations (ts_spec scenario))"

subsection \<open>Scenario\<close>

definition check_types :: "traffic_scenario \<Rightarrow> scenario_error option" where
  "check_types scenario =
     (let spec = ts_spec scenario
      in then_err (case sp_storage spec of
            None \<Rightarrow> None
          | Some s \<Rightarrow> fail_if (sg_type s \<notin> {'''', StorageTypeMemory, StorageTypeRedis}) (StorageUnsupported (sg_type s)))
        (then_err (case ra_limiter (sp_rate spec) of
            None \<Rightarrow> None
          | Some l \<Rightarrow> fail_if (ls_type l \<notin> {'''', RateLimiterTypeLocal, RateLimiterTypeRedis})
                        (LimiterUnsupported (ls_type l)))
        (case ra_profile (sp_rate spec) of
            None \<Rightarrow> None
          | Some p \<Rightarrow> fail_if (ps_type p \<notin> {'''', RateProfileTypeFixed, RateProfileTypeUniform, RateProfileTypeBurst})
                        (ProfileTypeUnsupported (ps_type p)))))"

definition validateScenario :: "go_lib \<Rightarrow> name_checks \<Rightarrow> traffic_scenario \<Rightarrow> scenario_error option" where
  "validateScenario lib checks scenario =
     then_err (check_types scenario)
    (then_err (fail_if (runnerReplicas scenario < 1 \<or> 10 < runnerReplicas scenario) ReplicasRange)
    (then_err (fail_if (1 < runnerReplicas scenario \<and> rateLimiterBackend scenario \<noteq> RateLimiterTypeRedis)
                 ReplicasNeedRedis)
    (then_err (validateRunnerResources scenario)
    (then_err (validateSecretHeaderReferences checks scenario)
    (map_option ScenarioConfigInvalid (validateConfig lib (scenarioRunnerConfig scenario)))))))"

subsection \<open>Lemmas\<close>

lemma maxRunnerResource_None: "maxRunnerResource name = None \<longleftrightarrow> \<not> isAllowedRunnerResource name"
  by (auto simp: maxRunnerResource_def isAllowedRunnerResource_def)

lemma maxRunnerResource_total: "validateRunnerResourceList field rs \<noteq> Some (ResourceMaximumPanic name)"
  by (induction field rs rule: validateRunnerResourceList.induct)
    (auto simp: maxRunnerResource_None split: option.splits)

lemma validateRunnerResourceList_None [err_simps]:
  "validateRunnerResourceList field rs = None \<longleftrightarrow>
    (\<forall>(name, q) \<in> set rs. 0 \<le> q \<and> (\<exists>m. maxRunnerResource name = Some m \<and> q \<le> m))"
  by (induction field rs rule: validateRunnerResourceList.induct)
    (auto simp flip: maxRunnerResource_None split: option.splits)

lemma map_of_append_missing:
  "map_of (if map_of t n \<noteq> None then t else t @ [(n, q)]) x
    = (case map_of t x of None \<Rightarrow> if x = n then Some q else None | Some v \<Rightarrow> Some v)"
  by (auto simp: map_of_append map_add_def split: option.splits)

lemma map_of_mergeMissingResources:
  "distinct (map fst d) \<Longrightarrow> map_of (mergeMissingResources t d) x
    = (case map_of t x of None \<Rightarrow> map_of d x | Some v \<Rightarrow> Some v)"
proof (induction d arbitrary: t)
  case Nil
  then show ?case by (simp add: mergeMissingResources_def split: option.splits)
next
  case (Cons nq d)
  obtain n q where nq: "nq = (n, q)" by (cases nq)
  define t' where "t' = (if map_of t n \<noteq> None then t else t @ [(n, q)])"
  have e: "mergeMissingResources t (nq # d) = mergeMissingResources t' d"
    by (simp add: mergeMissingResources_def t'_def nq)
  have "map_of d n = None" using Cons.prems by (simp add: nq map_of_eq_None_iff)
  then show ?case
    using Cons.IH [of t'] Cons.prems unfolding e t'_def map_of_append_missing
    by (auto simp: nq split: option.splits)
qed

lemma validateScenario_None:
  assumes "validateScenario lib checks scenario = None"
  shows "check_types scenario = None"
    and "1 \<le> runnerReplicas scenario \<and> runnerReplicas scenario \<le> 10"
    and "1 < runnerReplicas scenario \<Longrightarrow> rateLimiterBackend scenario = RateLimiterTypeRedis"
    and "validateRunnerResources scenario = None"
    and "validateSecretHeaderReferences checks scenario = None"
    and "validateConfig lib (scenarioRunnerConfig scenario) = None"
  using assms by (auto simp: validateScenario_def err_simps)

lemma default_resources:
  "distinct (map fst (rq_requests defaultRunnerResources))" "distinct (map fst (rq_limits defaultRunnerResources))"
  by (simp_all add: defaultRunnerResources_def resource_constants)

text \<open>What the defaults and every accepted override have: known names within the maximum.\<close>

definition within_maximum :: "resource_list \<Rightarrow> bool" where
  "within_maximum rs \<longleftrightarrow>
     (\<forall>name q. map_of rs name = Some q \<longrightarrow> 0 \<le> q \<and> (\<exists>m. maxRunnerResource name = Some m \<and> q \<le> m))"

lemma within_maximum_defaults:
  "within_maximum (rq_requests defaultRunnerResources)" "within_maximum (rq_limits defaultRunnerResources)"
  by (auto simp: within_maximum_def defaultRunnerResources_def maxRunnerResource_def resource_constants
      maxRunnerCPU_def maxRunnerMemory_def maxRunnerEphemeralStorage_def split: if_splits)

lemma within_maximum_merge:
  assumes "validateRunnerResourceList field rs = None" "within_maximum d" "distinct (map fst d)"
  shows "within_maximum (mergeMissingResources rs d)"
proof -
  have "within_maximum rs"
    using assms(1) map_of_SomeD unfolding validateRunnerResourceList_None within_maximum_def by fast
  then show ?thesis using assms(2)
    by (auto simp: within_maximum_def map_of_mergeMissingResources [OF assms(3)] split: option.splits)
qed

lemma accepted_within_maximum:
  assumes "validateRunnerResources scenario = None"
  shows "within_maximum (rq_requests (runnerResources scenario)) \<and> within_maximum (rq_limits (runnerResources scenario))"
  using assms within_maximum_defaults
  by (auto simp: validateRunnerResources_def runnerResources_def err_simps
      intro!: within_maximum_merge default_resources split: option.splits)

lemma resource_names:
  "maxRunnerResource name = Some m \<Longrightarrow> name \<in> {ResourceCPU, ResourceMemory, ResourceEphemeralStorage}"
  by (auto simp: maxRunnerResource_def split: if_splits)

lemma quantity_of_default:
  "name \<in> {ResourceCPU, ResourceMemory, ResourceEphemeralStorage} \<Longrightarrow>
    quantity_of (rq_requests defaultRunnerResources) name \<le> quantity_of (rq_limits defaultRunnerResources) name
    \<and> map_of (rq_requests defaultRunnerResources) name \<noteq> None \<and> map_of (rq_limits defaultRunnerResources) name \<noteq> None"
  by (auto simp: quantity_of_def defaultRunnerResources_def resource_constants)

lemma merged_present:
  assumes "name \<in> {ResourceCPU, ResourceMemory, ResourceEphemeralStorage}"
  shows "map_of (rq_requests (runnerResources scenario)) name \<noteq> None
    \<and> map_of (rq_limits (runnerResources scenario)) name \<noteq> None"
  using quantity_of_default [OF assms]
  by (auto simp: runnerResources_def map_of_mergeMissingResources default_resources split: option.splits)

text \<open>
  C22. The runner container of an accepted scenario asks for exactly CPU, memory and ephemeral
  storage, however the scenario mixes its own values with the defaults: each request is
  non-negative and at most its limit, and each limit at most the maximum of that resource.
\<close>

theorem accepted_resources_bounded:
  assumes "validateScenario lib checks scenario = None"
    and "r = ct_resources (runner_container scenario runnerImage redisAddress)"
  shows "(\<forall>name \<in> {ResourceCPU, ResourceMemory, ResourceEphemeralStorage}.
        \<exists>request limit m. map_of (rq_requests r) name = Some request \<and> map_of (rq_limits r) name = Some limit
          \<and> maxRunnerResource name = Some m \<and> 0 \<le> request \<and> request \<le> limit \<and> limit \<le> m)
    \<and> dom (map_of (rq_requests r)) = {ResourceCPU, ResourceMemory, ResourceEphemeralStorage}
    \<and> dom (map_of (rq_limits r)) = {ResourceCPU, ResourceMemory, ResourceEphemeralStorage}"
proof -
  have r: "r = runnerResources scenario" using assms(2) by (simp add: runner_container_def)
  have v: "validateRunnerResources scenario = None" using validateScenario_None(4) assms(1) .
  have w: "within_maximum (rq_requests r)" "within_maximum (rq_limits r)"
    using accepted_within_maximum [OF v] by (simp_all add: r)
  have o: "quantity_of (rq_requests r) name \<le> quantity_of (rq_limits r) name"
    if "name \<in> {ResourceCPU, ResourceMemory, ResourceEphemeralStorage}" for name
  proof (cases "Option.bind (sp_runner (ts_spec scenario)) rn_resources")
    case None
    then show ?thesis using quantity_of_default [OF that] by (simp add: r runnerResources_def)
  next
    case (Some overrides)
    then have "find (\<lambda>name. quantity_of (rq_limits r) name < quantity_of (rq_requests r) name)
        [ResourceCPU, ResourceMemory, ResourceEphemeralStorage] = None"
      using v by (simp add: validateRunnerResources_def r Let_def err_simps del: find.simps)
    then show ?thesis using that unfolding find_none by (auto simp: not_less)
  qed
  have "\<exists>request limit m. map_of (rq_requests r) name = Some request \<and> map_of (rq_limits r) name = Some limit
          \<and> maxRunnerResource name = Some m \<and> 0 \<le> request \<and> request \<le> limit \<and> limit \<le> m"
    if n: "name \<in> {ResourceCPU, ResourceMemory, ResourceEphemeralStorage}" for name
  proof -
    obtain request limit where q: "map_of (rq_requests r) name = Some request" "map_of (rq_limits r) name = Some limit"
      using merged_present [OF n, of scenario] by (auto simp: r)
    then show ?thesis using o [OF n] w by (fastforce simp: within_maximum_def quantity_of_def)
  qed
  moreover have "dom (map_of (rq_requests r)) \<subseteq> {ResourceCPU, ResourceMemory, ResourceEphemeralStorage}"
    "dom (map_of (rq_limits r)) \<subseteq> {ResourceCPU, ResourceMemory, ResourceEphemeralStorage}"
    using w resource_names unfolding within_maximum_def by blast+
  moreover have "{ResourceCPU, ResourceMemory, ResourceEphemeralStorage} \<subseteq> dom (map_of (rq_requests r))"
    "{ResourceCPU, ResourceMemory, ResourceEphemeralStorage} \<subseteq> dom (map_of (rq_limits r))"
    using merged_present unfolding r by blast+
  ultimately show ?thesis by blast
qed

lemma scenario_backend_types:
  assumes "check_types scenario = None"
  shows "storageBackend scenario \<in> {StorageTypeMemory, StorageTypeRedis}"
    and "rateLimiterBackend scenario \<in> {RateLimiterTypeLocal, RateLimiterTypeRedis}"
    and "rateProfileType scenario \<in> {RateProfileTypeFixed, RateProfileTypeUniform, RateProfileTypeBurst}"
  using assms by (auto simp: check_types_def Let_def err_simps storageBackend_def rateLimiterBackend_def
      rateProfileType_def split: option.splits)


subsection \<open>An accepted scenario\<close>

definition no_problems :: name_checks where
  "no_problems = \<lparr>nc_subdomain = (\<lambda>_. []), nc_config_map_key = (\<lambda>_. [])\<rparr>"

lemma shop_operation_ok: "validateOperation lib (convert_operation 0 shop_operation) [] = None"
proof -
  have t: "trim_space ''id'' = ''id''"
    by (rule trim_space_plain) (simp add: white_space_def has_prefix_def has_suffix_def char_of_def bit_0)
  have n: "name_pattern ''a''" "name_pattern ''id''"
    by (simp_all add: name_pattern_def name_char_def)
  have "templateVariables (''/x/{{id}}'' @ [CHR 0x0A]) = Inr [''id'']"
    by (simp add: templateVariables_def template_names_def Let_def match_marker_def has_prefix_def
        no_brace_def t n)
  moreover have "validateHeaders lib [] [\<lparr>sh_name = ''X-K'', sh_value_file = secretHeaderFilePath 0 0\<rparr>] = None"
    by (simp add: validateHeaders_None validate_secret_headers_None secret_file_allowed config_limits
        validHeaderName_def contains_any_def char_of_def bit_0 isTransportHeader_def to_lower_def is_ascii_def lower_char_def Let_def)
  ultimately show ?thesis
    by (simp add: validateOperation_def convert_operation_def shop_operation_def convert_secret_header_def
        convert_variable_def validateName_def validateVariable_def check_template_use_def validate_capture_def
        n has_prefix_def contains_any_def config_limits char_of_def bit_0 Let_def)
qed

lemma shop_config_ok: "validateConfig example_lib (scenarioRunnerConfig shop_scenario) = None"
proof -
  have "cf_operations (scenarioRunnerConfig shop_scenario) = [convert_operation 0 shop_operation]"
    by (simp add: scenarioRunnerConfig_def shop_scenario_def Let_def)
  then show ?thesis
    by (simp add: validateConfig_def shop_operation_ok)
      (simp add: shop_operation_ok scenarioRunnerConfig_def shop_scenario_def Let_def validateTarget_def example_lib_def
        validateRateSchedule_def validateLimiterType_def validateRateProfile_def validateStoreConfigs_def
        config_limits rateLimiterBackend_def rateProfileType_def storageBackend_def scenario_constants
        rateProfileMinBurstSize_def rateProfileMaxBurstSize_def rateProfileDelayDivisor_def)
qed

lemma shop_accepted: "validateScenario example_lib no_problems shop_scenario = None"
  unfolding validateScenario_def shop_config_ok
  by (simp add: check_types_def shop_scenario_def shop_operation_def runnerReplicas_def rateLimiterBackend_def
      storageBackend_def scenario_constants validateRunnerResources_def validateSecretHeaderReferences_def
      check_secret_ref_def no_problems_def Let_def)

theorem accepted_resources_bounded_witness:
  "\<exists>request limit. map_of (rq_requests (runnerResources shop_scenario)) ResourceMemory = Some request
    \<and> map_of (rq_limits (runnerResources shop_scenario)) ResourceMemory = Some limit \<and> request \<le> limit"
  using accepted_resources_bounded [OF shop_accepted refl, of "''img''" "''redis:6379''"]
  by (auto simp: runner_container_def)

definition shop_decoder :: "config json_decoder" where
  "shop_decoder = \<lparr>jd_config = (\<lambda>_. Some (scenarioRunnerConfig shop_scenario, '''')), jd_any = (\<lambda>_. AnyEOF)\<rparr>"

lemma shop_config_length: "length (scenarioConfigJSON shop_scenario) \<le> MaxConfigBytes"
proof -
  have "replicate 2 (CHR ''0'') = ''00''" by (simp add: eval_nat_numeral)
  then have p: "pad3 0 = ''000''" by (simp add: pad3_def nat_str.simps [of 0] digit_char_def char_of_def bit_0)
  show ?thesis
  by (simp add: scenarioConfigJSON_def marshal_config_def config_json_def scenarioRunnerConfig_def shop_scenario_def
      shop_operation_def convert_operation_def convert_secret_header_def convert_variable_def Let_def
      rate_json_def schedule_json_def profile_json_def opt_pointer_def opt_string_def opt_int_def opt_list_def
      opt_headers_def operation_json_def request_json_def secret_header_json_def variable_json_def
      secret_file_path secretHeaderRelativePath_def p SecretHeadersMountPath_def j_int_def itoa_def
      json_escape_ascii_def byte_of_def MaxConfigBytes_def nat_str.simps [of 60] nat_str.simps [of 6]
      nat_str.simps [of "Suc 0"] nat_str.simps [of 200] nat_str.simps [of 20] nat_str.simps [of 2]
      rateLimiterBackend_def rateProfileType_def storageBackend_def scenario_constants
        rateProfileMinBurstSize_def rateProfileMaxBurstSize_def rateProfileDelayDivisor_def)
qed


end
