(* ===== verification/Scenario_Apply.thy ===== *)
theory Scenario_Apply
  imports Scenario_Validation Redis_Key
begin

section \<open>Creating and updating the runner's objects\<close>

text \<open>
  \<open>internal/controller/trafficscenario_apply.go\<close>. The Kubernetes API server, reached through
  controller-runtime's client, is the record \<open>kube_api\<close> of operations on a world \<open>'w\<close>; what
  the code calls of \<open>apimachinery\<close> and \<open>controllerutil\<close> is the record \<open>kube_lib\<close>. Both are
  parameters. An error of the controller is a value of \<open>controller_error\<close>, and \<open>kl_text\<close> is
  its text.
\<close>

subsection \<open>The API and the libraries\<close>

datatype kube_error = NotFound | KubeError string

fun is_not_found :: "kube_error \<Rightarrow> bool" where
  "is_not_found NotFound \<longleftrightarrow> True"
| "is_not_found (KubeError _) \<longleftrightarrow> False"

datatype controller_error =
    GetFailed string kube_error
  | OwnerFailed string string
  | CreateFailed string kube_error
  | PatchFailed string kube_error
  | DeleteFailed string kube_error
  | UpdateFailed string kube_error
  | NotControlled string string
  | ControlledByOther string string owner_ref
  | SelectorChanged string
  | ScenarioInvalid scenario_error
  | MissingImage
  | MissingRedisAddress
  | CleanupWaiting
  | CleanupNoClient
  | CleanupScope scope_error
  | CleanupScan string
  | CleanupDel string

record kube_lib =
  kl_controlled_by :: "object_meta \<Rightarrow> traffic_scenario \<Rightarrow> bool"
  kl_controller_of :: "object_meta \<Rightarrow> owner_ref option"
  kl_set_controller :: "traffic_scenario \<Rightarrow> object_meta \<Rightarrow> string + object_meta"
  kl_same_config_map :: "config_map \<Rightarrow> config_map \<Rightarrow> bool"
  kl_same_deployment :: "deployment \<Rightarrow> deployment \<Rightarrow> bool"
  kl_same_selector :: "(string \<times> string) list \<Rightarrow> (string \<times> string) list \<Rightarrow> bool"
  kl_same_status :: "traffic_scenario_status \<Rightarrow> traffic_scenario_status \<Rightarrow> bool"
  kl_set_condition :: "condition list \<Rightarrow> condition \<Rightarrow> condition list"
  kl_add_finalizer :: "string list \<Rightarrow> string \<Rightarrow> string list"
  kl_remove_finalizer :: "string list \<Rightarrow> string \<Rightarrow> string list"
  kl_has_finalizer :: "string list \<Rightarrow> string \<Rightarrow> bool"
  kl_text :: "controller_error \<Rightarrow> string"

text \<open>
  \<open>ka_update_scenario\<close> gives back the object as the server stored it, which the client writes
  into its argument; a patch has the object before and after. \<open>ka_scan\<close> is a whole iteration
  over the keys of a pattern with the error it ends in.
\<close>

record 'w kube_api =
  ka_get_scenario :: "string \<times> string \<Rightarrow> 'w \<Rightarrow> (kube_error + traffic_scenario) \<times> 'w"
  ka_update_scenario :: "traffic_scenario \<Rightarrow> 'w \<Rightarrow> (kube_error + traffic_scenario) \<times> 'w"
  ka_patch_status :: "traffic_scenario \<Rightarrow> traffic_scenario \<Rightarrow> 'w \<Rightarrow> kube_error option \<times> 'w"
  ka_get_config_map :: "string \<times> string \<Rightarrow> 'w \<Rightarrow> (kube_error + config_map) \<times> 'w"
  ka_create_config_map :: "config_map \<Rightarrow> 'w \<Rightarrow> kube_error option \<times> 'w"
  ka_patch_config_map :: "config_map \<Rightarrow> config_map \<Rightarrow> 'w \<Rightarrow> kube_error option \<times> 'w"
  ka_get_deployment :: "string \<times> string \<Rightarrow> 'w \<Rightarrow> (kube_error + deployment) \<times> 'w"
  ka_create_deployment :: "deployment \<Rightarrow> 'w \<Rightarrow> kube_error option \<times> 'w"
  ka_patch_deployment :: "deployment \<Rightarrow> deployment \<Rightarrow> 'w \<Rightarrow> kube_error option \<times> 'w"
  ka_delete_deployment :: "bool \<Rightarrow> deployment \<Rightarrow> 'w \<Rightarrow> kube_error option \<times> 'w"
  ka_event :: "controller_error \<Rightarrow> 'w \<Rightarrow> 'w"
  ka_observe_abandoned :: "'w \<Rightarrow> 'w"
  ka_now :: "'w \<Rightarrow> int \<times> 'w"
  ka_scan :: "string \<Rightarrow> 'w \<Rightarrow> (string list \<times> string option) \<times> 'w"
  ka_del :: "string list \<Rightarrow> 'w \<Rightarrow> string option \<times> 'w"

definition object_key :: "object_meta \<Rightarrow> string \<times> string" where
  "object_key m = (om_namespace m, om_name m)"

subsection \<open>Ownership\<close>

definition ensureControlledBy :: "kube_lib \<Rightarrow> object_meta \<Rightarrow> traffic_scenario \<Rightarrow> string \<Rightarrow> controller_error option" where
  "ensureControlledBy lib object scenario kind =
     (if kl_controlled_by lib object scenario then None
      else case kl_controller_of lib object of
             None \<Rightarrow> Some (NotControlled kind (om_name object))
           | Some controller \<Rightarrow> Some (ControlledByOther kind (om_name object) controller))"

subsection \<open>Managed fields\<close>

definition setManagedMapValues :: "(string \<times> string) list \<Rightarrow> (string \<times> string) list \<Rightarrow> (string \<times> string) list" where
  "setManagedMapValues target desired = map_updates target desired"

text \<open>The first element of a list with a property, updated; \<open>None\<close> where there is none.\<close>

fun update_first :: "('a \<Rightarrow> bool) \<Rightarrow> ('a \<Rightarrow> 'a) \<Rightarrow> 'a list \<Rightarrow> 'a list option" where
  "update_first P f [] = None"
| "update_first P f (x # xs) = (if P x then Some (f x # xs) else map_option ((#) x) (update_first P f xs))"

fun remove_first :: "('a \<Rightarrow> bool) \<Rightarrow> 'a list \<Rightarrow> 'a list" where
  "remove_first P [] = []"
| "remove_first P (x # xs) = (if P x then xs else x # remove_first P xs)"

definition update_or_append :: "('a \<Rightarrow> bool) \<Rightarrow> ('a \<Rightarrow> 'a) \<Rightarrow> 'a \<Rightarrow> 'a list \<Rightarrow> 'a list" where
  "update_or_append P f new xs = (case update_first P f xs of None \<Rightarrow> xs @ [new] | Some ys \<Rightarrow> ys)"

definition applyManagedSecretHeaderVolume :: "volume list \<Rightarrow> volume list \<Rightarrow> volume list" where
  "applyManagedSecretHeaderVolume volumes desiredVolumes =
     (case find (\<lambda>v. vo_name v = secretHeadersVolumeName) desiredVolumes of
        None \<Rightarrow> remove_first (\<lambda>v. vo_name v = secretHeadersVolumeName) volumes
      | Some desired \<Rightarrow>
          update_or_append (\<lambda>v. vo_name v = secretHeadersVolumeName)
            (\<lambda>v. v\<lparr>vo_source := vo_source desired\<rparr>) desired volumes)"

definition applyManagedPodSecurityContext ::
  "pod_security_context option \<Rightarrow> pod_security_context option \<Rightarrow> pod_security_context option" where
  "applyManagedPodSecurityContext existing desired =
     (case desired of
        None \<Rightarrow> existing
      | Some d \<Rightarrow>
         (let base = (case existing of
                 None \<Rightarrow> \<lparr>px_run_as_non_root = None, px_seccomp = None, px_other = ''''\<rparr>
               | Some e \<Rightarrow> e)
          in Some (base\<lparr>px_run_as_non_root := px_run_as_non_root d, px_seccomp := px_seccomp d\<rparr>)))"

definition applyManagedContainerSecurityContext ::
  "security_context option \<Rightarrow> security_context option \<Rightarrow> security_context option" where
  "applyManagedContainerSecurityContext existing desired =
     (case desired of
        None \<Rightarrow> existing
      | Some d \<Rightarrow>
         (let base = (case existing of
                 None \<Rightarrow> \<lparr>sx_privileged = None, sx_allow_escalation = None, sx_read_only_root = None,
                          sx_drop = None, sx_other = ''''\<rparr>
               | Some e \<Rightarrow> e)
          in Some (base\<lparr>sx_privileged := sx_privileged d, sx_allow_escalation := sx_allow_escalation d,
                        sx_read_only_root := sx_read_only_root d, sx_drop := sx_drop d\<rparr>)))"

definition managed_container :: "container \<Rightarrow> container \<Rightarrow> container" where
  "managed_container desired c =
     c\<lparr>ct_image := ct_image desired, ct_command := ct_command desired, ct_args := ct_args desired,
       ct_env := ct_env desired, ct_mounts := ct_mounts desired, ct_ports := ct_ports desired,
       ct_resources := ct_resources desired,
       ct_security := applyManagedContainerSecurityContext (ct_security c) (ct_security desired),
       ct_startup := ct_startup desired, ct_liveness := ct_liveness desired,
       ct_readiness := ct_readiness desired\<rparr>"

definition applyManagedRunnerContainer :: "container list \<Rightarrow> container \<Rightarrow> container list" where
  "applyManagedRunnerContainer containers desired =
     update_or_append (\<lambda>c. ct_name c = ct_name desired) (managed_container desired) desired containers"

definition managed_volume :: "volume \<Rightarrow> volume \<Rightarrow> volume" where
  "managed_volume desired v =
     v\<lparr>vo_source :=
        (case (vo_source v, vo_source desired) of
           (ConfigMapVolume e, ConfigMapVolume d) \<Rightarrow>
             ConfigMapVolume (e\<lparr>cs_name := cs_name d, cs_items := cs_items d, cs_optional := cs_optional d\<rparr>)
         | _ \<Rightarrow> vo_source desired)\<rparr>"

definition applyManagedScenarioVolume :: "volume list \<Rightarrow> volume \<Rightarrow> volume list" where
  "applyManagedScenarioVolume volumes desired =
     update_or_append (\<lambda>v. vo_name v = vo_name desired) (managed_volume desired) desired volumes"

definition managed_pod_spec :: "pod_spec \<Rightarrow> pod_spec \<Rightarrow> pod_spec" where
  "managed_pod_spec existing desired =
     existing\<lparr>pd_image_pull_secrets := pd_image_pull_secrets desired,
       pd_automount_token := pd_automount_token desired,
       pd_service_links := pd_service_links desired,
       pd_security := applyManagedPodSecurityContext (pd_security existing) (pd_security desired),
       pd_containers := applyManagedRunnerContainer (pd_containers existing) (pd_containers desired ! 0),
       pd_volumes := applyManagedSecretHeaderVolume
          (applyManagedScenarioVolume (pd_volumes existing) (pd_volumes desired ! 0)) (pd_volumes desired)\<rparr>"

definition managed_meta :: "object_meta \<Rightarrow> object_meta \<Rightarrow> object_meta" where
  "managed_meta existing desired =
     existing\<lparr>om_labels := setManagedMapValues (om_labels existing) (om_labels desired),
              om_annotations := setManagedMapValues (om_annotations existing) (om_annotations desired)\<rparr>"

definition applyManagedDeploymentFields :: "deployment \<Rightarrow> deployment \<Rightarrow> deployment" where
  "applyManagedDeploymentFields existing desired =
     existing\<lparr>dp_meta := managed_meta (dp_meta existing) (dp_meta desired),
       dp_replicas := dp_replicas desired,
       dp_revision_history := dp_revision_history desired,
       dp_progress_deadline := dp_progress_deadline desired,
       dp_strategy := dp_strategy desired,
       dp_template_labels := setManagedMapValues (dp_template_labels existing) (dp_template_labels desired),
       dp_template_annotations :=
         setManagedMapValues (dp_template_annotations existing) (dp_template_annotations desired),
       dp_pod := managed_pod_spec (dp_pod existing) (dp_pod desired)\<rparr>"

definition managed_config_map :: "config_map \<Rightarrow> config_map \<Rightarrow> config_map" where
  "managed_config_map existing desired =
     existing\<lparr>cm_meta := managed_meta (cm_meta existing) (cm_meta desired),
       cm_data := AList.update scenarioConfigKey
         (case map_of (cm_data desired) scenarioConfigKey of None \<Rightarrow> '''' | Some v \<Rightarrow> v) (cm_data existing)\<rparr>"

subsection \<open>Apply\<close>

definition applyConfigMap ::
  "kube_lib \<Rightarrow> 'w kube_api \<Rightarrow> traffic_scenario \<Rightarrow> config_map \<Rightarrow> 'w \<Rightarrow> controller_error option \<times> 'w" where
  "applyConfigMap lib api scenario desired w =
     (case ka_get_config_map api (object_key (cm_meta desired)) w of
        (Inl e, w) \<Rightarrow>
          if \<not> is_not_found e then (Some (GetFailed ''runner ConfigMap'' e), w)
          else (case kl_set_controller lib scenario (cm_meta desired) of
             Inl e \<Rightarrow> (Some (OwnerFailed ''runner ConfigMap'' e), w)
           | Inr m \<Rightarrow>
              (case ka_create_config_map api (desired\<lparr>cm_meta := m\<rparr>) w of
                 (Some e, w) \<Rightarrow> (Some (CreateFailed ''runner ConfigMap'' e), w)
               | (None, w) \<Rightarrow> (None, w)))
      | (Inr existing, w) \<Rightarrow>
         (case ensureControlledBy lib (cm_meta existing) scenario ''ConfigMap'' of
            Some e \<Rightarrow> (Some e, w)
          | None \<Rightarrow>
             (let after = managed_config_map existing desired
              in if kl_same_config_map lib existing after then (None, w)
                 else (case ka_patch_config_map api existing after w of
                    (Some e, w) \<Rightarrow> (Some (PatchFailed ''runner ConfigMap'' e), w)
                  | (None, w) \<Rightarrow> (None, w)))))"

definition applyDeployment ::
  "kube_lib \<Rightarrow> 'w kube_api \<Rightarrow> traffic_scenario \<Rightarrow> deployment \<Rightarrow> 'w \<Rightarrow> (controller_error + bool) \<times> 'w" where
  "applyDeployment lib api scenario desired w =
     (case ka_get_deployment api (object_key (dp_meta desired)) w of
        (Inl e, w) \<Rightarrow>
          if \<not> is_not_found e then (Inl (GetFailed ''runner Deployment'' e), w)
          else (case kl_set_controller lib scenario (dp_meta desired) of
             Inl e \<Rightarrow> (Inl (OwnerFailed ''runner Deployment'' e), w)
           | Inr m \<Rightarrow>
              (case ka_create_deployment api (desired\<lparr>dp_meta := m\<rparr>) w of
                 (Some e, w) \<Rightarrow> (Inl (CreateFailed ''runner Deployment'' e), w)
               | (None, w) \<Rightarrow> (Inr True, w)))
      | (Inr existing, w) \<Rightarrow>
         (case ensureControlledBy lib (dp_meta existing) scenario ''Deployment'' of
            Some e \<Rightarrow> (Inl e, w)
          | None \<Rightarrow>
             if \<not> kl_same_selector lib (dp_selector existing) (dp_selector desired)
             then (Inl (SelectorChanged (om_name (dp_meta existing))), w)
             else
               (let after = applyManagedDeploymentFields existing desired
                in if kl_same_deployment lib existing after then (Inr False, w)
                   else (case ka_patch_deployment api existing after w of
                      (Some e, w) \<Rightarrow> (Inl (PatchFailed ''runner Deployment'' e), w)
                    | (None, w) \<Rightarrow> (Inr True, w)))))"

subsection \<open>Updates of maps and lists\<close>

lemma update_noop: "map_of m k = Some v \<Longrightarrow> AList.update k v m = m"
  by (induction m) (auto split: if_splits)

lemma map_updates_simps [simp]:
  "map_updates m [] = m" "map_updates m ((k, v) # d) = map_updates (AList.update k v m) d"
  by (simp_all add: map_updates_def)

lemma map_of_map_updates:
  "distinct (map fst d) \<Longrightarrow> map_of (map_updates m d) = map_of m ++ map_of d"
proof (induction d arbitrary: m)
  case (Cons kv d)
  obtain k v where kv: "kv = (k, v)" by (cases kv)
  have "k \<notin> dom (map_of d)" using Cons.prems by (auto simp: kv dom_map_of_conv_image_fst)
  then show ?case using Cons by (auto simp: kv AList.update_conv' map_add_def fun_eq_iff split: option.splits)
qed simp

lemma map_updates_noop: "(\<And>k v. (k, v) \<in> set d \<Longrightarrow> map_of m k = Some v) \<Longrightarrow> map_updates m d = m"
  by (induction d) (auto simp: update_noop)

lemma map_updates_idem: "distinct (map fst d) \<Longrightarrow> map_updates (map_updates m d) d = map_updates m d"
  by (rule map_updates_noop) (simp add: map_of_map_updates)

lemma update_first_None [simp]: "update_first P f xs = None \<longleftrightarrow> (\<forall>x \<in> set xs. \<not> P x)"
  by (induction xs) auto

text \<open>
  Where the update keeps the property that selects an element, at most the first such element
  changes, and the element found afterwards is the updated or the appended one.
\<close>

locale keyed_update =
  fixes P :: "'a \<Rightarrow> bool" and f :: "'a \<Rightarrow> 'a" and new :: 'a
  assumes new: "P new" and keeps: "P x \<Longrightarrow> P (f x)" and f_new: "f new = new" and f_idem: "f (f x) = f x"
begin

lemma others_kept: "filter (\<lambda>x. \<not> P x) (update_or_append P f new xs) = filter (\<lambda>x. \<not> P x) xs"
proof -
  have "update_first P f xs = Some ys \<Longrightarrow> filter (\<lambda>x. \<not> P x) ys = filter (\<lambda>x. \<not> P x) xs" for ys
    by (induction xs arbitrary: ys) (auto simp: keeps split: if_splits)
  then show ?thesis by (auto simp: update_or_append_def new split: option.splits)
qed

lemma found: "find P (update_or_append P f new xs) = Some (case find P xs of None \<Rightarrow> new | Some x \<Rightarrow> f x)"
proof (cases "update_first P f xs")
  case None
  then have "find P (xs @ [new]) = Some new" "find P xs = None"
    by (induction xs) (auto simp: new)
  then show ?thesis by (simp add: update_or_append_def None)
next
  case (Some ys)
  then show ?thesis unfolding update_or_append_def option.case
    by (induction xs arbitrary: ys) (auto simp: keeps split: if_splits)
qed

lemma noop: "find P xs = Some x \<Longrightarrow> f x = x \<Longrightarrow> update_or_append P f new xs = xs"
proof -
  assume "find P xs = Some x" "f x = x"
  then have "update_first P f xs = Some xs" by (induction xs) (auto split: if_splits)
  then show ?thesis by (simp add: update_or_append_def)
qed

lemma fixed: "f (case find P xs of None \<Rightarrow> new | Some x \<Rightarrow> f x) = (case find P xs of None \<Rightarrow> new | Some x \<Rightarrow> f x)"
  by (simp add: f_new f_idem split: option.splits)

lemma idem: "update_or_append P f new (update_or_append P f new xs) = update_or_append P f new xs"
  by (rule noop [OF found fixed])

end

interpretation runner_update: keyed_update "\<lambda>c. ct_name c = ct_name d" "managed_container d" d
  for d :: container
  by unfold_locales
    (auto simp: managed_container_def applyManagedContainerSecurityContext_def split: option.splits)

interpretation volume_update: keyed_update "\<lambda>v. vo_name v = vo_name d" "managed_volume d" d
  for d :: volume
  by unfold_locales (auto simp: managed_volume_def split: volume_source.splits)

interpretation secret_update: keyed_update "\<lambda>v. vo_name v = vo_name d" "\<lambda>v. v\<lparr>vo_source := vo_source d\<rparr>" d
  for d :: volume
  by unfold_locales auto

lemma find_filter: "(\<And>x. Q x \<Longrightarrow> R x) \<Longrightarrow> find Q (filter R xs) = find Q xs"
  by (induction xs) auto

lemma filter_remove_first: "filter (\<lambda>x. \<not> P x) (remove_first P xs) = filter (\<lambda>x. \<not> P x) xs"
  by (induction xs) auto

lemma remove_first_noop: "filter P xs = [] \<Longrightarrow> remove_first P xs = xs"
  by (induction xs) (auto split: if_splits)

lemma remove_first_idem:
  assumes "length (filter P xs) \<le> 1"
  shows "remove_first P (remove_first P xs) = remove_first P xs"
proof (rule remove_first_noop)
  show "filter P (remove_first P xs) = []" using assms by (induction xs) (auto split: if_splits)
qed

abbreviation secret_volume :: "volume \<Rightarrow> bool" where
  "secret_volume v \<equiv> vo_name v = secretHeadersVolumeName"

lemma secret_volume_cases:
  obtains "find secret_volume dv = None" "applyManagedSecretHeaderVolume vs dv = remove_first secret_volume vs"
  | d where "find secret_volume dv = Some d" "vo_name d = secretHeadersVolumeName"
      "applyManagedSecretHeaderVolume vs dv
        = update_or_append (\<lambda>v. vo_name v = vo_name d) (\<lambda>v. v\<lparr>vo_source := vo_source d\<rparr>) d vs"
proof (cases "find secret_volume dv")
  case None
  then show ?thesis using that(1) by (simp add: applyManagedSecretHeaderVolume_def)
next
  case (Some d)
  then have "vo_name d = secretHeadersVolumeName" using find_SomeD [OF Some] by simp
  then show ?thesis using that(2) Some by (simp add: applyManagedSecretHeaderVolume_def)
qed

lemma secret_volume_others:
  "filter (\<lambda>v. \<not> secret_volume v) (applyManagedSecretHeaderVolume vs dv) = filter (\<lambda>v. \<not> secret_volume v) vs"
proof (rule secret_volume_cases [of dv vs])
  fix d assume "vo_name d = secretHeadersVolumeName"
    "applyManagedSecretHeaderVolume vs dv
      = update_or_append (\<lambda>v. vo_name v = vo_name d) (\<lambda>v. v\<lparr>vo_source := vo_source d\<rparr>) d vs"
  then show ?thesis using secret_update.others_kept [of d vs] by simp
qed (simp add: filter_remove_first)

lemma secret_volume_idem:
  assumes "length (filter secret_volume vs) \<le> 1"
  shows "applyManagedSecretHeaderVolume (applyManagedSecretHeaderVolume vs dv) dv = applyManagedSecretHeaderVolume vs dv"
proof (cases "find secret_volume dv")
  case None
  then show ?thesis using remove_first_idem [OF assms] by (simp add: applyManagedSecretHeaderVolume_def)
next
  case (Some d)
  then have "vo_name d = secretHeadersVolumeName" using find_SomeD [OF Some] by simp
  then show ?thesis using Some secret_update.idem [of d] by (simp add: applyManagedSecretHeaderVolume_def)
qed

text \<open>The volumes of a pod after both updates.\<close>

definition managed_volumes :: "volume list \<Rightarrow> volume list \<Rightarrow> volume list" where
  "managed_volumes vs dv = applyManagedSecretHeaderVolume (applyManagedScenarioVolume vs (dv ! 0)) dv"

lemma managed_volumes_idem:
  assumes "vo_name (dv ! 0) \<noteq> secretHeadersVolumeName" "length (filter secret_volume vs) \<le> 1"
  shows "managed_volumes (managed_volumes vs dv) dv = managed_volumes vs dv"
proof -
  let ?d = "dv ! 0"
  define S where "S = applyManagedScenarioVolume vs ?d"
  have o: "filter (\<lambda>v. vo_name v \<noteq> vo_name ?d) S = filter (\<lambda>v. vo_name v \<noteq> vo_name ?d) vs"
    using volume_update.others_kept [of ?d vs] by (simp add: S_def applyManagedScenarioVolume_def)
  have "filter secret_volume S = filter secret_volume vs"
    using arg_cong [OF o, of "filter secret_volume"] assms(1) by (simp add: conj_commute cong: conj_cong)
  then have l: "length (filter secret_volume S) \<le> 1" using assms(2) by simp
  define T where "T = applyManagedSecretHeaderVolume S dv"
  have "find (\<lambda>v. vo_name v = vo_name ?d) T = find (\<lambda>v. vo_name v = vo_name ?d) S"
  proof -
    have f: "find (\<lambda>v. vo_name v = vo_name ?d) (filter (\<lambda>v. \<not> secret_volume v) xs)
        = find (\<lambda>v. vo_name v = vo_name ?d) xs" for xs
      by (rule find_filter) (use assms(1) in auto)
    show ?thesis using f [of T] f [of S] by (simp only: T_def secret_volume_others)
  qed
  then have "applyManagedScenarioVolume T ?d = T"
    using volume_update.noop [OF _ volume_update.fixed] volume_update.found [of ?d vs]
    by (simp add: applyManagedScenarioVolume_def S_def)
  then show ?thesis using secret_volume_idem [OF l]
    by (simp add: managed_volumes_def T_def S_def)
qed

subsection \<open>Updating converges and keeps the rest\<close>

lemma security_idem:
  "applyManagedPodSecurityContext (applyManagedPodSecurityContext e d) d = applyManagedPodSecurityContext e d"
  by (auto simp: applyManagedPodSecurityContext_def split: option.splits)

lemma managed_pod_spec_idem:
  assumes "vo_name (pd_volumes d ! 0) \<noteq> secretHeadersVolumeName" "length (filter secret_volume (pd_volumes e)) \<le> 1"
  shows "managed_pod_spec (managed_pod_spec e d) d = managed_pod_spec e d"
  using managed_volumes_idem [OF assms] runner_update.idem [of "pd_containers d ! 0"]
  by (simp add: managed_pod_spec_def security_idem managed_volumes_def applyManagedRunnerContainer_def)

lemma managed_meta_idem:
  assumes "distinct (map fst (om_labels d))" "distinct (map fst (om_annotations d))"
  shows "managed_meta (managed_meta e d) d = managed_meta e d"
  by (simp add: managed_meta_def setManagedMapValues_def map_updates_idem assms)

lemma desired_keys_distinct:
  "distinct (map fst (labels scenario))" "distinct (map fst (scenarioAnnotations scenario))"
  "distinct (map fst (pod_annotations scenario config))"
  by (auto simp: labels_def scenarioAnnotations_def pod_annotations_def identity_constants configHashAnnotation_def)

lemma desired_pod_fields:
  "pd_volumes (desired_pod_spec scenario name runnerImage secret redisAddress) ! 0
    = \<lparr>vo_name = ''scenario'', vo_source = ConfigMapVolume
        \<lparr>cs_name = name, cs_items = [], cs_optional = None, cs_default_mode = None\<rparr>\<rparr>"
  "ct_name (pd_containers (desired_pod_spec scenario name runnerImage secret redisAddress) ! 0) = ''runner''"
  by (simp_all add: desired_pod_spec_def add_secret_volume_def base_pod_spec_def Let_def runner_container_def
      split: option.splits)

text \<open>
  C37. Updating a Deployment is idempotent: what the controller has made of a Deployment, whatever
  other fields it had, needs no further change. With an API server that stores what it is sent,
  the next reconciliation of an unchanged scenario writes nothing and reports no change.
\<close>

theorem deployment_update_converges:
  assumes "desired = desiredDeployment scenario name runnerImage secret redisAddress config"
    and "length (filter secret_volume (pd_volumes (dp_pod existing))) \<le> 1"
    and "updated = applyManagedDeploymentFields existing desired"
    and "ka_get_deployment api (object_key (dp_meta desired)) w = (Inr updated, w)"
    and "kl_controlled_by lib (dp_meta updated) scenario"
    and "kl_same_selector lib (dp_selector existing) (dp_selector desired)"
    and "kl_same_deployment lib updated updated"
  shows "applyManagedDeploymentFields updated desired = updated
    \<and> applyDeployment lib api scenario desired w = (Inr False, w)"
proof -
  have "vo_name (pd_volumes (dp_pod desired) ! 0) \<noteq> secretHeadersVolumeName"
    by (simp add: assms(1) desiredDeployment_def desired_pod_fields secretHeadersVolumeName_def)
  then have "applyManagedDeploymentFields updated desired = updated"
    using managed_pod_spec_idem [OF _ assms(2)]
    by (simp add: assms(1,3) applyManagedDeploymentFields_def desiredDeployment_def desired_meta_def
        managed_meta_idem desired_keys_distinct setManagedMapValues_def map_updates_idem)
  moreover have "dp_selector updated = dp_selector existing"
    by (simp add: assms(3) applyManagedDeploymentFields_def)
  ultimately show ?thesis using assms(4-7)
    by (simp add: applyDeployment_def ensureControlledBy_def Let_def)
qed


subsection \<open>A cluster\<close>

text \<open>
  An API server that stores what it is sent, with one scenario, one ConfigMap and one Deployment,
  and the libraries as documented: the instance at which the theorems are evaluated.
\<close>

record cluster =
  cl_scenario :: "traffic_scenario option"
  cl_config_map :: "config_map option"
  cl_deployment :: "deployment option"
  cl_redis :: "string list"
  cl_now :: int
  cl_events :: "controller_error list"
  cl_abandoned :: nat

definition found_at :: "('a \<Rightarrow> string \<times> string) \<Rightarrow> 'a option \<Rightarrow> string \<times> string \<Rightarrow> kube_error + 'a" where
  "found_at key x k = (case x of None \<Rightarrow> Inl NotFound | Some v \<Rightarrow> if key v = k then Inr v else Inl NotFound)"

definition cluster_api :: "(string \<Rightarrow> string \<Rightarrow> bool) \<Rightarrow> cluster kube_api" where
  "cluster_api matches =
     \<lparr>ka_get_scenario = (\<lambda>k c. (found_at (\<lambda>s. (ts_namespace s, ts_name s)) (cl_scenario c) k, c)),
      ka_update_scenario = (\<lambda>s c. (Inr s, c\<lparr>cl_scenario := Some s\<rparr>)),
      ka_patch_status = (\<lambda>_ s c. (None, c\<lparr>cl_scenario := Some s\<rparr>)),
      ka_get_config_map = (\<lambda>k c. (found_at (object_key \<circ> cm_meta) (cl_config_map c) k, c)),
      ka_create_config_map = (\<lambda>m c. (None, c\<lparr>cl_config_map := Some m\<rparr>)),
      ka_patch_config_map = (\<lambda>_ m c. (None, c\<lparr>cl_config_map := Some m\<rparr>)),
      ka_get_deployment = (\<lambda>k c. (found_at (object_key \<circ> dp_meta) (cl_deployment c) k, c)),
      ka_create_deployment = (\<lambda>d c. (None, c\<lparr>cl_deployment := Some d\<rparr>)),
      ka_patch_deployment = (\<lambda>_ d c. (None, c\<lparr>cl_deployment := Some d\<rparr>)),
      ka_delete_deployment = (\<lambda>_ _ c. (None, c\<lparr>cl_deployment := None\<rparr>)),
      ka_event = (\<lambda>e c. c\<lparr>cl_events := e # cl_events c\<rparr>),
      ka_observe_abandoned = (\<lambda>c. c\<lparr>cl_abandoned := Suc (cl_abandoned c)\<rparr>),
      ka_now = (\<lambda>c. (cl_now c, c)),
      ka_scan = (\<lambda>p c. ((filter (matches p) (cl_redis c), None), c)),
      ka_del = (\<lambda>ks c. (None, c\<lparr>cl_redis := filter (\<lambda>k. k \<notin> set ks) (cl_redis c)\<rparr>))\<rparr>"

definition owner_of :: "traffic_scenario \<Rightarrow> owner_ref" where
  "owner_of s = \<lparr>ow_kind = ''TrafficScenario'', ow_name = ts_name s, ow_uid = ts_uid s, ow_controller = True\<rparr>"

definition plain_lib :: kube_lib where
  "plain_lib =
     \<lparr>kl_controlled_by = (\<lambda>m s. list_ex (\<lambda>r. ow_controller r \<and> ow_uid r = ts_uid s) (om_owners m)),
      kl_controller_of = (\<lambda>m. find ow_controller (om_owners m)),
      kl_set_controller = (\<lambda>s m. if list_ex ow_controller (om_owners m) then Inl ''owned''
                                 else Inr (m\<lparr>om_owners := om_owners m @ [owner_of s]\<rparr>)),
      kl_same_config_map = (=), kl_same_deployment = (=), kl_same_selector = (=), kl_same_status = (=),
      kl_set_condition = (\<lambda>cs c. if list_ex (\<lambda>d. cd_type d = cd_type c) cs
                                 then map (\<lambda>d. if cd_type d = cd_type c then c else d) cs else cs @ [c]),
      kl_add_finalizer = (\<lambda>fs f. if f \<in> set fs then fs else fs @ [f]),
      kl_remove_finalizer = (\<lambda>fs f. filter (\<lambda>x. x \<noteq> f) fs),
      kl_has_finalizer = (\<lambda>fs f. f \<in> set fs),
      kl_text = (\<lambda>_. ''error'')\<rparr>"

definition shop_deployment :: deployment where
  "shop_deployment = desiredDeployment shop_scenario ''shop-runner'' ''img'' '''' ''redis:6379'' ''{}''"

text \<open>The Deployment of an older version, with a sidecar another controller has added.\<close>

definition old_deployment :: deployment where
  "old_deployment = shop_deployment\<lparr>dp_meta := (dp_meta shop_deployment)\<lparr>om_owners := [owner_of shop_scenario]\<rparr>,
     dp_pod := (dp_pod shop_deployment)\<lparr>pd_containers :=
       map (\<lambda>c. c\<lparr>ct_image := ''old''\<rparr>) (pd_containers (dp_pod shop_deployment))
       @ [(pd_containers (dp_pod shop_deployment) ! 0)\<lparr>ct_name := ''sidecar''\<rparr>]\<rparr>\<rparr>"

definition empty_cluster :: cluster where
  "empty_cluster = \<lparr>cl_scenario = None, cl_config_map = None, cl_deployment = None, cl_redis = [], cl_now = 0,
     cl_events = [], cl_abandoned = 0\<rparr>"

lemma old_deployment_volumes: "length (filter secret_volume (pd_volumes (dp_pod old_deployment))) \<le> 1"
  by (simp add: old_deployment_def shop_deployment_def desiredDeployment_def desired_pod_spec_def Let_def
      add_secret_volume_def desiredSecretHeaderVolume_def base_pod_spec_def secretHeadersVolumeName_def)

definition new_deployment :: deployment where
  "new_deployment = applyManagedDeploymentFields old_deployment shop_deployment"

theorem deployment_update_converges_witness:
  "applyDeployment plain_lib (cluster_api (=)) shop_scenario shop_deployment
      (empty_cluster\<lparr>cl_deployment := Some new_deployment\<rparr>)
    = (Inr False, empty_cluster\<lparr>cl_deployment := Some new_deployment\<rparr>)"
proof -
  have m: "object_key (dp_meta new_deployment) = object_key (dp_meta shop_deployment)"
    "om_owners (dp_meta new_deployment) = [owner_of shop_scenario]"
    by (simp_all add: new_deployment_def applyManagedDeploymentFields_def managed_meta_def old_deployment_def object_key_def)
  have "dp_selector old_deployment = dp_selector shop_deployment" by (simp add: old_deployment_def)
  then show ?thesis
    using deployment_update_converges [OF shop_deployment_def old_deployment_volumes new_deployment_def,
        of "cluster_api (=)" "empty_cluster\<lparr>cl_deployment := Some new_deployment\<rparr>" plain_lib] m
    by (simp add: cluster_api_def found_at_def plain_lib_def owner_of_def)
qed


end
