(* ===== verification/Scenario_Status.thy ===== *)
theory Scenario_Status
  imports Scenario_Apply
begin

section \<open>The status of a scenario\<close>

text \<open>
  \<open>internal/controller/trafficscenario_status.go\<close>: what the controller reports, from its own
  decisions and from the state of the Deployment. Durations are nanoseconds, as in Go.
\<close>

definition rolloutRequeueInterval :: int where "rolloutRequeueInterval = 5 * 1000000000"

definition reasonControllerConfigurationInvalid :: string where
  "reasonControllerConfigurationInvalid = ''ControllerConfigurationInvalid''"
definition reasonReconcileFailed :: string where "reasonReconcileFailed = ''ReconcileFailed''"
definition reasonRolloutFailed :: string where "reasonRolloutFailed = ''RolloutFailed''"
definition reasonRunnerDeploymentChanged :: string where
  "reasonRunnerDeploymentChanged = ''RunnerDeploymentChanged''"
definition reasonRunnerDeletionRequested :: string where
  "reasonRunnerDeletionRequested = ''RunnerDeletionRequested''"
definition reasonRunnerProgressing :: string where "reasonRunnerProgressing = ''RunnerProgressing''"
definition reasonRunnerReady :: string where "reasonRunnerReady = ''RunnerReady''"
definition reasonScenarioSuspended :: string where "reasonScenarioSuspended = ''ScenarioSuspended''"
definition reasonValidationFailed :: string where "reasonValidationFailed = ''ValidationFailed''"

record scenario_state =
  sn_phase :: string
  sn_active_condition :: string
  sn_reason :: string
  sn_message :: string
  sn_requeue_after :: int

definition progressingState :: "string \<Rightarrow> string \<Rightarrow> scenario_state" where
  "progressingState reason message =
     \<lparr>sn_phase = PhaseProgressing, sn_active_condition = ConditionProgressing, sn_reason = reason,
      sn_message = message, sn_requeue_after = rolloutRequeueInterval\<rparr>"

definition degradedState :: "string \<Rightarrow> string \<Rightarrow> string \<Rightarrow> scenario_state" where
  "degradedState phase reason message =
     \<lparr>sn_phase = phase, sn_active_condition = ConditionDegraded, sn_reason = reason,
      sn_message = message, sn_requeue_after = 0\<rparr>"

definition suspendedState :: scenario_state where
  "suspendedState =
     \<lparr>sn_phase = PhaseSuspended, sn_active_condition = ConditionSuspended,
      sn_reason = reasonScenarioSuspended, sn_message = ''Traffic generation is suspended'',
      sn_requeue_after = 0\<rparr>"

subsection \<open>The state a Deployment is in\<close>

definition deploymentCondition :: "deployment \<Rightarrow> string \<Rightarrow> deployment_condition option" where
  "deploymentCondition d conditionType = find (\<lambda>c. dc_type c = conditionType) (du_conditions (dp_status d))"

definition progress_message :: "int \<Rightarrow> int \<Rightarrow> string" where
  "progress_message available desired =
     ''Runner Deployment rollout is progressing: '' @ itoa available @ ''/'' @ itoa desired @ '' replicas available''"

text \<open>The second half of \<open>stateFromDeployment\<close>: a replica failure, then readiness.\<close>

definition replica_state :: "deployment \<Rightarrow> int \<Rightarrow> scenario_state \<Rightarrow> scenario_state" where
  "replica_state d desiredReplicas progressing =
     (let status = dp_status d;
          ready = (if desiredReplicas \<le> du_updated_replicas status
                     \<and> desiredReplicas \<le> du_available_replicas status
                     \<and> du_unavailable_replicas status = 0
                   then \<lparr>sn_phase = PhaseReady, sn_active_condition = ConditionReady,
                         sn_reason = reasonRunnerReady, sn_message = ''Runner Deployment is ready'',
                         sn_requeue_after = 0\<rparr>
                   else progressing)
      in case deploymentCondition d ''ReplicaFailure'' of
           Some c \<Rightarrow>
             if dc_status c = ''True'' then degradedState PhaseDegraded reasonRolloutFailed (dc_message c)
             else ready
         | None \<Rightarrow> ready)"

definition stateFromDeployment :: "deployment \<Rightarrow> scenario_state" where
  "stateFromDeployment d =
     (let desiredReplicas = (case dp_replicas d of None \<Rightarrow> 1 | Some n \<Rightarrow> n);
          status = dp_status d;
          progressing = progressingState reasonRunnerProgressing
            (progress_message (du_available_replicas status) desiredReplicas)
      in if dp_generation d \<le> du_observed_generation status then
           (case deploymentCondition d ''Progressing'' of
              Some c \<Rightarrow>
                if dc_status c = ''False'' \<and> dc_reason c = ''ProgressDeadlineExceeded''
                then degradedState PhaseDegraded reasonRolloutFailed (dc_message c)
                else replica_state d desiredReplicas progressing
            | None \<Rightarrow> replica_state d desiredReplicas progressing)
         else progressing)"

subsection \<open>Writing the status\<close>

definition state_conditions :: "kube_lib \<Rightarrow> int \<Rightarrow> scenario_state \<Rightarrow> condition list \<Rightarrow> condition list" where
  "state_conditions lib generation st conditions =
     fold (\<lambda>conditionType conditions. kl_set_condition lib conditions
             \<lparr>cd_type = conditionType, cd_status = (conditionType = sn_active_condition st),
              cd_observed_generation = generation, cd_reason = sn_reason st, cd_message = sn_message st,
              cd_last_transition = 0\<rparr>)
       [ConditionReady, ConditionProgressing, ConditionDegraded, ConditionSuspended] conditions"

definition status_for :: "kube_lib \<Rightarrow> traffic_scenario \<Rightarrow> scenario_state \<Rightarrow> traffic_scenario_status" where
  "status_for lib scenario st =
     (ts_status scenario)\<lparr>tt_phase := sn_phase st, tt_message := sn_message st,
        tt_observed_generation := ts_generation scenario,
        tt_conditions := state_conditions lib (ts_generation scenario) st (tt_conditions (ts_status scenario))\<rparr>"

text \<open>Errors of a reconciliation: a failed status write, or the cause it is retried for.\<close>

datatype reconcile_failure =
    StatusFailed kube_error
  | Cause controller_error
  | Panicked

record reconcile_result =
  re_requeue_after :: int
  re_error :: "reconcile_failure option"

definition updateScenarioStatus ::
  "kube_lib \<Rightarrow> 'w kube_api \<Rightarrow> traffic_scenario \<Rightarrow> scenario_state \<Rightarrow> 'w \<Rightarrow> kube_error option \<times> 'w" where
  "updateScenarioStatus lib api scenario st w =
     (let status = status_for lib scenario st
      in if kl_same_status lib (ts_status scenario) status then (None, w)
         else ka_patch_status api scenario (scenario\<lparr>ts_status := status\<rparr>) w)"

definition reconcileResultForState ::
  "kube_lib \<Rightarrow> 'w kube_api \<Rightarrow> traffic_scenario \<Rightarrow> scenario_state \<Rightarrow> 'w \<Rightarrow> reconcile_result \<times> 'w" where
  "reconcileResultForState lib api scenario st w =
     (case updateScenarioStatus lib api scenario st w of
        (Some e, w) \<Rightarrow> (\<lparr>re_requeue_after = 0, re_error = Some (StatusFailed e)\<rparr>, w)
      | (None, w) \<Rightarrow> (\<lparr>re_requeue_after = sn_requeue_after st, re_error = None\<rparr>, w))"

definition failed_with ::
  "kube_lib \<Rightarrow> 'w kube_api \<Rightarrow> traffic_scenario \<Rightarrow> string \<Rightarrow> controller_error \<Rightarrow> bool \<Rightarrow> 'w \<Rightarrow> reconcile_result \<times> 'w" where
  "failed_with lib api scenario reason cause retry w =
     (let st = degradedState PhaseFailed reason (kl_text lib cause)
      in case updateScenarioStatus lib api scenario st w of
           (Some e, w) \<Rightarrow> (\<lparr>re_requeue_after = 0, re_error = Some (StatusFailed e)\<rparr>, w)
         | (None, w) \<Rightarrow>
             (\<lparr>re_requeue_after = 0, re_error = (if retry then Some (Cause cause) else None)\<rparr>, w))"

subsection \<open>What a status says\<close>

definition condition_types :: "string list" where
  "condition_types = [ConditionReady, ConditionProgressing, ConditionDegraded, ConditionSuspended]"

definition condition_of :: "condition list \<Rightarrow> string \<Rightarrow> condition option" where
  "condition_of cs t = find (\<lambda>d. cd_type d = t) cs"

text \<open>
  What \<open>apimeta.SetStatusCondition\<close> is documented to do: the condition of that type gets the
  given fields (the transition time is its own), all others stay.
\<close>

definition sets_condition :: "kube_lib \<Rightarrow> bool" where
  "sets_condition lib \<longleftrightarrow>
     (\<forall>cs c. (\<exists>time. condition_of (kl_set_condition lib cs c) (cd_type c) = Some (c\<lparr>cd_last_transition := time\<rparr>))
           \<and> (\<forall>t. t \<noteq> cd_type c \<longrightarrow> condition_of (kl_set_condition lib cs c) t = condition_of cs t))"

definition condition_for :: "traffic_scenario \<Rightarrow> scenario_state \<Rightarrow> string \<Rightarrow> condition" where
  "condition_for scenario st t =
     \<lparr>cd_type = t, cd_status = (t = sn_active_condition st), cd_observed_generation = ts_generation scenario,
      cd_reason = sn_reason st, cd_message = sn_message st, cd_last_transition = 0\<rparr>"

lemma set_conditions:
  assumes "sets_condition lib"
  shows "t \<in> set ts \<Longrightarrow> \<exists>time. condition_of
      (fold (\<lambda>t cs. kl_set_condition lib cs (condition_for scenario st t)) ts cs) t
        = Some ((condition_for scenario st t)\<lparr>cd_last_transition := time\<rparr>)"
proof (induction ts rule: rev_induct)
  case (snoc u ts)
  define cs' where "cs' = fold (\<lambda>t cs. kl_set_condition lib cs (condition_for scenario st t)) ts cs"
  have u: "cd_type (condition_for scenario st u) = u" by (simp add: condition_for_def)
  show ?case
  proof (cases "t = u")
    case True
    have "\<exists>time. condition_of (kl_set_condition lib cs' (condition_for scenario st u)) u
        = Some ((condition_for scenario st u)\<lparr>cd_last_transition := time\<rparr>)"
      using assms u unfolding sets_condition_def by metis
    then show ?thesis using True by (simp add: cs'_def)
  next
    case False
    then have "condition_of (kl_set_condition lib cs' (condition_for scenario st u)) t = condition_of cs' t"
      using assms u unfolding sets_condition_def by metis
    then show ?thesis using snoc False by (simp add: cs'_def)
  qed
qed simp

lemma state_conditions_fold:
  "tt_conditions (status_for lib scenario st)
    = fold (\<lambda>t cs. kl_set_condition lib cs (condition_for scenario st t)) condition_types (tt_conditions (ts_status scenario))"
  by (simp add: status_for_def state_conditions_def condition_for_def condition_types_def)

text \<open>
  C23. Of the four conditions of a scenario exactly one is true after a status update, whatever the
  conditions were before: the one of the phase the controller has decided on. All four carry the
  generation that was observed and the same reason.
\<close>

theorem one_condition_true:
  assumes "sets_condition lib" and "sn_active_condition st \<in> set condition_types"
    and "status = status_for lib scenario st"
  shows "(\<exists>!t. t \<in> set condition_types
        \<and> (\<exists>d. condition_of (tt_conditions status) t = Some d \<and> cd_status d))
    \<and> (\<forall>t \<in> set condition_types. \<exists>d. condition_of (tt_conditions status) t = Some d
        \<and> cd_status d = (t = sn_active_condition st)
        \<and> cd_observed_generation d = ts_generation scenario \<and> cd_reason d = sn_reason st)"
proof -
  have a: "\<exists>d. condition_of (tt_conditions status) t = Some d
        \<and> cd_status d = (t = sn_active_condition st)
        \<and> cd_observed_generation d = ts_generation scenario \<and> cd_reason d = sn_reason st"
    if "t \<in> set condition_types" for t
    using set_conditions [OF assms(1) that] unfolding assms(3) state_conditions_fold
    by (fastforce simp: condition_for_def)
  show ?thesis
  proof (intro conjI ballI a ex1I [of _ "sn_active_condition st"])
    fix t assume "t \<in> set condition_types \<and> (\<exists>d. condition_of (tt_conditions status) t = Some d \<and> cd_status d)"
    then show "t = sn_active_condition st" using a [of t] by auto
  qed (use a [OF assms(2)] assms(2) in auto)
qed

lemma controller_states_active:
  "sn_active_condition (progressingState reason message) \<in> set condition_types"
  "sn_active_condition (degradedState phase reason message) \<in> set condition_types"
  "sn_active_condition suspendedState \<in> set condition_types"
  "sn_active_condition (stateFromDeployment d) \<in> set condition_types"
  by (auto simp: condition_types_def progressingState_def degradedState_def suspendedState_def
      stateFromDeployment_def replica_state_def Let_def split: option.splits)

lemma plain_lib_sets_condition: "sets_condition plain_lib"
proof -
  have m: "condition_of (map (\<lambda>d. if cd_type d = cd_type c then c else d) cs) t
      = (if t = cd_type c then (if list_ex (\<lambda>d. cd_type d = cd_type c) cs then Some c else None) else condition_of cs t)"
    for cs c t by (induction cs) (auto simp: condition_of_def)
  have a: "condition_of (cs @ [c]) t = (case condition_of cs t of None \<Rightarrow> if cd_type c = t then Some c else None | Some d \<Rightarrow> Some d)"
    for cs c t by (induction cs) (auto simp: condition_of_def)
  have n: "\<not> list_ex (\<lambda>d. cd_type d = t) cs \<Longrightarrow> condition_of cs t = None" for t cs
    by (induction cs) (auto simp: condition_of_def)
  show ?thesis unfolding sets_condition_def
  proof (intro allI conjI impI)
    fix cs and c :: condition
    have "condition_of (kl_set_condition plain_lib cs c) (cd_type c) = Some (c\<lparr>cd_last_transition := cd_last_transition c\<rparr>)"
      by (auto simp: plain_lib_def m a n)
    then show "\<exists>time. condition_of (kl_set_condition plain_lib cs c) (cd_type c) = Some (c\<lparr>cd_last_transition := time\<rparr>)" ..
  next
    fix cs t and c :: condition assume "t \<noteq> cd_type c"
    then show "condition_of (kl_set_condition plain_lib cs c) t = condition_of cs t"
      by (auto simp: plain_lib_def m a split: option.splits)
  qed
qed

theorem one_condition_true_witness:
  "\<exists>!t. t \<in> set condition_types
    \<and> (\<exists>d. condition_of (tt_conditions (status_for plain_lib shop_scenario suspendedState)) t = Some d \<and> cd_status d)"
  using one_condition_true [OF plain_lib_sets_condition controller_states_active(3) refl] by blast

definition gave_up :: "deployment \<Rightarrow> bool" where
  "gave_up d \<longleftrightarrow> (\<exists>c. deploymentCondition d ''Progressing'' = Some c \<and> dc_status c = ''False''
      \<and> dc_reason c = ''ProgressDeadlineExceeded'')"

definition replica_failure :: "deployment \<Rightarrow> bool" where
  "replica_failure d \<longleftrightarrow> (\<exists>c. deploymentCondition d ''ReplicaFailure'' = Some c \<and> dc_status c = ''True'')"

definition desired_replicas :: "deployment \<Rightarrow> int" where
  "desired_replicas d = (case dp_replicas d of None \<Rightarrow> 1 | Some n \<Rightarrow> n)"

text \<open>
  C39. A scenario is reported ready exactly when the Deployment controller has seen the current
  generation, has not given up on the rollout, reports no replica failure, and every desired replica is
  updated and available with none unavailable. It is reported degraded only when the current generation failed; a
  Deployment that is behind is always progressing, and polled again.
\<close>

theorem ready_exactly_when_rolled_out:
  "(sn_phase (stateFromDeployment d) = PhaseReady \<longleftrightarrow>
        dp_generation d \<le> du_observed_generation (dp_status d) \<and> \<not> gave_up d \<and> \<not> replica_failure d
        \<and> desired_replicas d \<le> du_updated_replicas (dp_status d)
        \<and> desired_replicas d \<le> du_available_replicas (dp_status d)
        \<and> du_unavailable_replicas (dp_status d) = 0)
    \<and> (sn_phase (stateFromDeployment d) = PhaseDegraded \<longleftrightarrow>
        dp_generation d \<le> du_observed_generation (dp_status d) \<and> (gave_up d \<or> replica_failure d))
    \<and> (sn_phase (stateFromDeployment d) \<notin> {PhaseReady, PhaseDegraded} \<longleftrightarrow>
        sn_phase (stateFromDeployment d) = PhaseProgressing
        \<and> sn_requeue_after (stateFromDeployment d) = rolloutRequeueInterval)"
  unfolding gave_up_def replica_failure_def desired_replicas_def
  by (auto simp: stateFromDeployment_def replica_state_def progressingState_def degradedState_def phase_constants Let_def
      split: option.splits)

end
