(* ===== verification/Scenario_Reconcile.thy ===== *)
theory Scenario_Reconcile
  imports Scenario_Status
begin

section \<open>The reconciler\<close>

text \<open>
  \<open>internal/controller/trafficscenario_finalizer.go\<close> and \<open>trafficscenario_controller.go\<close>: one
  reconciliation of a scenario, as a function of the API and its world. Log lines have no
  counterpart; the event and the observer of an abandoned cleanup are operations of the API.
\<close>

definition redisCleanupFinalizer :: string where
  "redisCleanupFinalizer = ''traffic.kurama.dev/redis-cleanup''"

definition redisCleanupGracePeriod :: int where "redisCleanupGracePeriod = 5 * 60 * 1000000000"
definition deletionRequeueInterval :: int where "deletionRequeueInterval = rolloutRequeueInterval"

text \<open>
  The fields of \<open>TrafficScenarioReconciler\<close>. The Redis client is a Go interface: it is nil, or it
  holds a pointer, which itself may be nil; such an interface compares unequal to nil, and a
  method called on it panics. Of the other interfaces only whether they are nil matters.
\<close>

datatype redis_interface = NilInterface | NilPointer | Connected

record reconciler =
  rr_runner_image :: string
  rr_image_pull_secret :: string
  rr_redis_address :: string
  rr_redis_client :: redis_interface
  rr_has_event_recorder :: bool
  rr_has_cleanup_observer :: bool

definition has_redis_client :: "reconciler \<Rightarrow> bool" where
  "has_redis_client r \<longleftrightarrow> rr_redis_client r \<noteq> NilInterface"

definition ok_result :: reconcile_result where
  "ok_result = \<lparr>re_requeue_after = 0, re_error = None\<rparr>"

subsection \<open>Deletion\<close>

definition redisCleanupGracePeriodExpired :: "'w kube_api \<Rightarrow> traffic_scenario \<Rightarrow> 'w \<Rightarrow> bool \<times> 'w" where
  "redisCleanupGracePeriodExpired api scenario w =
     (case ts_deletion_timestamp scenario of
        None \<Rightarrow> (False, w)
      | Some t \<Rightarrow> (case ka_now api w of (now, w) \<Rightarrow> (\<not> now < t + redisCleanupGracePeriod, w)))"

text \<open>The loop over the patterns, which collects keys until a scan fails.\<close>

fun scan_patterns ::
  "'w kube_api \<Rightarrow> string list \<Rightarrow> string list \<Rightarrow> 'w \<Rightarrow> (string + string list) \<times> 'w" where
  "scan_patterns api keys [] w = (Inr keys, w)"
| "scan_patterns api keys (p # ps) w =
     (case ka_scan api p w of
        ((found, Some e), w) \<Rightarrow> (Inl e, w)
      | ((found, None), w) \<Rightarrow> scan_patterns api (keys @ found) ps w)"

text \<open>The first \<open>Scan\<close> on a nil pointer panics: \<open>None\<close>.\<close>

definition deleteScenarioRedisKeys ::
  "reconciler \<Rightarrow> 'w kube_api \<Rightarrow> scope \<Rightarrow> 'w \<Rightarrow> controller_error option option \<times> 'w" where
  "deleteScenarioRedisKeys r api keyScope w =
     (if \<not> has_redis_client r then (Some (Some CleanupNoClient), w)
      else if rr_redis_client r = NilPointer then (None, w)
      else case scan_patterns api [] (CleanupPatterns keyScope) w of
             (Inl e, w) \<Rightarrow> (Some (Some (CleanupScan e)), w)
           | (Inr keys, w) \<Rightarrow>
               if keys = [] then (Some None, w)
               else (case ka_del api keys w of
                  (Some e, w) \<Rightarrow> (Some (Some (CleanupDel e)), w)
                | (None, w) \<Rightarrow> (Some None, w)))"

definition removeRedisCleanupFinalizer ::
  "kube_lib \<Rightarrow> 'w kube_api \<Rightarrow> traffic_scenario \<Rightarrow> 'w \<Rightarrow> reconcile_result \<times> 'w" where
  "removeRedisCleanupFinalizer lib api scenario w =
     (case ka_update_scenario api
         (scenario\<lparr>ts_finalizers := kl_remove_finalizer lib (ts_finalizers scenario) redisCleanupFinalizer\<rparr>) w of
        (Inl e, w) \<Rightarrow>
          (\<lparr>re_requeue_after = 0, re_error = Some (Cause (UpdateFailed ''remove Redis cleanup finalizer'' e))\<rparr>, w)
      | (Inr _, w) \<Rightarrow> (ok_result, w))"

definition abandonCleanup ::
  "kube_lib \<Rightarrow> reconciler \<Rightarrow> 'w kube_api \<Rightarrow> traffic_scenario \<Rightarrow> controller_error \<Rightarrow> 'w \<Rightarrow> reconcile_result \<times> 'w" where
  "abandonCleanup lib r api scenario cause w =
     (case removeRedisCleanupFinalizer lib api scenario w of
        (result, w) \<Rightarrow>
          if re_error result \<noteq> None then (result, w)
          else
            (let w = (if rr_has_event_recorder r then ka_event api cause w else w);
                 w = (if rr_has_cleanup_observer r then ka_observe_abandoned api w else w)
             in (result, w)))"

definition retryOrAbandonCleanup ::
  "kube_lib \<Rightarrow> reconciler \<Rightarrow> 'w kube_api \<Rightarrow> traffic_scenario \<Rightarrow> controller_error \<Rightarrow> 'w \<Rightarrow> reconcile_result \<times> 'w" where
  "retryOrAbandonCleanup lib r api scenario cause w =
     (case redisCleanupGracePeriodExpired api scenario w of
        (True, w) \<Rightarrow> abandonCleanup lib r api scenario cause w
      | (False, w) \<Rightarrow> (\<lparr>re_requeue_after = deletionRequeueInterval, re_error = None\<rparr>, w))"

text \<open>
  The second half of \<open>reconcileDeletion\<close>: no Deployment is left. No frame defers anything, so a
  panic ends the reconciliation at once, with the error \<open>Panicked\<close> that controller-runtime
  makes of it.
\<close>

definition cleanup_keys ::
  "kube_lib \<Rightarrow> reconciler \<Rightarrow> 'w kube_api \<Rightarrow> traffic_scenario \<Rightarrow> 'w \<Rightarrow> reconcile_result \<times> 'w" where
  "cleanup_keys lib r api scenario w =
     (if \<not> has_redis_client r then retryOrAbandonCleanup lib r api scenario CleanupNoClient w
      else case NewScope (ts_namespace scenario) (ts_name scenario) (ts_uid scenario) of
             Inl e \<Rightarrow> retryOrAbandonCleanup lib r api scenario (CleanupScope e) w
           | Inr keyScope \<Rightarrow>
              (case deleteScenarioRedisKeys r api keyScope w of
                 (None, w) \<Rightarrow> (\<lparr>re_requeue_after = 0, re_error = Some Panicked\<rparr>, w)
               | (Some (Some e), w) \<Rightarrow> retryOrAbandonCleanup lib r api scenario e w
               | (Some None, w) \<Rightarrow> removeRedisCleanupFinalizer lib api scenario w))"

definition wait_for_deletion ::
  "kube_lib \<Rightarrow> reconciler \<Rightarrow> 'w kube_api \<Rightarrow> traffic_scenario \<Rightarrow> 'w \<Rightarrow> reconcile_result \<times> 'w" where
  "wait_for_deletion lib r api scenario w =
     (case redisCleanupGracePeriodExpired api scenario w of
        (True, w) \<Rightarrow> abandonCleanup lib r api scenario CleanupWaiting w
      | (False, w) \<Rightarrow> (\<lparr>re_requeue_after = deletionRequeueInterval, re_error = None\<rparr>, w))"

definition reconcileDeletion ::
  "kube_lib \<Rightarrow> reconciler \<Rightarrow> 'w kube_api \<Rightarrow> traffic_scenario \<Rightarrow> 'w \<Rightarrow> reconcile_result \<times> 'w" where
  "reconcileDeletion lib r api scenario w =
     (if \<not> kl_has_finalizer lib (ts_finalizers scenario) redisCleanupFinalizer then (ok_result, w)
      else case ka_get_deployment api (ts_namespace scenario, runnerName (ts_name scenario)) w of
             (Inl e, w) \<Rightarrow>
               if \<not> is_not_found e
               then retryOrAbandonCleanup lib r api scenario (GetFailed ''runner Deployment before Redis cleanup'' e) w
               else cleanup_keys lib r api scenario w
           | (Inr deployment, w) \<Rightarrow>
              (case ensureControlledBy lib (dp_meta deployment) scenario ''Deployment'' of
                 Some e \<Rightarrow> retryOrAbandonCleanup lib r api scenario e w
               | None \<Rightarrow>
                  (case ka_delete_deployment api True deployment w of
                     (Some e, w) \<Rightarrow>
                       if \<not> is_not_found e
                       then retryOrAbandonCleanup lib r api scenario
                              (DeleteFailed ''runner Deployment before Redis cleanup'' e) w
                       else wait_for_deletion lib r api scenario w
                   | (None, w) \<Rightarrow> wait_for_deletion lib r api scenario w)))"

subsection \<open>Reconcile\<close>

text \<open>A scenario that needs Redis gets the cleanup finalizer before anything else is done.\<close>

definition ensure_finalizer ::
  "kube_lib \<Rightarrow> reconciler \<Rightarrow> 'w kube_api \<Rightarrow> traffic_scenario \<Rightarrow> 'w \<Rightarrow> (controller_error + traffic_scenario) \<times> 'w" where
  "ensure_finalizer lib r api scenario w =
     (if requiresRedis scenario \<and> has_redis_client r
         \<and> \<not> kl_has_finalizer lib (ts_finalizers scenario) redisCleanupFinalizer
      then (case ka_update_scenario api
              (scenario\<lparr>ts_finalizers := kl_add_finalizer lib (ts_finalizers scenario) redisCleanupFinalizer\<rparr>) w of
              (Inl e, w) \<Rightarrow> (Inl (UpdateFailed ''add Redis cleanup finalizer'' e), w)
            | (Inr stored, w) \<Rightarrow> (Inr stored, w))
      else (Inr scenario, w))"

definition reconcile_suspended ::
  "kube_lib \<Rightarrow> 'w kube_api \<Rightarrow> traffic_scenario \<Rightarrow> string \<Rightarrow> 'w \<Rightarrow> reconcile_result \<times> 'w" where
  "reconcile_suspended lib api scenario name w =
     (case ka_get_deployment api (ts_namespace scenario, name) w of
        (Inl e, w) \<Rightarrow>
          if \<not> is_not_found e
          then failed_with lib api scenario reasonReconcileFailed (GetFailed ''runner deployment'' e) True w
          else reconcileResultForState lib api scenario suspendedState w
      | (Inr deployment, w) \<Rightarrow>
         (case ensureControlledBy lib (dp_meta deployment) scenario ''Deployment'' of
            Some e \<Rightarrow> failed_with lib api scenario reasonReconcileFailed e True w
          | None \<Rightarrow>
             (let (err, w) = ka_delete_deployment api False deployment w;
                  requested = progressingState reasonRunnerDeletionRequested
                    ''Runner Deployment deletion is in progress''
              in case err of
                   Some e \<Rightarrow>
                     if \<not> is_not_found e
                     then failed_with lib api scenario reasonReconcileFailed
                            (DeleteFailed ''suspended runner deployment'' e) True w
                     else reconcileResultForState lib api scenario requested w
                 | None \<Rightarrow> reconcileResultForState lib api scenario requested w)))"

text \<open>The Deployment is up to date: report what it says.\<close>

definition report_deployment ::
  "kube_lib \<Rightarrow> 'w kube_api \<Rightarrow> traffic_scenario \<Rightarrow> string \<Rightarrow> 'w \<Rightarrow> reconcile_result \<times> 'w" where
  "report_deployment lib api scenario name w =
     (case ka_get_deployment api (ts_namespace scenario, name) w of
        (Inl e, w) \<Rightarrow>
          failed_with lib api scenario reasonReconcileFailed (GetFailed ''reconciled runner Deployment'' e) True w
      | (Inr current, w) \<Rightarrow>
         (case ensureControlledBy lib (dp_meta current) scenario ''Deployment'' of
            Some e \<Rightarrow> failed_with lib api scenario reasonReconcileFailed e True w
          | None \<Rightarrow> reconcileResultForState lib api scenario (stateFromDeployment current) w))"

definition apply_workload ::
  "kube_lib \<Rightarrow> reconciler \<Rightarrow> 'w kube_api \<Rightarrow> traffic_scenario \<Rightarrow> string \<Rightarrow> 'w \<Rightarrow> reconcile_result \<times> 'w" where
  "apply_workload lib r api scenario name w =
     (let config = scenarioConfigJSON scenario
      in case applyConfigMap lib api scenario (desiredConfigMap scenario name config) w of
           (Some e, w) \<Rightarrow> failed_with lib api scenario reasonReconcileFailed e True w
         | (None, w) \<Rightarrow>
             (case applyDeployment lib api scenario
                 (desiredDeployment scenario name (rr_runner_image r) (rr_image_pull_secret r)
                    (rr_redis_address r) config) w of
                (Inl e, w) \<Rightarrow> failed_with lib api scenario reasonReconcileFailed e True w
              | (Inr True, w) \<Rightarrow>
                  reconcileResultForState lib api scenario
                    (progressingState reasonRunnerDeploymentChanged
                      ''Runner Deployment was created or updated; waiting for rollout status'') w
              | (Inr False, w) \<Rightarrow> report_deployment lib api scenario name w))"

definition reconcile_active ::
  "go_lib \<Rightarrow> name_checks \<Rightarrow> kube_lib \<Rightarrow> reconciler \<Rightarrow> 'w kube_api \<Rightarrow> traffic_scenario \<Rightarrow> 'w
     \<Rightarrow> reconcile_result \<times> 'w" where
  "reconcile_active golib checks lib r api scenario w =
     (let name = runnerName (ts_name scenario)
      in if sp_suspend (ts_spec scenario) then reconcile_suspended lib api scenario name w
         else case validateScenario golib checks scenario of
                Some e \<Rightarrow> failed_with lib api scenario reasonValidationFailed (ScenarioInvalid e) False w
              | None \<Rightarrow>
                 if rr_runner_image r = '''' then
                   failed_with lib api scenario reasonControllerConfigurationInvalid MissingImage True w
                 else if requiresRedis scenario \<and> rr_redis_address r = '''' then
                   failed_with lib api scenario reasonControllerConfigurationInvalid MissingRedisAddress True w
                 else apply_workload lib r api scenario name w)"

definition Reconcile ::
  "go_lib \<Rightarrow> name_checks \<Rightarrow> kube_lib \<Rightarrow> reconciler \<Rightarrow> 'w kube_api \<Rightarrow> string \<times> string \<Rightarrow> 'w
     \<Rightarrow> reconcile_result \<times> 'w" where
  "Reconcile golib checks lib r api req w =
     (case ka_get_scenario api req w of
        (Inl e, w) \<Rightarrow>
          (\<lparr>re_requeue_after = 0,
            re_error = (if is_not_found e then None else Some (Cause (GetFailed ''TrafficScenario'' e)))\<rparr>, w)
      | (Inr scenario, w) \<Rightarrow>
          if ts_deletion_timestamp scenario \<noteq> None then reconcileDeletion lib r api scenario w
          else (case ensure_finalizer lib r api scenario w of
                  (Inl e, w) \<Rightarrow> (\<lparr>re_requeue_after = 0, re_error = Some (Cause e)\<rparr>, w)
                | (Inr scenario, w) \<Rightarrow> reconcile_active golib checks lib r api scenario w))"

end
