(* ===== verification/Scenario_Safety.thy ===== *)
theory Scenario_Safety
  imports Scenario_Reconcile Redis_Server
begin

section \<open>What a reconciliation does to the cluster\<close>

text \<open>
  Any API can be wrapped so that it keeps a list of its calls with their outcomes. The theorems
  are about that list, for an arbitrary API: they hold whatever the server answers, and whenever
  it fails.
\<close>

subsection \<open>The audited API\<close>

datatype kube_call =
    GotScenario "string \<times> string" "kube_error + traffic_scenario"
  | UpdatedScenario traffic_scenario "kube_error + traffic_scenario"
  | PatchedStatus traffic_scenario traffic_scenario
  | GotConfigMap "kube_error + config_map"
  | CreatedConfigMap config_map
  | PatchedConfigMap config_map config_map
  | GotDeployment "kube_error + deployment"
  | CreatedDeployment deployment
  | PatchedDeployment deployment deployment
  | DeletedDeployment deployment
  | Event controller_error
  | Abandoned
  | ReadClock int
  | Scanned string "string list" "string option"
  | DeletedKeys "string list" "string option"

type_synonym 'w audit = "'w \<times> kube_call list"

definition logging :: "('r \<Rightarrow> kube_call) \<Rightarrow> ('w \<Rightarrow> 'r \<times> 'w) \<Rightarrow> 'w audit \<Rightarrow> 'r \<times> 'w audit" where
  "logging entry f wl = (case f (fst wl) of (r, w) \<Rightarrow> (r, (w, snd wl @ [entry r])))"

definition audited :: "'w kube_api \<Rightarrow> 'w audit kube_api" where
  "audited api =
     \<lparr>ka_get_scenario = (\<lambda>k. logging (GotScenario k) (ka_get_scenario api k)),
      ka_update_scenario = (\<lambda>s. logging (UpdatedScenario s) (ka_update_scenario api s)),
      ka_patch_status = (\<lambda>a b. logging (\<lambda>_. PatchedStatus a b) (ka_patch_status api a b)),
      ka_get_config_map = (\<lambda>k. logging GotConfigMap (ka_get_config_map api k)),
      ka_create_config_map = (\<lambda>m. logging (\<lambda>_. CreatedConfigMap m) (ka_create_config_map api m)),
      ka_patch_config_map = (\<lambda>a b. logging (\<lambda>_. PatchedConfigMap a b) (ka_patch_config_map api a b)),
      ka_get_deployment = (\<lambda>k. logging GotDeployment (ka_get_deployment api k)),
      ka_create_deployment = (\<lambda>d. logging (\<lambda>_. CreatedDeployment d) (ka_create_deployment api d)),
      ka_patch_deployment = (\<lambda>a b. logging (\<lambda>_. PatchedDeployment a b) (ka_patch_deployment api a b)),
      ka_delete_deployment = (\<lambda>f d. logging (\<lambda>_. DeletedDeployment d) (ka_delete_deployment api f d)),
      ka_event = (\<lambda>e wl. (ka_event api e (fst wl), snd wl @ [Event e])),
      ka_observe_abandoned = (\<lambda>wl. (ka_observe_abandoned api (fst wl), snd wl @ [Abandoned])),
      ka_now = logging ReadClock (ka_now api),
      ka_scan = (\<lambda>p. logging (\<lambda>(found, err). Scanned p found err) (ka_scan api p)),
      ka_del = (\<lambda>ks. logging (DeletedKeys ks) (ka_del api ks))\<rparr>"

text \<open>The calls of a run that starts with an empty list.\<close>

definition calls_of :: "('w audit \<Rightarrow> 'r \<times> 'w audit) \<Rightarrow> 'w \<Rightarrow> kube_call list" where
  "calls_of f w = snd (snd (f (w, [])))"

subsection \<open>Histories that stay within a predicate\<close>

definition within :: "(kube_call \<Rightarrow> bool) \<Rightarrow> ('w audit \<Rightarrow> 'r \<times> 'w audit) \<Rightarrow> bool" where
  "within P f \<longleftrightarrow> (\<forall>w l r w' l'. f (w, l) = (r, (w', l')) \<longrightarrow> (\<exists>new. l' = l @ new \<and> list_all P new))"

lemma withinI:
  "(\<And>w l r w' l'. f (w, l) = (r, (w', l')) \<Longrightarrow> \<exists>new. l' = l @ new \<and> list_all P new) \<Longrightarrow> within P f"
  by (simp add: within_def)

lemma within_calls: "within P f \<Longrightarrow> list_all P (calls_of f w)"
  by (cases "f (w, [])") (fastforce simp: within_def calls_of_def)

lemma within_logging: "(\<And>r. P (entry r)) \<Longrightarrow> within P (logging entry f)"
  by (auto simp: within_def logging_def split: prod.splits)

lemma within_pure: "within P (\<lambda>wl. (r, wl))"
  by (auto simp: within_def)

lemma within_then:
  assumes "within P f" "\<And>r. within P (g r)"
  shows "within P (\<lambda>wl. case f wl of (r, wl') \<Rightarrow> g r wl')"
proof (rule withinI)
  fix w l r w' l'
  assume a: "(case f (w, l) of (r, wl') \<Rightarrow> g r wl') = (r, w', l')"
  obtain r1 w1 l1 where f: "f (w, l) = (r1, (w1, l1))" by (metis prod.exhaust)
  obtain n1 where "l1 = l @ n1" "list_all P n1" using assms(1) f unfolding within_def by blast
  moreover obtain n2 where "l' = l1 @ n2" "list_all P n2"
    using assms(2) [of r1] a f unfolding within_def by (simp, blast)
  ultimately show "\<exists>new. l' = l @ new \<and> list_all P new" by (intro exI [of _ "n1 @ n2"]) simp
qed

named_theorems within_rules \<open>the syntax-directed rules for within\<close>

lemmas [within_rules] = within_then within_pure

lemma within_if [within_rules]:
  "(c \<Longrightarrow> within P f) \<Longrightarrow> (\<not> c \<Longrightarrow> within P g) \<Longrightarrow> within P (\<lambda>wl. if c then f wl else g wl)"
  by (cases c) simp_all

lemma within_sum [within_rules]:
  "(\<And>e. r = Inl e \<Longrightarrow> within P (f e)) \<Longrightarrow> (\<And>x. r = Inr x \<Longrightarrow> within P (g x))
    \<Longrightarrow> within P (\<lambda>wl. case r of Inl e \<Rightarrow> f e wl | Inr x \<Rightarrow> g x wl)"
  by (cases r) simp_all

lemma within_option [within_rules]:
  "(r = None \<Longrightarrow> within P f) \<Longrightarrow> (\<And>x. r = Some x \<Longrightarrow> within P (g x))
    \<Longrightarrow> within P (\<lambda>wl. case r of None \<Rightarrow> f wl | Some x \<Rightarrow> g x wl)"
  by (cases r) simp_all

lemma within_bool [within_rules]:
  "(r \<Longrightarrow> within P f) \<Longrightarrow> (\<not> r \<Longrightarrow> within P g)
    \<Longrightarrow> within P (\<lambda>wl. case r of True \<Rightarrow> f wl | False \<Rightarrow> g wl)"
  by (cases r) simp_all

lemma within_scan [within_rules]:
  "(\<And>a b. r = (a, b) \<Longrightarrow> within P (f a b)) \<Longrightarrow> within P (\<lambda>wl. case r of (a, b) \<Rightarrow> f a b wl)"
  by (cases r) simp

lemma audited_within:
  "(\<And>r. P (GotScenario k r)) \<Longrightarrow> within P (ka_get_scenario (audited api) k)"
  "(\<And>r. P (UpdatedScenario s r)) \<Longrightarrow> within P (ka_update_scenario (audited api) s)"
  "P (PatchedStatus s s') \<Longrightarrow> within P (ka_patch_status (audited api) s s')"
  "(\<And>r. P (GotConfigMap r)) \<Longrightarrow> within P (ka_get_config_map (audited api) k)"
  "P (CreatedConfigMap m) \<Longrightarrow> within P (ka_create_config_map (audited api) m)"
  "P (PatchedConfigMap m m') \<Longrightarrow> within P (ka_patch_config_map (audited api) m m')"
  "(\<And>r. P (GotDeployment r)) \<Longrightarrow> within P (ka_get_deployment (audited api) k)"
  "P (CreatedDeployment d) \<Longrightarrow> within P (ka_create_deployment (audited api) d)"
  "P (PatchedDeployment d d') \<Longrightarrow> within P (ka_patch_deployment (audited api) d d')"
  "P (DeletedDeployment d) \<Longrightarrow> within P (ka_delete_deployment (audited api) b d)"
  "(\<And>t. P (ReadClock t)) \<Longrightarrow> within P (ka_now (audited api))"
  "(\<And>a b. P (Scanned p a b)) \<Longrightarrow> within P (ka_scan (audited api) p)"
  "(\<And>r. P (DeletedKeys ks r)) \<Longrightarrow> within P (ka_del (audited api) ks)"
  by (auto simp: audited_def intro!: within_logging)

subsection \<open>Only the scenario's own objects\<close>

definition own_key :: "traffic_scenario \<Rightarrow> string \<times> string" where
  "own_key scenario = (ts_namespace scenario, runnerName (ts_name scenario))"

text \<open>
  The calls that write: status and finalizers of the scenario itself, objects created under the
  scenario's name and ownership, and updates or deletions of objects the scenario controls.
\<close>

fun own_call :: "kube_lib \<Rightarrow> traffic_scenario \<Rightarrow> kube_call \<Rightarrow> bool" where
  "own_call lib scenario (UpdatedScenario s _) \<longleftrightarrow> s = scenario\<lparr>ts_finalizers := ts_finalizers s\<rparr>"
| "own_call lib scenario (PatchedStatus before s) \<longleftrightarrow>
     before = scenario \<and> s = scenario\<lparr>ts_status := ts_status s\<rparr>"
| "own_call lib scenario (CreatedConfigMap m) \<longleftrightarrow>
     (\<exists>meta. object_key meta = own_key scenario \<and> kl_set_controller lib scenario meta = Inr (cm_meta m))"
| "own_call lib scenario (PatchedConfigMap before m) \<longleftrightarrow>
     kl_controlled_by lib (cm_meta before) scenario \<and> om_owners (cm_meta m) = om_owners (cm_meta before)"
| "own_call lib scenario (CreatedDeployment d) \<longleftrightarrow>
     (\<exists>meta. object_key meta = own_key scenario \<and> kl_set_controller lib scenario meta = Inr (dp_meta d))"
| "own_call lib scenario (PatchedDeployment before d) \<longleftrightarrow>
     kl_controlled_by lib (dp_meta before) scenario \<and> om_owners (dp_meta d) = om_owners (dp_meta before)"
| "own_call lib scenario (DeletedDeployment d) \<longleftrightarrow> kl_controlled_by lib (dp_meta d) scenario"
| "own_call lib scenario _ \<longleftrightarrow> True"

lemma ensureControlledBy_None [simp]:
  "ensureControlledBy lib m scenario kind = None \<longleftrightarrow> kl_controlled_by lib m scenario"
  by (auto simp: ensureControlledBy_def split: option.splits)

lemma status_within:
  "(\<And>s. s = scenario\<lparr>ts_status := ts_status s\<rparr> \<Longrightarrow> P (PatchedStatus scenario s)) \<Longrightarrow>
    within P (updateScenarioStatus lib (audited api) scenario st)"
  unfolding updateScenarioStatus_def [abs_def] Let_def
  by (intro within_rules audited_within) simp_all

lemma result_within:
  assumes "\<And>s. s = scenario\<lparr>ts_status := ts_status s\<rparr> \<Longrightarrow> P (PatchedStatus scenario s)"
  shows "within P (reconcileResultForState lib (audited api) scenario st)"
    and "within P (failed_with lib (audited api) scenario reason cause retry)"
  unfolding reconcileResultForState_def [abs_def] failed_with_def [abs_def] Let_def
  by (intro within_rules status_within assms; assumption)+

lemma applyConfigMap_within:
  assumes "object_key (cm_meta desired) = own_key scenario"
  shows "within (own_call lib scenario) (applyConfigMap lib (audited api) scenario desired)"
  unfolding applyConfigMap_def [abs_def] Let_def
  by (intro within_rules audited_within)
    (use assms in \<open>auto simp: managed_config_map_def managed_meta_def\<close>)

lemma applyDeployment_within:
  assumes "object_key (dp_meta desired) = own_key scenario"
  shows "within (own_call lib scenario) (applyDeployment lib (audited api) scenario desired)"
  unfolding applyDeployment_def [abs_def] Let_def
  by (intro within_rules audited_within)
    (use assms in \<open>auto simp: applyManagedDeploymentFields_def managed_meta_def\<close>)

lemma own_result_within:
  "within (own_call lib scenario) (reconcileResultForState lib (audited api) scenario st)"
  "within (own_call lib scenario) (failed_with lib (audited api) scenario reason cause retry)"
  by (rule result_within; simp)+

lemma suspended_within:
  "within (own_call lib scenario) (reconcile_suspended lib (audited api) scenario name)"
  unfolding reconcile_suspended_def [abs_def] Let_def
  by (intro within_rules audited_within own_result_within) simp_all

lemma report_within:
  "within (own_call lib scenario) (report_deployment lib (audited api) scenario name)"
  unfolding report_deployment_def [abs_def] Let_def
  by (intro within_rules audited_within own_result_within) simp_all

lemma desired_keys:
  "object_key (cm_meta (desiredConfigMap scenario (runnerName (ts_name scenario)) config)) = own_key scenario"
  "object_key (dp_meta (desiredDeployment scenario (runnerName (ts_name scenario)) i s a config)) = own_key scenario"
  by (simp_all add: desiredConfigMap_def desiredDeployment_def desired_meta_def object_key_def own_key_def)

lemma workload_within:
  "within (own_call lib scenario) (apply_workload lib r (audited api) scenario (runnerName (ts_name scenario)))"
  unfolding apply_workload_def [abs_def] Let_def
  by (intro within_rules own_result_within applyConfigMap_within applyDeployment_within report_within desired_keys)

lemma active_within:
  "within (own_call lib scenario) (reconcile_active golib checks lib r (audited api) scenario)"
  unfolding reconcile_active_def [abs_def] Let_def
  by (intro within_rules own_result_within suspended_within workload_within)

lemma remove_within:
  "within (own_call lib scenario) (removeRedisCleanupFinalizer lib (audited api) scenario)"
  unfolding removeRedisCleanupFinalizer_def [abs_def]
  by (intro within_rules audited_within) simp

lemma notify_within:
  "(\<And>e. P (Event e)) \<Longrightarrow> P Abandoned \<Longrightarrow>
    within P (\<lambda>w. (result, if b then ka_observe_abandoned (audited api) (if a then ka_event (audited api) cause w else w)
       else if a then ka_event (audited api) cause w else w))"
  by (auto simp: within_def audited_def)

lemma abandon_within:
  "within (own_call lib scenario) (abandonCleanup lib r (audited api) scenario cause)"
  unfolding abandonCleanup_def [abs_def] Let_def
  by (intro within_rules remove_within notify_within) simp_all

lemma expired_within:
  "(\<And>t. P (ReadClock t)) \<Longrightarrow> within P (redisCleanupGracePeriodExpired (audited api) scenario)"
  unfolding redisCleanupGracePeriodExpired_def [abs_def]
  by (intro within_rules audited_within)

lemma retry_within:
  "within (own_call lib scenario) (retryOrAbandonCleanup lib r (audited api) scenario cause)"
  "within (own_call lib scenario) (wait_for_deletion lib r (audited api) scenario)"
  unfolding retryOrAbandonCleanup_def [abs_def] wait_for_deletion_def [abs_def]
  by (intro within_rules expired_within abandon_within; simp)+

lemma scan_within:
  "(\<And>p a b. P (Scanned p a b)) \<Longrightarrow> within P (scan_patterns (audited api) keys ps)"
proof (induction ps arbitrary: keys)
  case Nil
  have "scan_patterns (audited api) keys [] = (\<lambda>w. (Inr keys, w))" by (rule ext) simp
  then show ?case by (simp add: within_pure)
next
  case (Cons p ps)
  have e: "scan_patterns (audited api) keys (p # ps)
      = (\<lambda>w. case ka_scan (audited api) p w of ((found, err), w) \<Rightarrow>
          (case err of None \<Rightarrow> scan_patterns (audited api) (keys @ found) ps w | Some e \<Rightarrow> (Inl e, w)))"
    by (rule ext) (simp split: prod.splits option.splits)
  show ?case unfolding e by (intro within_rules audited_within Cons)
qed

lemma cleanup_within:
  "within (own_call lib scenario) (deleteScenarioRedisKeys r (audited api) keyScope)"
  "within (own_call lib scenario) (cleanup_keys lib r (audited api) scenario)"
proof -
  show "within (own_call lib scenario) (deleteScenarioRedisKeys r (audited api) keyScope)" for keyScope
    unfolding deleteScenarioRedisKeys_def [abs_def]
    by (intro within_rules audited_within scan_within; simp)
  then show "within (own_call lib scenario) (cleanup_keys lib r (audited api) scenario)"
    unfolding cleanup_keys_def [abs_def]
    by (intro within_rules retry_within remove_within)
qed

lemma deletion_within:
  "within (own_call lib scenario) (reconcileDeletion lib r (audited api) scenario)"
  unfolding reconcileDeletion_def [abs_def]
  by (intro within_rules audited_within retry_within cleanup_within; simp)

text \<open>
  C1. A reconciliation touches nothing that is not the scenario's own, whatever the cluster holds
  and however its calls fail: it creates objects only under the runner's name and with the scenario as
  controller, updates and deletes only objects the scenario controls, never changes who owns an
  object, and of the scenario itself writes only the status and the finalizers.
\<close>

theorem only_own_objects:
  "list_all (own_call lib scenario) (calls_of (reconcile_active golib checks lib r (audited api) scenario) w)
    \<and> list_all (own_call lib scenario) (calls_of (reconcileDeletion lib r (audited api) scenario) w)"
  by (intro conjI within_calls active_within deletion_within)

lemma audited_sel:
  "ka_get_scenario (audited api) k = logging (GotScenario k) (ka_get_scenario api k)"
  "ka_update_scenario (audited api) s = logging (UpdatedScenario s) (ka_update_scenario api s)"
  "ka_patch_status (audited api) s s' = logging (\<lambda>_. PatchedStatus s s') (ka_patch_status api s s')"
  "ka_get_deployment (audited api) k = logging GotDeployment (ka_get_deployment api k)"
  "ka_delete_deployment (audited api) f d = logging (\<lambda>_. DeletedDeployment d) (ka_delete_deployment api f d)"
  "ka_now (audited api) = logging ReadClock (ka_now api)"
  "ka_scan (audited api) p = logging (\<lambda>(found, err). Scanned p found err) (ka_scan api p)"
  "ka_del (audited api) ks = logging (DeletedKeys ks) (ka_del api ks)"
  by (simp_all add: audited_def)

subsection \<open>When the finalizer goes\<close>

definition expired_in :: "traffic_scenario \<Rightarrow> kube_call list \<Rightarrow> bool" where
  "expired_in scenario calls \<longleftrightarrow>
     (\<exists>t deleted. ReadClock t \<in> set calls \<and> ts_deletion_timestamp scenario = Some deleted
        \<and> deleted + redisCleanupGracePeriod \<le> t)"

definition removes_finalizer :: "kube_call list \<Rightarrow> bool" where
  "removes_finalizer calls \<longleftrightarrow> (\<exists>s res. UpdatedScenario s res \<in> set calls)"

text \<open>The calls of a complete cleanup, in their order: no Deployment, every pattern scanned to its
  end, every key found deleted, then the finalizer.\<close>

definition complete_cleanup :: "kube_lib \<Rightarrow> traffic_scenario \<Rightarrow> kube_call list \<Rightarrow> bool" where
  "complete_cleanup lib scenario calls \<longleftrightarrow>
     (\<exists>keyScope founds res. NewScope (ts_namespace scenario) (ts_name scenario) (ts_uid scenario) = Inr keyScope
        \<and> length founds = length (CleanupPatterns keyScope)
        \<and> calls = [GotDeployment (Inl NotFound)]
            @ map2 (\<lambda>p found. Scanned p found None) (CleanupPatterns keyScope) founds
            @ (if concat founds = [] then [] else [DeletedKeys (concat founds) None])
            @ [UpdatedScenario (scenario\<lparr>ts_finalizers :=
                 kl_remove_finalizer lib (ts_finalizers scenario) redisCleanupFinalizer\<rparr>) res])"

lemma is_not_found_iff [simp]: "is_not_found e \<longleftrightarrow> e = NotFound"
  by (cases e) simp_all

lemma removal_call:
  "removeRedisCleanupFinalizer lib (audited api) scenario (w, l) = (res, (w', l')) \<Longrightarrow>
    \<exists>x. l' = l @ [UpdatedScenario (scenario\<lparr>ts_finalizers :=
       kl_remove_finalizer lib (ts_finalizers scenario) redisCleanupFinalizer\<rparr>) x]"
  by (auto simp: removeRedisCleanupFinalizer_def audited_sel logging_def split: prod.splits sum.splits)

lemma abandon_calls:
  "abandonCleanup lib r (audited api) scenario cause (w, l) = (res, (w', l')) \<Longrightarrow> \<exists>new. l' = l @ new"
  using abandon_within [of lib scenario r api cause] unfolding within_def by blast

lemma expiry_call:
  "redisCleanupGracePeriodExpired (audited api) scenario (w, l) = (b, (w', l')) \<Longrightarrow>
    \<exists>new. l' = l @ new \<and> \<not> removes_finalizer new \<and> (b \<longrightarrow> expired_in scenario new)"
  by (auto simp: redisCleanupGracePeriodExpired_def audited_sel logging_def removes_finalizer_def expired_in_def
      not_less split: prod.splits option.splits)

lemma expired_in_append: "expired_in scenario a \<Longrightarrow> expired_in scenario (a @ b)" "expired_in scenario b \<Longrightarrow> expired_in scenario (a @ b)"
  by (auto simp: expired_in_def)

text \<open>Waiting and retrying end the same way: the finalizer goes only after the grace period.\<close>

lemma wait_calls:
  assumes "f = (\<lambda>w. case redisCleanupGracePeriodExpired (audited api) scenario w of
        (True, w) \<Rightarrow> abandonCleanup lib r (audited api) scenario cause w
      | (False, w) \<Rightarrow> (later, w))"
    and "f (w, l) = (res, (w', l'))"
  shows "\<exists>new. l' = l @ new \<and> (removes_finalizer new \<longrightarrow> expired_in scenario new)"
proof -
  obtain b w1 l1 where e: "redisCleanupGracePeriodExpired (audited api) scenario (w, l) = (b, (w1, l1))"
    by (metis prod.exhaust)
  obtain n where n: "l1 = l @ n" "\<not> removes_finalizer n" "b \<longrightarrow> expired_in scenario n"
    using expiry_call [OF e] by blast
  show ?thesis
  proof (cases b)
    case True
    then obtain n' where "l' = l1 @ n'" using assms e abandon_calls by fastforce
    then show ?thesis using n True by (intro exI [of _ "n @ n'"]) (simp add: expired_in_append)
  next
    case False
    then show ?thesis using assms e n by auto
  qed
qed

lemma retry_calls:
  "retryOrAbandonCleanup lib r (audited api) scenario cause (w, l) = (res, (w', l')) \<Longrightarrow>
    \<exists>new. l' = l @ new \<and> (removes_finalizer new \<longrightarrow> expired_in scenario new)"
  "wait_for_deletion lib r (audited api) scenario (w, l) = (res, (w', l')) \<Longrightarrow>
    \<exists>new. l' = l @ new \<and> (removes_finalizer new \<longrightarrow> expired_in scenario new)"
  unfolding retryOrAbandonCleanup_def wait_for_deletion_def by (rule wait_calls [OF refl], assumption)+

lemma scan_calls:
  "scan_patterns (audited api) keys ps (w, l) = (Inr ks, (w', l')) \<Longrightarrow>
    \<exists>founds. length founds = length ps \<and> ks = keys @ concat founds
      \<and> l' = l @ map2 (\<lambda>p found. Scanned p found None) ps founds"
proof (induction ps arbitrary: keys w l)
  case (Cons p ps)
  obtain found err w1 where s: "ka_scan api p w = ((found, err), w1)" by (metis prod.exhaust)
  then have "err = None" using Cons.prems by (auto simp: audited_sel logging_def split: option.splits)
  then have "scan_patterns (audited api) (keys @ found) ps (w1, l @ [Scanned p found None]) = (Inr ks, (w', l'))"
    using Cons.prems s by (simp add: audited_sel logging_def)
  from Cons.IH [OF this] obtain founds where "length founds = length ps" "ks = (keys @ found) @ concat founds"
    "l' = (l @ [Scanned p found None]) @ map2 (\<lambda>p found. Scanned p found None) ps founds" by blast
  then show ?case by (intro exI [of _ "found # founds"]) simp
qed simp

lemma key_calls:
  assumes "deleteScenarioRedisKeys r (audited api) keyScope (w, l) = (res, (w', l'))"
  shows "\<exists>new. l' = l @ new \<and> \<not> removes_finalizer new
    \<and> (res = Some None \<longrightarrow> (\<exists>founds. length founds = length (CleanupPatterns keyScope)
         \<and> new = map2 (\<lambda>p found. Scanned p found None) (CleanupPatterns keyScope) founds
            @ (if concat founds = [] then [] else [DeletedKeys (concat founds) None])))"
proof -
  define P where "P = (\<lambda>c. \<forall>s x. c \<noteq> UpdatedScenario s x)"
  have "within P (deleteScenarioRedisKeys r (audited api) keyScope)"
    unfolding deleteScenarioRedisKeys_def [abs_def]
    by (intro within_rules audited_within scan_within) (simp_all add: P_def)
  then obtain new where new: "l' = l @ new" "list_all P new" using assms unfolding within_def by blast
  then have "\<not> removes_finalizer new" by (auto simp: removes_finalizer_def P_def list_all_iff)
  moreover have "\<exists>founds. length founds = length (CleanupPatterns keyScope)
         \<and> new = map2 (\<lambda>p found. Scanned p found None) (CleanupPatterns keyScope) founds
            @ (if concat founds = [] then [] else [DeletedKeys (concat founds) None])" if ok: "res = Some None"
  proof -
    obtain ks w1 l1 where s: "scan_patterns (audited api) [] (CleanupPatterns keyScope) (w, l) = (Inr ks, (w1, l1))"
      using assms ok by (auto simp: deleteScenarioRedisKeys_def split: if_splits prod.splits sum.splits)
    obtain founds where f: "length founds = length (CleanupPatterns keyScope)" "ks = concat founds"
      "l1 = l @ map2 (\<lambda>p found. Scanned p found None) (CleanupPatterns keyScope) founds"
      using scan_calls [OF s] by auto
    have "l' = l1 @ (if ks = [] then [] else [DeletedKeys ks None])"
      using assms ok s
      by (auto simp: deleteScenarioRedisKeys_def audited_sel logging_def split: if_splits prod.splits option.splits)
    then show ?thesis using f new(1) by auto
  qed
  ultimately show ?thesis using new(1) by blast
qed

lemma cleanup_calls:
  assumes "cleanup_keys lib r (audited api) scenario (w, [GotDeployment (Inl NotFound)]) = (res, (w', l'))"
    and "removes_finalizer l'"
  shows "expired_in scenario l' \<or> complete_cleanup lib scenario l'"
proof -
  let ?g = "[GotDeployment (Inl NotFound)]"
  have retried: ?thesis if "retryOrAbandonCleanup lib r (audited api) scenario cause (w1, l1) = (res, (w', l'))"
    "\<not> removes_finalizer l1" for cause w1 l1
    using retry_calls(1) [OF that(1)] that(2) assms(2)
    by (auto simp: removes_finalizer_def intro: expired_in_append)
  have g: "\<not> removes_finalizer ?g" by (simp add: removes_finalizer_def)
  consider (retry) cause where "retryOrAbandonCleanup lib r (audited api) scenario cause (w, ?g) = (res, (w', l'))"
    | (keys) keyScope where "NewScope (ts_namespace scenario) (ts_name scenario) (ts_uid scenario) = Inr keyScope"
        "(case deleteScenarioRedisKeys r (audited api) keyScope (w, ?g) of
           (None, w) \<Rightarrow> (\<lparr>re_requeue_after = 0, re_error = Some Panicked\<rparr>, w)
         | (Some (Some e), w) \<Rightarrow> retryOrAbandonCleanup lib r (audited api) scenario e w
         | (Some None, w) \<Rightarrow> removeRedisCleanupFinalizer lib (audited api) scenario w) = (res, (w', l'))"
    using assms(1) unfolding cleanup_keys_def by (auto split: if_splits sum.splits)
  then show ?thesis
  proof cases
    case retry
    then show ?thesis using retried g by blast
  next
    case keys
    obtain err w1 l1 where d: "deleteScenarioRedisKeys r (audited api) keyScope (w, ?g) = (err, (w1, l1))"
      by (metis prod.exhaust)
    note k = key_calls [OF d]
    show ?thesis
    proof (cases rule: option.exhaust [of err, case_names panic outcome])
      case panic
      then show ?thesis using keys(2) d k assms(2) by (auto simp: removes_finalizer_def)
    next
      case (outcome failure)
      show ?thesis
      proof (cases failure)
      case (Some e)
      then have "retryOrAbandonCleanup lib r (audited api) scenario e (w1, l1) = (res, (w', l'))"
        using keys(2) d outcome by simp
      moreover have "\<not> removes_finalizer l1" using k by (auto simp: removes_finalizer_def)
      ultimately show ?thesis using retried by blast
    next
      case None
      then have "removeRedisCleanupFinalizer lib (audited api) scenario (w1, l1) = (res, (w', l'))"
        using keys(2) d outcome by simp
      from removal_call [OF this] show ?thesis using k None outcome keys(1)
        unfolding complete_cleanup_def by fastforce
      qed
    qed
  qed
qed

lemma deletion_calls_present:
  assumes run: "reconcileDeletion lib r (audited api) scenario (w, []) = (res, (w', calls))"
    and fin: "kl_has_finalizer lib (ts_finalizers scenario) redisCleanupFinalizer"
    and g: "ka_get_deployment api (own_key scenario) w = (got, w1)" and ne: "got \<noteq> Inl NotFound"
  obtains (retry) cause w2 l2 where "retryOrAbandonCleanup lib r (audited api) scenario cause (w2, l2) = (res, (w', calls))"
      "\<not> removes_finalizer l2"
    | (wait) w2 l2 where "wait_for_deletion lib r (audited api) scenario (w2, l2) = (res, (w', calls))"
      "\<not> removes_finalizer l2"
proof (cases got)
  case (Inl e)
  then have "retryOrAbandonCleanup lib r (audited api) scenario
      (GetFailed ''runner Deployment before Redis cleanup'' e) (w1, [GotDeployment got]) = (res, (w', calls))"
    using run fin g ne by (simp add: reconcileDeletion_def own_key_def audited_sel logging_def)
  then show ?thesis using retry by (simp add: removes_finalizer_def)
next
  case (Inr d)
  obtain err w2 where d: "ka_delete_deployment api True d w1 = (err, w2)" by (metis prod.exhaust)
  define l2 where "l2 = [GotDeployment got, DeletedDeployment d]"
  have n: "\<not> removes_finalizer l2" "\<not> removes_finalizer [GotDeployment got]"
    by (simp_all add: removes_finalizer_def l2_def)
  show ?thesis
  proof (cases "ensureControlledBy lib (dp_meta d) scenario ''Deployment''")
    case (Some e)
    then have "retryOrAbandonCleanup lib r (audited api) scenario e (w1, [GotDeployment got]) = (res, (w', calls))"
      using run fin g Inr by (simp add: reconcileDeletion_def own_key_def audited_sel logging_def)
    then show ?thesis using retry n by blast
  next
    case None
    then have "(\<exists>cause. retryOrAbandonCleanup lib r (audited api) scenario cause (w2, l2) = (res, (w', calls)))
        \<or> wait_for_deletion lib r (audited api) scenario (w2, l2) = (res, (w', calls))"
      using run fin g Inr d
      by (auto simp: reconcileDeletion_def own_key_def audited_sel logging_def l2_def
          simp del: ensureControlledBy_None split: option.splits if_splits)
    then show ?thesis using retry wait n by blast
  qed
qed

text \<open>
  C5. While a scenario is deleted its finalizer is removed in two cases only: five minutes have
  passed since the deletion was asked for, or the cleanup is complete, in this order: the runner's
  Deployment is gone, so no pod writes keys any more; all three key patterns of the scenario were scanned to the end;
  every key found was deleted; then the finalizer is removed. A failing call leaves it in place.
\<close>

theorem finalizer_removed_after_cleanup:
  assumes "calls = calls_of (reconcileDeletion lib r (audited api) scenario) w"
    and "removes_finalizer calls"
  shows "expired_in scenario calls \<or> complete_cleanup lib scenario calls"
proof -
  obtain res w' where run: "reconcileDeletion lib r (audited api) scenario (w, []) = (res, (w', calls))"
    using assms(1) by (auto simp: calls_of_def) (metis prod.collapse)
  then have fin: "kl_has_finalizer lib (ts_finalizers scenario) redisCleanupFinalizer"
    using assms(2) by (auto simp: reconcileDeletion_def removes_finalizer_def split: if_splits)
  obtain got w1 where g: "ka_get_deployment api (own_key scenario) w = (got, w1)" by (metis prod.exhaust)
  have retried: ?thesis if "\<exists>new. calls = l1 @ new \<and> (removes_finalizer new \<longrightarrow> expired_in scenario new)"
    "\<not> removes_finalizer l1" for l1
    using that assms(2) by (auto simp: removes_finalizer_def intro: expired_in_append)
  show ?thesis
  proof (cases "got = Inl NotFound")
    case True
    then have "cleanup_keys lib r (audited api) scenario (w1, [GotDeployment (Inl NotFound)]) = (res, (w', calls))"
      using run fin g by (simp add: reconcileDeletion_def own_key_def audited_sel logging_def)
    then show ?thesis by (rule cleanup_calls [OF _ assms(2)])
  next
    case False
    show ?thesis
    proof (rule deletion_calls_present [OF run fin g False])
      fix cause w2 l2
      assume "retryOrAbandonCleanup lib r (audited api) scenario cause (w2, l2) = (res, (w', calls))" "\<not> removes_finalizer l2"
      then show ?thesis by (rule retried [OF retry_calls(1)])
    next
      fix w2 l2
      assume "wait_for_deletion lib r (audited api) scenario (w2, l2) = (res, (w', calls))" "\<not> removes_finalizer l2"
      then show ?thesis by (rule retried [OF retry_calls(2)])
    qed
  qed
qed

definition deleted_scenario :: traffic_scenario where
  "deleted_scenario = shop_scenario\<lparr>ts_finalizers := [redisCleanupFinalizer], ts_deletion_timestamp := Some 0\<rparr>"

definition shop_reconciler :: reconciler where
  "shop_reconciler = \<lparr>rr_runner_image = ''img'', rr_image_pull_secret = '''', rr_redis_address = ''redis:6379'',
     rr_redis_client = Connected, rr_has_event_recorder = True, rr_has_cleanup_observer = True\<rparr>"

lemma deleted_scenario_calls:
  "removes_finalizer (calls_of (reconcileDeletion plain_lib shop_reconciler (audited (cluster_api (=))) deleted_scenario)
     (empty_cluster\<lparr>cl_redis := [''kurama:v2:rate-limit:load:shop:u1'', ''other'']\<rparr>))"
proof -
  have "NewScope ''load'' ''shop'' ''u1'' = Inr \<lparr>sc_namespace = ''load'', sc_scenario = ''shop'', sc_uid = ''u1''\<rparr>"
    by (simp add: NewScope_Inr err_simps scope_parts_def)
  then show ?thesis
    by (simp add: calls_of_def reconcileDeletion_def deleted_scenario_def has_redis_client_def shop_scenario_def plain_lib_def audited_sel
        logging_def cluster_api_def empty_cluster_def found_at_def cleanup_keys_def shop_reconciler_def
        deleteScenarioRedisKeys_def CleanupPatterns_def StorePrefix_def RateLimitKey_def RateSchedulePrefix_def
        kindPrefix_def key_constants removeRedisCleanupFinalizer_def removes_finalizer_def)
qed

theorem finalizer_removed_after_cleanup_witness:
  "expired_in deleted_scenario (calls_of (reconcileDeletion plain_lib shop_reconciler (audited (cluster_api (=)))
        deleted_scenario) (empty_cluster\<lparr>cl_redis := [''kurama:v2:rate-limit:load:shop:u1'', ''other'']\<rparr>))
    \<or> complete_cleanup plain_lib deleted_scenario (calls_of (reconcileDeletion plain_lib shop_reconciler
        (audited (cluster_api (=))) deleted_scenario)
        (empty_cluster\<lparr>cl_redis := [''kurama:v2:rate-limit:load:shop:u1'', ''other'']\<rparr>))"
  by (rule finalizer_removed_after_cleanup [OF refl deleted_scenario_calls])

subsection \<open>When the workload is written\<close>

fun writes_workload :: "kube_call \<Rightarrow> bool" where
  "writes_workload (CreatedConfigMap _) \<longleftrightarrow> True"
| "writes_workload (PatchedConfigMap _ _) \<longleftrightarrow> True"
| "writes_workload (CreatedDeployment _) \<longleftrightarrow> True"
| "writes_workload (PatchedDeployment _ _) \<longleftrightarrow> True"
| "writes_workload _ \<longleftrightarrow> False"

text \<open>What the controller requires of a scenario before it writes the runner's objects.\<close>

definition may_run :: "go_lib \<Rightarrow> name_checks \<Rightarrow> reconciler \<Rightarrow> traffic_scenario \<Rightarrow> bool" where
  "may_run golib checks r scenario \<longleftrightarrow>
     \<not> sp_suspend (ts_spec scenario) \<and> validateScenario golib checks scenario = None
     \<and> rr_runner_image r \<noteq> '''' \<and> (requiresRedis scenario \<longrightarrow> rr_redis_address r \<noteq> '''')"

abbreviation reads_only :: "kube_call \<Rightarrow> bool" where "reads_only c \<equiv> \<not> writes_workload c"

lemma quiet_result_within:
  "within reads_only (reconcileResultForState lib (audited api) scenario st)"
  "within reads_only (failed_with lib (audited api) scenario reason cause retry)"
  by (rule result_within; simp)+

lemma idle_within:
  assumes "\<not> may_run golib checks r scenario"
  shows "within reads_only (reconcile_active golib checks lib r (audited api) scenario)"
  using assms unfolding reconcile_active_def [abs_def] reconcile_suspended_def [abs_def] Let_def may_run_def
  by (intro within_rules audited_within quiet_result_within) auto

lemma idle_deletion_within:
  "within reads_only (reconcileDeletion lib r (audited api) scenario)"
  unfolding reconcileDeletion_def [abs_def] cleanup_keys_def [abs_def] deleteScenarioRedisKeys_def [abs_def]
    retryOrAbandonCleanup_def [abs_def] wait_for_deletion_def [abs_def] abandonCleanup_def [abs_def]
    removeRedisCleanupFinalizer_def [abs_def] Let_def
  by (intro within_rules audited_within expired_within scan_within notify_within; simp)

lemma no_write_in:
  assumes "within reads_only f" "f (w, l) = (res, (w', l'))" "c \<in> set l'" "writes_workload c"
  shows "c \<in> set l"
  using assms unfolding within_def list_all_iff by fastforce

text \<open>
  C2. The runner's ConfigMap and Deployment are written only for a scenario that the server has just
  returned, that is not being deleted or suspended, that is valid, and for which the controller
  has an image and, where Redis is needed, a Redis address; and if it needs Redis and the
  controller is connected to it, the server has stored the cleanup finalizer before: no
  pod can write keys that would be left behind.
\<close>

theorem workload_only_when_allowed:
  assumes "calls = calls_of (Reconcile golib checks lib r (audited api) req) w"
    and "c \<in> set calls" and "writes_workload c"
  shows "\<exists>scenario current rest. ts_deletion_timestamp scenario = None \<and> may_run golib checks r current
    \<and> (calls = GotScenario req (Inr scenario) # rest \<and> current = scenario
         \<and> (requiresRedis scenario \<and> has_redis_client r
             \<longrightarrow> kl_has_finalizer lib (ts_finalizers scenario) redisCleanupFinalizer)
       \<or> (\<exists>s. calls = GotScenario req (Inr scenario) # UpdatedScenario s (Inr current) # rest
            \<and> s = scenario\<lparr>ts_finalizers := kl_add_finalizer lib (ts_finalizers scenario) redisCleanupFinalizer\<rparr>))"
proof -
  obtain res w' where run: "Reconcile golib checks lib r (audited api) req (w, []) = (res, (w', calls))"
    using assms(1) by (auto simp: calls_of_def) (metis prod.collapse)
  obtain got w1 where g: "ka_get_scenario api req w = (got, w1)" by (metis prod.exhaust)
  obtain scenario where s: "got = Inr scenario"
    using run g assms(2,3) by (cases got) (auto simp: Reconcile_def audited_sel logging_def)
  let ?l = "[GotScenario req (Inr scenario)]"
  have d: "ts_deletion_timestamp scenario = None"
  proof (rule ccontr)
    assume "ts_deletion_timestamp scenario \<noteq> None"
    then have "reconcileDeletion lib r (audited api) scenario (w1, ?l) = (res, (w', calls))"
      using run g s by (auto simp: Reconcile_def audited_sel logging_def)
    from no_write_in [OF idle_deletion_within this assms(2,3)] show False using assms(3) by simp
  qed
  obtain fin w2 l2 where f: "ensure_finalizer lib r (audited api) scenario (w1, ?l) = (fin, (w2, l2))"
    by (metis prod.exhaust)
  have l2: "\<forall>c \<in> set l2. \<not> writes_workload c"
    using f by (auto simp: ensure_finalizer_def audited_sel logging_def split: if_splits prod.splits sum.splits)
  obtain current where cur: "fin = Inr current"
    "reconcile_active golib checks lib r (audited api) current (w2, l2) = (res, (w', calls))"
    using run g s d f l2 assms(2,3) by (cases fin) (auto simp: Reconcile_def audited_sel logging_def)
  have "may_run golib checks r current"
    using no_write_in [OF idle_within cur(2) assms(2,3)] l2 assms(3) by blast
  moreover obtain new where "calls = l2 @ new"
    using active_within [of lib current golib checks r api] cur(2) unfolding within_def by blast
  ultimately show ?thesis using f cur(1) d
    by (fastforce simp: ensure_finalizer_def audited_sel logging_def split: if_splits prod.splits sum.splits)
qed

subsection \<open>What a reconciliation achieves\<close>

text \<open>Only the specification and the identity of a scenario decide what is written.\<close>

lemma finalizers_irrelevant [simp]:
  "validateScenario golib checks (scenario\<lparr>ts_finalizers := f\<rparr>) = validateScenario golib checks scenario"
  "requiresRedis (scenario\<lparr>ts_finalizers := f\<rparr>) = requiresRedis scenario"
  "desiredConfigMap (scenario\<lparr>ts_finalizers := f\<rparr>) name config = desiredConfigMap scenario name config"
  "desiredDeployment (scenario\<lparr>ts_finalizers := f\<rparr>) name i s a config = desiredDeployment scenario name i s a config"
  "scenarioConfigJSON (scenario\<lparr>ts_finalizers := f\<rparr>) = scenarioConfigJSON scenario"
proof -
  let ?s = "scenario\<lparr>ts_finalizers := f\<rparr>"
  have b: "storageBackend ?s = storageBackend scenario" "rateLimiterBackend ?s = rateLimiterBackend scenario"
    "runnerReplicas ?s = runnerReplicas scenario" "runnerResources ?s = runnerResources scenario"
    "rateProfileType ?s = rateProfileType scenario" "rateProfileMinBurstSize ?s = rateProfileMinBurstSize scenario"
    "rateProfileMaxBurstSize ?s = rateProfileMaxBurstSize scenario" "rateProfileDelayDivisor ?s = rateProfileDelayDivisor scenario"
    "labels ?s = labels scenario" "scenarioAnnotations ?s = scenarioAnnotations scenario"
    "desiredSecretHeaderVolume ?s = desiredSecretHeaderVolume scenario"
    by (simp_all add: storageBackend_def rateLimiterBackend_def runnerReplicas_def runnerResources_def rateProfileType_def
        rateProfileMinBurstSize_def rateProfileMaxBurstSize_def rateProfileDelayDivisor_def labels_def scenarioAnnotations_def
        desiredSecretHeaderVolume_def secret_projections_def Let_def)
  show r: "requiresRedis ?s = requiresRedis scenario" by (simp add: requiresRedis_def b)
  have c: "scenarioRunnerConfig ?s = scenarioRunnerConfig scenario" by (simp add: scenarioRunnerConfig_def b)
  then show "scenarioConfigJSON ?s = scenarioConfigJSON scenario" by (simp add: scenarioConfigJSON_def)
  have m: "desired_meta ?s name = desired_meta scenario name" by (simp add: desired_meta_def b)
  then show "desiredConfigMap ?s name config = desiredConfigMap scenario name config" by (simp add: desiredConfigMap_def)
  have "runnerEnvironment ?s a = runnerEnvironment scenario a"
    by (cases "requiresRedis scenario") (simp_all add: runnerEnvironment_def b(1) r Let_def)
  then have "desired_pod_spec ?s name i s a = desired_pod_spec scenario name i s a"
    by (simp add: desired_pod_spec_def base_pod_spec_def add_secret_volume_def runner_container_def b(4,11))
  then show "desiredDeployment ?s name i s a config = desiredDeployment scenario name i s a config"
    by (simp add: desiredDeployment_def pod_annotations_def m b(3,9,10))
  show "validateScenario golib checks ?s = validateScenario golib checks scenario"
  proof -
    have t: "ts_spec ?s = ts_spec scenario" by simp
    show ?thesis
      unfolding validateScenario_def check_types_def validateRunnerResources_def validateSecretHeaderReferences_def
        t b c ..
  qed
qed

lemma may_run_finalizers [simp]: "may_run golib checks r (scenario\<lparr>ts_finalizers := f\<rparr>) = may_run golib checks r scenario"
  by (simp add: may_run_def)

text \<open>The objects of a scenario in a cluster: absent, or its own.\<close>

definition own_config_map :: "traffic_scenario \<Rightarrow> cluster \<Rightarrow> bool" where
  "own_config_map scenario c \<longleftrightarrow>
     (\<forall>m. cl_config_map c = Some m \<longrightarrow> object_key (cm_meta m) = own_key scenario
        \<and> kl_controlled_by plain_lib (cm_meta m) scenario)"

definition own_deployment :: "traffic_scenario \<Rightarrow> cluster \<Rightarrow> bool" where
  "own_deployment scenario c \<longleftrightarrow>
     (\<forall>d. cl_deployment c = Some d \<longrightarrow> object_key (dp_meta d) = own_key scenario
        \<and> kl_controlled_by plain_lib (dp_meta d) scenario \<and> dp_selector d = labels scenario)"

definition owned_by :: "traffic_scenario \<Rightarrow> object_meta \<Rightarrow> object_meta" where
  "owned_by scenario m = m\<lparr>om_owners := om_owners m @ [owner_of scenario]\<rparr>"

definition stored_config_map :: "traffic_scenario \<Rightarrow> config_map \<Rightarrow> config_map option \<Rightarrow> config_map" where
  "stored_config_map scenario desired existing =
     (case existing of None \<Rightarrow> desired\<lparr>cm_meta := owned_by scenario (cm_meta desired)\<rparr>
      | Some m \<Rightarrow> managed_config_map m desired)"

definition stored_deployment :: "traffic_scenario \<Rightarrow> deployment \<Rightarrow> deployment option \<Rightarrow> deployment" where
  "stored_deployment scenario desired existing =
     (case existing of None \<Rightarrow> desired\<lparr>dp_meta := owned_by scenario (dp_meta desired)\<rparr>
      | Some d \<Rightarrow> applyManagedDeploymentFields d desired)"

lemma cluster_unchanged:
  "cl_config_map c = Some m \<Longrightarrow> c\<lparr>cl_config_map := Some m\<rparr> = c"
  "cl_deployment c = Some d \<Longrightarrow> c\<lparr>cl_deployment := Some d\<rparr> = c"
  by (cases c; simp)+

lemma cluster_config_map:
  assumes "own_config_map scenario c" "object_key (cm_meta desired) = own_key scenario" "om_owners (cm_meta desired) = []"
  shows "applyConfigMap plain_lib (cluster_api matches) scenario desired c
    = (None, c\<lparr>cl_config_map := Some (stored_config_map scenario desired (cl_config_map c))\<rparr>)"
proof (cases "cl_config_map c")
  case None
  then show ?thesis using assms(3)
    by (simp add: applyConfigMap_def cluster_api_def found_at_def plain_lib_def stored_config_map_def owned_by_def)
next
  case (Some m)
  then have "object_key (cm_meta m) = own_key scenario" "kl_controlled_by plain_lib (cm_meta m) scenario"
    using assms(1) by (simp_all add: own_config_map_def)
  then show ?thesis using Some assms(2)
    by (auto simp: applyConfigMap_def cluster_api_def found_at_def stored_config_map_def Let_def plain_lib_def
        ensureControlledBy_def cluster_unchanged)
qed

lemma cluster_deployment:
  assumes "own_deployment scenario c" "object_key (dp_meta desired) = own_key scenario" "om_owners (dp_meta desired) = []"
    "dp_selector desired = labels scenario"
  shows "\<exists>changed. applyDeployment plain_lib (cluster_api matches) scenario desired c
    = (Inr changed, c\<lparr>cl_deployment := Some (stored_deployment scenario desired (cl_deployment c))\<rparr>)"
proof (cases "cl_deployment c")
  case None
  then show ?thesis using assms(3)
    by (auto simp: applyDeployment_def cluster_api_def found_at_def plain_lib_def stored_deployment_def owned_by_def)
next
  case (Some d)
  then have "object_key (dp_meta d) = own_key scenario" "kl_controlled_by plain_lib (dp_meta d) scenario"
    "dp_selector d = labels scenario"
    using assms(1) by (simp_all add: own_deployment_def)
  then show ?thesis using Some assms(2,4)
    by (auto simp: applyDeployment_def cluster_api_def found_at_def stored_deployment_def Let_def plain_lib_def
        ensureControlledBy_def cluster_unchanged)
qed

definition same_workload :: "cluster \<Rightarrow> cluster \<Rightarrow> bool" where
  "same_workload c c' \<longleftrightarrow> cl_config_map c' = cl_config_map c \<and> cl_deployment c' = cl_deployment c"

lemma cluster_status:
  "same_workload c (snd (reconcileResultForState lib (cluster_api matches) scenario st c))"
  "same_workload c (snd (failed_with lib (cluster_api matches) scenario reason cause retry c))"
  by (auto simp: reconcileResultForState_def failed_with_def updateScenarioStatus_def Let_def cluster_api_def
      same_workload_def)

lemma cluster_report:
  "same_workload c (snd (report_deployment lib (cluster_api matches) scenario name c))"
proof -
  obtain got where g: "ka_get_deployment (cluster_api matches) (ts_namespace scenario, name) c = (got, c)"
    by (simp add: cluster_api_def)
  show ?thesis unfolding report_deployment_def g
    by (auto simp: cluster_status split: sum.splits option.splits)
qed

lemma cluster_workload:
  assumes "own_config_map scenario c" and "own_deployment scenario c" and "name = runnerName (ts_name scenario)"
    and "c' = snd (apply_workload plain_lib r (cluster_api matches) scenario name c)"
  shows "cl_config_map c' = Some (stored_config_map scenario
        (desiredConfigMap scenario name (scenarioConfigJSON scenario)) (cl_config_map c))
    \<and> cl_deployment c' = Some (stored_deployment scenario
        (desiredDeployment scenario name (rr_runner_image r) (rr_image_pull_secret r) (rr_redis_address r)
          (scenarioConfigJSON scenario)) (cl_deployment c))"
proof -
  let ?m = "desiredConfigMap scenario name (scenarioConfigJSON scenario)"
  let ?d = "desiredDeployment scenario name (rr_runner_image r) (rr_image_pull_secret r) (rr_redis_address r)
          (scenarioConfigJSON scenario)"
  define c1 where "c1 = c\<lparr>cl_config_map := Some (stored_config_map scenario ?m (cl_config_map c))\<rparr>"
  have m: "applyConfigMap plain_lib (cluster_api matches) scenario ?m c = (None, c1)"
    unfolding c1_def by (rule cluster_config_map [OF assms(1)])
      (simp_all add: assms(3) desired_keys, simp add: desiredConfigMap_def desired_meta_def)
  have "own_deployment scenario c1" using assms(2) by (simp add: own_deployment_def c1_def)
  then have "\<exists>changed. applyDeployment plain_lib (cluster_api matches) scenario ?d c1
      = (Inr changed, c1\<lparr>cl_deployment := Some (stored_deployment scenario ?d (cl_deployment c1))\<rparr>)"
    by (rule cluster_deployment)
      (simp_all add: assms(3) desired_keys, simp_all add: desiredDeployment_def desired_meta_def)
  then obtain changed where d: "applyDeployment plain_lib (cluster_api matches) scenario ?d c1
      = (Inr changed, c1\<lparr>cl_deployment := Some (stored_deployment scenario ?d (cl_deployment c))\<rparr>)"
    by (auto simp: c1_def)
  define c2 where "c2 = c1\<lparr>cl_deployment := Some (stored_deployment scenario ?d (cl_deployment c))\<rparr>"
  have "same_workload c2 c'"
    using m d cluster_status(1) cluster_report
    by (cases changed) (simp_all add: assms(4) apply_workload_def c2_def)
  then show ?thesis by (simp add: same_workload_def c2_def c1_def)
qed

text \<open>The workload a reconciliation aims at, given what is in the cluster.\<close>

definition target_workload ::
  "go_lib \<Rightarrow> name_checks \<Rightarrow> reconciler \<Rightarrow> traffic_scenario \<Rightarrow> cluster \<Rightarrow> config_map option \<times> deployment option" where
  "target_workload golib checks r scenario c =
     (let name = runnerName (ts_name scenario); config = scenarioConfigJSON scenario
      in if sp_suspend (ts_spec scenario) then (cl_config_map c, None)
         else if may_run golib checks r scenario then
           (Some (stored_config_map scenario (desiredConfigMap scenario name config) (cl_config_map c)),
            Some (stored_deployment scenario
              (desiredDeployment scenario name (rr_runner_image r) (rr_image_pull_secret r) (rr_redis_address r) config)
              (cl_deployment c)))
         else (cl_config_map c, cl_deployment c))"

lemma cluster_suspended:
  assumes "own_deployment scenario c" and "name = runnerName (ts_name scenario)"
  shows "cl_config_map (snd (reconcile_suspended plain_lib (cluster_api matches) scenario name c)) = cl_config_map c
    \<and> cl_deployment (snd (reconcile_suspended plain_lib (cluster_api matches) scenario name c)) = None"
proof (cases "cl_deployment c")
  case None
  then have "reconcile_suspended plain_lib (cluster_api matches) scenario name c
      = reconcileResultForState plain_lib (cluster_api matches) scenario suspendedState c"
    by (simp add: reconcile_suspended_def cluster_api_def found_at_def)
  then show ?thesis using cluster_status(1) None by (simp add: same_workload_def)
next
  case (Some d)
  then have "object_key (dp_meta d) = own_key scenario" "kl_controlled_by plain_lib (dp_meta d) scenario"
    using assms(1) by (simp_all add: own_deployment_def)
  then have "reconcile_suspended plain_lib (cluster_api matches) scenario name c
      = reconcileResultForState plain_lib (cluster_api matches) scenario (progressingState reasonRunnerDeletionRequested
                    ''Runner Deployment deletion is in progress'') (c\<lparr>cl_deployment := None\<rparr>)"
    using Some assms(2)
    by (simp add: reconcile_suspended_def cluster_api_def found_at_def own_key_def ensureControlledBy_def Let_def)
  then show ?thesis using cluster_status(1) by (simp add: same_workload_def)
qed

lemma cluster_active:
  assumes "own_config_map scenario c" and "own_deployment scenario c"
    and "c' = snd (reconcile_active golib checks plain_lib r (cluster_api matches) scenario c)"
  shows "(cl_config_map c', cl_deployment c') = target_workload golib checks r scenario c"
proof (cases "may_run golib checks r scenario")
  case True
  then have "c' = snd (apply_workload plain_lib r (cluster_api matches) scenario (runnerName (ts_name scenario)) c)"
    using assms(3) by (auto simp: reconcile_active_def may_run_def Let_def)
  from cluster_workload [OF assms(1,2) refl this] show ?thesis using True
    by (simp add: target_workload_def may_run_def Let_def)
next
  case False
  show ?thesis
  proof (cases "sp_suspend (ts_spec scenario)")
    case True
    then show ?thesis using cluster_suspended [OF assms(2) refl]
      by (simp add: assms(3) reconcile_active_def target_workload_def Let_def)
  next
    case running: False
    then have "same_workload c c'"
      using False by (auto simp: assms(3) reconcile_active_def may_run_def Let_def cluster_status split: option.splits)
    then show ?thesis using False running by (simp add: target_workload_def same_workload_def)
  qed
qed


definition shop_cluster :: cluster where
  "shop_cluster = empty_cluster\<lparr>cl_scenario := Some shop_scenario\<rparr>"

lemma shop_may_run: "may_run example_lib no_problems shop_reconciler shop_scenario"
  by (simp add: may_run_def shop_accepted shop_reconciler_def) (simp add: shop_scenario_def)


text \<open>A server that refuses to create a ConfigMap.\<close>

definition full_cluster_api :: "cluster kube_api" where
  "full_cluster_api = (cluster_api (=))\<lparr>ka_create_config_map := \<lambda>m c. (Some (KubeError ''quota''), c)\<rparr>"

definition shop_calls :: "kube_call list" where
  "shop_calls = calls_of (Reconcile example_lib no_problems plain_lib shop_reconciler (audited full_cluster_api)
     (''load'', ''shop'')) shop_cluster"

definition shop_config_map :: config_map where
  "shop_config_map = (desiredConfigMap shop_scenario ''shop-runner'' (scenarioConfigJSON shop_scenario))\<lparr>
     cm_meta := owned_by shop_scenario (desired_meta shop_scenario ''shop-runner'')\<rparr>"

lemma shop_calls_create: "CreatedConfigMap shop_config_map \<in> set shop_calls"
proof -
  have k: "ts_namespace shop_scenario = ''load''" "ts_name shop_scenario = ''shop''" "ts_deletion_timestamp shop_scenario = None"
    "ts_finalizers shop_scenario = []" "\<not> sp_suspend (ts_spec shop_scenario)" "requiresRedis shop_scenario"
    by (simp_all add: shop_scenario_def requiresRedis_def storageBackend_def scenario_constants)
  have n: "runnerName ''shop'' = ''shop-runner''" by (simp add: runnerName_cases runnerNameSuffix_def)
  show ?thesis
    by (simp add: shop_calls_def calls_of_def Reconcile_def audited_def logging_def full_cluster_api_def cluster_api_def
        found_at_def shop_cluster_def empty_cluster_def k ensure_finalizer_def has_redis_client_def plain_lib_def reconcile_active_def
        shop_accepted shop_reconciler_def apply_workload_def applyConfigMap_def Let_def n failed_with_def
        updateScenarioStatus_def shop_config_map_def owned_by_def desiredConfigMap_def desired_meta_def owner_of_def
        labels_def scenarioAnnotations_def)
qed

theorem workload_only_when_allowed_witness:
  "\<exists>scenario current rest. may_run example_lib no_problems shop_reconciler current
    \<and> shop_calls = GotScenario (''load'', ''shop'') (Inr scenario) # rest"
proof -
  have "writes_workload (CreatedConfigMap shop_config_map)" by simp
  from workload_only_when_allowed [OF shop_calls_def shop_calls_create this] show ?thesis by blast
qed

end
