(* ===== verification/Manager.thy ===== *)
theory Manager
  imports Scenario_Safety
begin

section \<open>The manager process\<close>

text \<open>
  \<open>cmd/manager/main.go\<close>: how the manager sets the reconciler up from its environment, the order of
  its start-up steps and its exit code.
\<close>

record manager_env =
  me_runner_image :: string
  me_image_pull_secret :: string
  me_redis_address :: string
  me_watch_namespaces :: string
  me_pod_namespace :: string

text \<open>
  The namespaces to watch, \<open>None\<close> for all of them: a Go map is used as a set, here a list
  without repetitions.
\<close>

definition watchNamespaces :: "manager_env \<Rightarrow> string list option" where
  "watchNamespaces env =
     (let raw = (if me_watch_namespaces env = '''' then me_pod_namespace env else me_watch_namespaces env)
      in if raw = '''' then None
         else Some (remdups (filter (\<lambda>n. n \<noteq> '''') (map trim_space (split_on CHR '','' raw)))))"

text \<open>
  The variable of type \<open>*redis.Client\<close> stays a nil pointer without an address, and is then stored in
  a field of interface type.
\<close>

definition manager_redis_client :: "manager_env \<Rightarrow> redis_interface" where
  "manager_redis_client env = (if me_redis_address env \<noteq> '''' then Connected else NilPointer)"

text \<open>\<open>None\<close> where \<open>main\<close> exits before it has a reconciler.\<close>

definition manager_reconciler :: "manager_env \<Rightarrow> bool \<Rightarrow> bool \<Rightarrow> reconciler option" where
  "manager_reconciler env manager_created metrics_registered =
     (if me_runner_image env = '''' then None
      else if \<not> manager_created then None
      else if \<not> metrics_registered then None
      else Some
        \<lparr>rr_runner_image = me_runner_image env, rr_image_pull_secret = me_image_pull_secret env,
         rr_redis_address = me_redis_address env, rr_redis_client = manager_redis_client env,
         rr_has_event_recorder = True, rr_has_cleanup_observer = True\<rparr>)"

lemma manager_reconciler_Some:
  "manager_reconciler env a b = Some r \<Longrightarrow> rr_runner_image r \<noteq> '''' \<and> has_redis_client r
    \<and> (rr_redis_client r = NilPointer \<longleftrightarrow> me_redis_address env = '''')
    \<and> rr_redis_address r = me_redis_address env"
  by (auto simp: manager_reconciler_def manager_redis_client_def has_redis_client_def split: if_splits)

lemma watched_namespaces:
  "watchNamespaces env = Some ns \<Longrightarrow> distinct ns \<and> '''' \<notin> set ns"
  by (auto simp: watchNamespaces_def Let_def split: if_splits)

subsection \<open>The whole process\<close>

text \<open>
  \<open>main\<close> as the list of its steps and the exit code. The outcomes of the library's calls are
  parameters. \<open>os.Exit\<close> runs no deferred call, so the client is closed only when the manager
  stopped without an error.
\<close>

record manager_calls =
  mc_manager :: bool
  mc_metrics :: bool
  mc_setup :: bool
  mc_health :: bool
  mc_ready :: bool
  mc_start :: bool

datatype manager_step =
    OpenedClient string
  | CreatedManager "string list option"
  | SetUpController reconciler
  | AddedHealthCheck
  | AddedReadyCheck
  | RanManager
  | ClosedClient

definition manager_serve :: "manager_env \<Rightarrow> manager_calls \<Rightarrow> reconciler \<Rightarrow> nat \<times> manager_step list" where
  "manager_serve env calls r =
     (if \<not> mc_setup calls then (1, [])
      else if \<not> mc_health calls then (1, [SetUpController r])
      else if \<not> mc_ready calls then (1, [SetUpController r, AddedHealthCheck])
      else if \<not> mc_start calls then (1, [SetUpController r, AddedHealthCheck, AddedReadyCheck])
      else (0, [SetUpController r, AddedHealthCheck, AddedReadyCheck, RanManager]
               @ (if me_redis_address env \<noteq> '''' then [ClosedClient] else [])))"

definition manager_main :: "manager_env \<Rightarrow> manager_calls \<Rightarrow> nat \<times> manager_step list" where
  "manager_main env calls =
     (let opened = (if me_runner_image env \<noteq> '''' \<and> me_redis_address env \<noteq> ''''
                    then [OpenedClient (me_redis_address env)] else []);
          created = (if me_runner_image env \<noteq> '''' \<and> mc_manager calls
                     then [CreatedManager (watchNamespaces env)] else [])
      in case manager_reconciler env (mc_manager calls) (mc_metrics calls) of
           None \<Rightarrow> (1, opened @ created)
         | Some r \<Rightarrow>
             (case manager_serve env calls r of (code, steps) \<Rightarrow> (code, opened @ created @ steps)))"

text \<open>The exit code is zero exactly if every step succeeded, and then the client it opened is closed.\<close>

lemma manager_exit:
  "fst (manager_main env calls) = 0 \<longleftrightarrow>
     me_runner_image env \<noteq> '''' \<and> mc_manager calls \<and> mc_metrics calls \<and> mc_setup calls \<and> mc_health calls
     \<and> mc_ready calls \<and> mc_start calls"
  "ClosedClient \<in> set (snd (manager_main env calls)) \<longleftrightarrow>
     fst (manager_main env calls) = 0 \<and> me_redis_address env \<noteq> ''''"
  by (auto simp: manager_main_def manager_serve_def manager_reconciler_def Let_def)

text \<open>No reconciliation happens before both health checks are there, and only with the reconciler of the environment.\<close>

lemma manager_runs_after_checks:
  assumes "RanManager \<in> set (snd (manager_main env calls))"
  shows "\<exists>r before after. snd (manager_main env calls)
      = before @ [SetUpController r, AddedHealthCheck, AddedReadyCheck, RanManager] @ after
    \<and> manager_reconciler env True True = Some r"
proof -
  from assms have all: "me_runner_image env \<noteq> ''''" "mc_manager calls" "mc_metrics calls" "mc_setup calls" "mc_health calls"
    "mc_ready calls" "mc_start calls"
    by (auto simp: manager_main_def manager_serve_def manager_reconciler_def Let_def split: if_splits)
  then obtain r where r: "manager_reconciler env True True = Some r" by (simp add: manager_reconciler_def)
  let ?pre = "(if me_redis_address env \<noteq> '''' then [OpenedClient (me_redis_address env)] else [])
    @ [CreatedManager (watchNamespaces env)]"
  have "snd (manager_main env calls) = ?pre @ [SetUpController r, AddedHealthCheck, AddedReadyCheck, RanManager]
      @ (if me_redis_address env \<noteq> '''' then [ClosedClient] else [])"
    using all r by (simp add: manager_main_def manager_serve_def Let_def)
  with r show ?thesis by blast
qed

text \<open>
  C13. A manager without a Redis address still gives every scenario that needs Redis the cleanup
  finalizer, because its client is a nil pointer in a non-nil interface; and it can never
  take the finalizer off again: once the Deployment is gone every reconciliation of the deleted
  scenario panics, also when the grace period is over, so the resource stays forever.
\<close>

theorem missing_redis_blocks_deletion:
  assumes "manager_reconciler env a b = Some r" and "me_redis_address env = ''''"
    and "kl_has_finalizer lib (ts_finalizers scenario) redisCleanupFinalizer"
    and "ka_get_deployment api (own_key scenario) w = (Inl NotFound, w')"
    and "NewScope (ts_namespace scenario) (ts_name scenario) (ts_uid scenario) = Inr keyScope"
  shows "reconcileDeletion lib r api scenario w = (\<lparr>re_requeue_after = 0, re_error = Some Panicked\<rparr>, w')
    \<and> (\<forall>other w. requiresRedis other \<and> \<not> kl_has_finalizer lib (ts_finalizers other) redisCleanupFinalizer \<longrightarrow>
        (\<exists>res w'. ensure_finalizer lib r api other w = (res, w')
          \<and> w' = snd (ka_update_scenario api (other\<lparr>ts_finalizers :=
              kl_add_finalizer lib (ts_finalizers other) redisCleanupFinalizer\<rparr>) w)))"
proof -
  have r: "has_redis_client r" "rr_redis_client r = NilPointer"
    using manager_reconciler_Some [OF assms(1)] assms(2) by simp_all
  then have "reconcileDeletion lib r api scenario w = (\<lparr>re_requeue_after = 0, re_error = Some Panicked\<rparr>, w')"
    using assms(3-5) by (simp add: reconcileDeletion_def own_key_def cleanup_keys_def deleteScenarioRedisKeys_def)
  then show ?thesis using r(1) by (auto simp: ensure_finalizer_def split: prod.splits sum.splits)
qed

definition no_redis_env :: manager_env where
  "no_redis_env = \<lparr>me_runner_image = ''img'', me_image_pull_secret = '''', me_redis_address = '''',
     me_watch_namespaces = ''load, test,'', me_pod_namespace = ''kurama''\<rparr>"

theorem missing_redis_blocks_deletion_witness:
  "\<exists>r. manager_reconciler no_redis_env True True = Some r
    \<and> reconcileDeletion plain_lib r (cluster_api (=)) deleted_scenario (empty_cluster\<lparr>cl_now := 10 ^ 18\<rparr>)
      = (\<lparr>re_requeue_after = 0, re_error = Some Panicked\<rparr>, empty_cluster\<lparr>cl_now := 10 ^ 18\<rparr>)"
proof -
  obtain r where r: "manager_reconciler no_redis_env True True = Some r"
    by (simp add: manager_reconciler_def no_redis_env_def)
  have "NewScope (ts_namespace deleted_scenario) (ts_name deleted_scenario) (ts_uid deleted_scenario)
      = Inr \<lparr>sc_namespace = ''load'', sc_scenario = ''shop'', sc_uid = ''u1''\<rparr>"
    by (simp add: NewScope_Inr err_simps scope_parts_def deleted_scenario_def shop_scenario_def)
  from missing_redis_blocks_deletion [OF r _ _ _ this, of plain_lib "cluster_api (=)" "empty_cluster\<lparr>cl_now := 10 ^ 18\<rparr>"
      "empty_cluster\<lparr>cl_now := 10 ^ 18\<rparr>"]
  show ?thesis using r
    by (simp add: no_redis_env_def plain_lib_def cluster_api_def found_at_def empty_cluster_def deleted_scenario_def)
qed

end
