(* ===== verification/Runner_Process.thy ===== *)
theory Runner_Process
  imports Scheduler Redis_Store Metrics Scenario_Validation
begin

section \<open>The runner process\<close>

text \<open>
  \<open>cmd/runner\<close>: how one runner Pod reads its environment and configuration, opens its backends,
  decorates them, runs the scheduler and shuts down. The world of the process is its connection to
  Redis, what each further look at the context and the clock gives, and the log
  of the resources it acquired and released. Errors that Go joins are a list; nil is the empty list.
\<close>

datatype runner_event =
    ClientOpened string
  | ClientClosed
  | MetricsStarted string
  | MetricsStopped
  | SchedulerStarted

record 'r runner_world =
  rw_conn :: "'r redis_conn"
  rw_tape :: "nat \<Rightarrow> ctx \<times> int"
  rw_events :: "runner_event list"

definition log_event :: "runner_event \<Rightarrow> 'r runner_world \<Rightarrow> 'r runner_world" where
  "log_event e w = w\<lparr>rw_events := rw_events w @ [e]\<rparr>"

definition next_look :: "'r runner_world \<Rightarrow> 'r runner_world" where
  "next_look w = w\<lparr>rw_tape := (\<lambda>i. rw_tape w (Suc i))\<rparr>"

subsection \<open>Environment and configuration\<close>

text \<open>\<open>os.Getenv\<close> is a function that gives the empty string for a variable that is not set.\<close>

definition metricsAddressFromEnv :: "(string \<Rightarrow> string) \<Rightarrow> string" where
  "metricsAddressFromEnv getenv =
     (if getenv MetricsAddrEnv \<noteq> '''' then getenv MetricsAddrEnv else '':'' @ itoa MetricsPort)"

datatype load_error = ConfigOpen | ConfigLoad decode_error | ConfigClose

text \<open>The file is what \<open>os.Open\<close> gives for the path, and whether closing it fails.\<close>

definition loadConfig ::
  "go_lib \<Rightarrow> config json_decoder \<Rightarrow> (string \<times> bool) option \<Rightarrow> bool \<Rightarrow> load_error + config" where
  "loadConfig lib jd file close_fails =
     (case file of
        None \<Rightarrow> Inl ConfigOpen
      | Some reader \<Rightarrow>
         (case decodeConfig lib jd reader of
            Inl e \<Rightarrow> Inl (ConfigLoad e)
          | Inr config \<Rightarrow> if close_fails then Inl ConfigClose else Inr config))"

record store_settings =
  se_backend :: string
  se_redis_address :: string
  se_namespace :: string
  se_scenario :: string
  se_scenario_uid :: string

definition storeSettingsFromEnv :: "(string \<Rightarrow> string) \<Rightarrow> store_settings" where
  "storeSettingsFromEnv getenv =
     \<lparr>se_backend = getenv StoreBackendEnv, se_redis_address = getenv RedisAddressEnv,
      se_namespace = getenv NamespaceEnv, se_scenario = getenv ScenarioEnv,
      se_scenario_uid = getenv ScenarioUIDEnv\<rparr>"

definition normalizedStoreBackend :: "string \<Rightarrow> string" where
  "normalizedStoreBackend backend = (if backend = '''' then ''memory'' else backend)"

definition normalizedRateLimiterBackend :: "rate_limiter_config option \<Rightarrow> string \<Rightarrow> string" where
  "normalizedRateLimiterBackend config storeBackend =
     (let implied = (if normalizedStoreBackend storeBackend = ''redis'' then ''redis'' else ''local'')
      in case config of
           None \<Rightarrow> implied
         | Some l \<Rightarrow> if rl_type l \<noteq> '''' then rl_type l else implied)"

definition normalizedRateProfileType :: "rate_profile_config option \<Rightarrow> string" where
  "normalizedRateProfileType config =
     (case config of None \<Rightarrow> ''fixed'' | Some p \<Rightarrow> if rp_type p = '''' then ''fixed'' else rp_type p)"

subsection \<open>The runtime state\<close>

datatype runner_store = MemoryBacked memory_store | RedisBacked redis_store
datatype runner_limiter = LocalBacked local_limiter | RedisLimited string
datatype runner_schedule = FixedRate int | UniformRate redis_uniform

text \<open>
  The labels are those of the decorators put around the three components. A nil limiter is
  \<open>None\<close>. \<open>rt_close\<close> tells whether \<open>close\<close> closes the client or is the function that does nothing.
\<close>

record runtime_state =
  rt_store :: runner_store
  rt_store_label :: "string option"
  rt_limiter :: "runner_limiter option"
  rt_limiter_label :: "string option"
  rt_schedule :: runner_schedule
  rt_schedule_label :: "string option"
  rt_redis :: bool
  rt_secret_files :: "string list"
  rt_maintain :: "redis_store option"
  rt_close :: bool

datatype redis_limiter_error = LimiterClientNil | LimiterScope scope_error

definition newRedisRateLimiter :: "bool \<Rightarrow> scope \<Rightarrow> redis_limiter_error + string" where
  "newRedisRateLimiter client_nil s =
     (if client_nil then Inl LimiterClientNil
      else case validateScope s of
        Some e \<Rightarrow> Inl (LimiterScope e)
      | None \<Rightarrow> Inr (RateLimitKey s))"

datatype state_error =
    UnsupportedStore string
  | UnsupportedLimiter string
  | RedisAddressUnset
  | RedisScopeInvalid scope_error
  | RedisPing
  | MemoryStoreFailed store_config_error
  | RedisStoreFailed redis_store_error
  | RedisLimiterFailed redis_limiter_error
  | UniformScheduleFailed uniform_error
  | UnsupportedSchedule string
  | RetentionFailed Redis_Store.reconcile_error
  | ClientCloseFailed

text \<open>A command without arguments: it fails with the context, or when it or its reply is lost.\<close>

definition pingRedis :: "'r runner_world \<Rightarrow> bool \<times> 'r runner_world" where
  "pingRedis w =
     (if fst (rw_tape w 0) \<noteq> None then (False, next_look w)
      else (cn_faults (rw_conn w) 0 = Delivered,
            (next_look w)\<lparr>rw_conn := next_faults (rw_conn w)\<rparr>))"

definition close_state :: "bool \<Rightarrow> bool \<Rightarrow> 'r runner_world \<Rightarrow> state_error list \<times> 'r runner_world" where
  "close_state closes_client close_fails w =
     (if closes_client then (if close_fails then [ClientCloseFailed] else [], log_event ClientClosed w)
      else ([], w))"

text \<open>An error joined with the error of closing the state.\<close>

definition fail_closing ::
  "state_error \<Rightarrow> bool \<Rightarrow> bool \<Rightarrow> 'r runner_world \<Rightarrow> (state_error list + 'a) \<times> 'r runner_world" where
  "fail_closing e closes_client close_fails w =
     (case close_state closes_client close_fails w of (errs, w') \<Rightarrow> (Inl (e # errs), w'))"

definition Maintain ::
  "'r redis_ops \<Rightarrow> runtime_state \<Rightarrow> 'r runner_world \<Rightarrow> Redis_Store.reconcile_error option \<times> 'r runner_world" where
  "Maintain ops s w =
     (case rt_maintain s of
        None \<Rightarrow> (None, w)
      | Some rs \<Rightarrow>
         (case redisReconcileKeys ops rs (fst (rw_tape w 0)) (snd (rw_tape w 0)) (rw_conn w) of
            (err, c) \<Rightarrow> (err, (next_look w)\<lparr>rw_conn := c\<rparr>)))"

definition empty_scope :: scope where
  "empty_scope = \<lparr>sc_namespace = '''', sc_scenario = '''', sc_uid = ''''\<rparr>"

definition redis_needed :: "string \<Rightarrow> string \<Rightarrow> rate_schedule_config \<Rightarrow> bool" where
  "redis_needed storeBackend limiterBackend scheduleConfig \<longleftrightarrow>
     storeBackend = ''redis'' \<or> limiterBackend = ''redis'' \<or> rs_type scheduleConfig = ''uniform''"

text \<open>Opening the client where Redis is needed; \<open>None\<close> is the nil client.\<close>

definition connect_redis ::
  "bool \<Rightarrow> store_settings \<Rightarrow> string \<Rightarrow> string \<Rightarrow> rate_schedule_config \<Rightarrow> 'r runner_world
    \<Rightarrow> (state_error list + scope option) \<times> 'r runner_world" where
  "connect_redis close_fails settings storeBackend limiterBackend scheduleConfig w =
     (if \<not> redis_needed storeBackend limiterBackend scheduleConfig then (Inr None, w)
      else if se_redis_address settings = '''' then (Inl [RedisAddressUnset], w)
      else case NewScope (se_namespace settings) (se_scenario settings) (se_scenario_uid settings) of
        Inl e \<Rightarrow> (Inl [RedisScopeInvalid e], w)
      | Inr keyScope \<Rightarrow>
         (case pingRedis (log_event (ClientOpened (se_redis_address settings)) w) of
            (False, w') \<Rightarrow> fail_closing RedisPing True close_fails w'
          | (True, w') \<Rightarrow> (Inr (Some keyScope), w')))"

definition new_runner_store ::
  "string \<Rightarrow> bool \<Rightarrow> scope \<Rightarrow> store_config list \<Rightarrow> state_error + runner_store" where
  "new_runner_store storeBackend client_nil keyScope configs =
     (if storeBackend = ''memory'' then
        (case newMemoryStore configs of
           Inl e \<Rightarrow> Inl (MemoryStoreFailed e) | Inr s \<Rightarrow> Inr (MemoryBacked s))
      else
        (case newRedisStore client_nil keyScope configs of
           Inl e \<Rightarrow> Inl (RedisStoreFailed e) | Inr s \<Rightarrow> Inr (RedisBacked s)))"

definition newRuntimeStateWithComponents ::
  "bool \<Rightarrow> runner_store \<Rightarrow> bool \<Rightarrow> scope \<Rightarrow> string \<Rightarrow> rate_schedule_config \<Rightarrow> 'r runner_world
    \<Rightarrow> (state_error list + runtime_state) \<times> 'r runner_world" where
  "newRuntimeStateWithComponents close_fails store client keyScope limiterBackend scheduleConfig w =
     (case (if limiterBackend = ''local'' then Inr (Some (LocalBacked newLocalLimiter))
            else if limiterBackend = ''redis'' then
              (case newRedisRateLimiter (\<not> client) keyScope of
                 Inl e \<Rightarrow> Inl (RedisLimiterFailed e) | Inr key \<Rightarrow> Inr (Some (RedisLimited key)))
            else Inr None) of
        Inl e \<Rightarrow> fail_closing e client close_fails w
      | Inr limiter \<Rightarrow>
     (case (if rs_type scheduleConfig = ''fixed'' then
              Inr (FixedRate (rs_requests_per_minute scheduleConfig))
            else if rs_type scheduleConfig = ''uniform'' then
              (case newRedisUniform (\<not> client) keyScope
                      \<lparr>uc_min_requests = rs_min_requests_per_minute scheduleConfig,
                       uc_max_requests = rs_max_requests_per_minute scheduleConfig,
                       uc_window = i64 (rs_window_minutes scheduleConfig * minute)\<rparr> False of
                 Inl e \<Rightarrow> Inl (UniformScheduleFailed e) | Inr u \<Rightarrow> Inr (UniformRate u))
            else Inl (UnsupportedSchedule (rs_type scheduleConfig))) of
        Inl e \<Rightarrow> fail_closing e client close_fails w
      | Inr schedule \<Rightarrow>
          (Inr \<lparr>rt_store = store, rt_store_label = None, rt_limiter = limiter, rt_limiter_label = None,
             rt_schedule = schedule, rt_schedule_label = None, rt_redis = client,
             rt_secret_files = [], rt_maintain = None, rt_close = client\<rparr>, w)))"

definition newRuntimeState ::
  "'r redis_ops \<Rightarrow> bool \<Rightarrow> store_settings \<Rightarrow> string \<Rightarrow> rate_schedule_config \<Rightarrow> store_config list
    \<Rightarrow> 'r runner_world \<Rightarrow> (state_error list + runtime_state) \<times> 'r runner_world" where
  "newRuntimeState ops close_fails settings limiterBackend scheduleConfig configs w =
     (let storeBackend = normalizedStoreBackend (se_backend settings)
      in if storeBackend \<noteq> ''memory'' \<and> storeBackend \<noteq> ''redis''
         then (Inl [UnsupportedStore (se_backend settings)], w)
         else if limiterBackend \<noteq> ''local'' \<and> limiterBackend \<noteq> ''redis''
         then (Inl [UnsupportedLimiter limiterBackend], w)
         else case connect_redis close_fails settings storeBackend limiterBackend scheduleConfig w of
           (Inl errs, w1) \<Rightarrow> (Inl errs, w1)
         | (Inr client, w1) \<Rightarrow>
        (let keyScope = (case client of None \<Rightarrow> empty_scope | Some s \<Rightarrow> s); opened = (client \<noteq> None)
         in case new_runner_store storeBackend (\<not> opened) keyScope configs of
              Inl e \<Rightarrow> fail_closing e opened close_fails w1
            | Inr store \<Rightarrow>
           (case newRuntimeStateWithComponents close_fails store opened keyScope limiterBackend scheduleConfig w1 of
              (Inl errs, w2) \<Rightarrow> (Inl errs, w2)
            | (Inr s, w2) \<Rightarrow>
               (let s = s\<lparr>rt_maintain := (case store of RedisBacked rs \<Rightarrow> Some rs | MemoryBacked _ \<Rightarrow> None)\<rparr>
                in case Maintain ops s w2 of
                     (Some e, w3) \<Rightarrow> fail_closing (RetentionFailed e) (rt_close s) close_fails w3
                   | (None, w3) \<Rightarrow> (Inr s, w3)))))"

subsection \<open>Readiness\<close>

datatype ready_error = ReadyPing | ReadyContext ctx_error | ReadyCredentials "nat \<times> secret_error"

definition Ready ::
  "('s, 'g, 'f) exec_ops \<Rightarrow> 'f \<Rightarrow> runtime_state \<Rightarrow> 'r runner_world \<Rightarrow> ready_error option \<times> 'r runner_world" where
  "Ready ops files s w =
     (case (if rt_redis s then pingRedis w else (True, w)) of
        (False, w1) \<Rightarrow> (Some ReadyPing, w1)
      | (True, w1) \<Rightarrow>
         (case fst (rw_tape w1 0) of
            Some e \<Rightarrow> (Some (ReadyContext e), next_look w1)
          | None \<Rightarrow> (map_option ReadyCredentials (CheckSecretHeaderFiles ops files (rt_secret_files s)),
                      next_look w1)))"

text \<open>The status codes of the health and the readiness endpoints.\<close>

definition healthy :: int where "healthy = 200"

definition ready :: "ready_error option \<Rightarrow> int" where
  "ready err = (if err \<noteq> None then 503 else 200)"

text \<open>\<open>metricsServer.Shutdown\<close>: what \<open>Shutdown\<close>, \<open>Close\<close> and \<open>Serve\<close> of the server return.\<close>

datatype serve_error = ServerClosed | ServeFailed

datatype process_error =
    LoadFailed load_error
  | StateFailed "state_error list"
  | InstrumentFailed
  | ProfileMetricsFailed metrics_error
  | SchedulerFailed
  | MetricsServerFailed
  | ShutdownFailed | ServerCloseFailed | ServingFailed
  | CloseStateFailed state_error

definition shutdownMetrics :: "bool \<Rightarrow> bool \<Rightarrow> serve_error option \<Rightarrow> process_error list" where
  "shutdownMetrics shutdown_fails close_fails serve_result =
     (if shutdown_fails then [ShutdownFailed] else [])
     @ (if shutdown_fails \<and> close_fails then [ServerCloseFailed] else [])
     @ (case serve_result of None \<Rightarrow> [] | Some ServerClosed \<Rightarrow> [] | Some ServeFailed \<Rightarrow> [ServingFailed])"

text \<open>
  \<open>startMetricsServer\<close>: without a listener there is no server; the request multiplexer has three
  patterns, none of which ends in a slash, so it serves exactly these paths.
\<close>

datatype endpoint = MetricsEndpoint | HealthEndpoint | ReadyEndpoint

definition metrics_mux :: "string \<Rightarrow> endpoint option" where
  "metrics_mux = map_of
     [(MetricsPath, MetricsEndpoint), (HealthPath, HealthEndpoint), (ReadinessPath, ReadyEndpoint)]"

definition startMetricsServer :: "bool \<Rightarrow> process_error + (string \<Rightarrow> endpoint option)" where
  "startMetricsServer listens = (if \<not> listens then Inl MetricsServerFailed else Inr metrics_mux)"

text \<open>The probes and the scrape annotations of the runner's Pod name paths that the runner serves.\<close>

lemma probes_served:
  "metrics_mux (pb_path (runnerHTTPProbe HealthPath p f)) = Some HealthEndpoint"
  "metrics_mux (pb_path (runnerHTTPProbe ReadinessPath p f)) = Some ReadyEndpoint"
  "metrics_mux MetricsPath = Some MetricsEndpoint"
  by (simp_all add: metrics_mux_def runnerHTTPProbe_def MetricsPath_def HealthPath_def ReadinessPath_def)

subsection \<open>Setup\<close>

datatype setup_error =
    SetupStateNil
  | SetupObserver metrics_error
  | SetupStore instrument_store_error
  | SetupDecorator instrument_error
  | SetupExecutor "target_error option"
  | SetupScheduler scheduler_error

text \<open>A nil state is \<open>None\<close>. The decorators are only reached with observers that are not nil.\<close>

definition instrumentRuntimeState ::
  "'g registry_ops option \<Rightarrow> runtime_state option \<Rightarrow> string \<Rightarrow> string \<Rightarrow> string \<Rightarrow> 'g
    \<Rightarrow> (setup_error + runtime_state) \<times> 'g" where
  "instrumentRuntimeState registerer state storeBackend limiterBackend scheduleType g0 =
     (case state of None \<Rightarrow> (Inl SetupStateNil, g0)
      | Some s \<Rightarrow>
     (case NewPrometheusStoreObserver registerer g0 of (Some e, g1) \<Rightarrow> (Inl (SetupObserver e), g1)
      | (None, g1) \<Rightarrow>
     (case newInstrumentedStore False storeBackend False of Some e \<Rightarrow> (Inl (SetupStore e), g1)
      | None \<Rightarrow>
     (case NewPrometheusLimiterObserver registerer g1 of (Some e, g2) \<Rightarrow> (Inl (SetupObserver e), g2)
      | (None, g2) \<Rightarrow>
     (case newInstrumentedLimiter (rt_limiter s = None) limiterBackend False of
        Some e \<Rightarrow> (Inl (SetupDecorator e), g2)
      | None \<Rightarrow>
     (case NewPrometheusScheduleObserver registerer g2 of (Some e, g3) \<Rightarrow> (Inl (SetupObserver e), g3)
      | (None, g3) \<Rightarrow>
     (case newInstrumentedSchedule False scheduleType False of
        Some e \<Rightarrow> (Inl (SetupDecorator e), g3)
      | None \<Rightarrow>
          (Inr (s\<lparr>rt_store_label := Some storeBackend, rt_limiter_label := Some limiterBackend,
                  rt_schedule_label := Some scheduleType\<rparr>), g3))))))))"

text \<open>
  The methods of the state that the scheduler and the executor call are functions of the state:
  \<open>execute_of\<close>, \<open>limiter_of\<close> and \<open>schedule_of\<close>.
\<close>

definition newRunnerScheduler ::
  "go_lib \<Rightarrow> (execution_result \<Rightarrow> exec_error option \<Rightarrow> 'e \<Rightarrow> 'e) \<Rightarrow> (int \<Rightarrow> 'e \<Rightarrow> bool \<times> 'e) \<Rightarrow> 'l limiter_call
    \<Rightarrow> (runtime_state \<Rightarrow> executor \<Rightarrow> 'e execute_call) \<Rightarrow> (runtime_state \<Rightarrow> 'l limiter_call)
    \<Rightarrow> (runtime_state \<Rightarrow> 'c schedule_call) \<Rightarrow> config \<Rightarrow> runtime_state option
    \<Rightarrow> ('l, 'c, 'e) scheduler_option list \<Rightarrow> setup_error + ('l, 'c, 'e) scheduler" where
  "newRunnerScheduler lib log wait local execute_of limiter_of schedule_of config state schedulerOptions =
     (case state of None \<Rightarrow> Inl SetupStateNil
      | Some s \<Rightarrow>
     (case NewExecutor lib (cf_target config) None of Inl e \<Rightarrow> Inl (SetupExecutor e)
      | Inr executor \<Rightarrow>
     (case NewScheduler log wait local (cf_rate config) (cf_operations config)
             (Some (execute_of s executor))
             ([WithRateLimiter (if rt_limiter s = None then None else Some (limiter_of s)),
               WithRateSchedule (Some (schedule_of s))] @ schedulerOptions) of
        Inl e \<Rightarrow> Inl (SetupScheduler e)
      | Inr scheduler \<Rightarrow> Inr scheduler)))"

subsection \<open>The process\<close>

text \<open>
  \<open>maintainStores\<close>: a tick starts a reconciliation whose error is only logged, the end of the
  context ends the loop. The list says which of the two the loop's \<open>select\<close> sees next; at its end
  the loop still waits.
\<close>

datatype maintenance_wake = ContextDone | Tick

fun maintainStores :: "'r redis_ops \<Rightarrow> runtime_state \<Rightarrow> maintenance_wake list \<Rightarrow> 'r runner_world \<Rightarrow> 'r runner_world" where
  "maintainStores ops s [] w = w"
| "maintainStores ops s (ContextDone # wakes) w = w"
| "maintainStores ops s (Tick # wakes) w = maintainStores ops s wakes (snd (Maintain ops s w))"

text \<open>
  What surrounds one run: the file with the configuration, the registry, whether listening,
  shutting down and closing fail, the scheduler's parts, the state it starts from, and the
  connection and tape that are left when \<open>Run\<close> has returned and the maintenance has ended.
\<close>

record ('r, 'g, 'l, 'c, 'e) process =
  pr_lib :: go_lib
  pr_json :: "config json_decoder"
  pr_file :: "(string \<times> bool) option"
  pr_file_close_fails :: bool
  pr_redis :: "'r redis_ops"
  pr_client_close_fails :: bool
  pr_registry :: "'g registry_ops"
  pr_registry_state :: 'g
  pr_listens :: bool
  pr_shutdown_fails :: bool
  pr_server_close_fails :: bool
  pr_served :: "serve_error option"
  pr_log :: "execution_result \<Rightarrow> exec_error option \<Rightarrow> 'e \<Rightarrow> 'e"
  pr_wait :: "int \<Rightarrow> 'e \<Rightarrow> bool \<times> 'e"
  pr_local :: "'l limiter_call"
  pr_execute :: "runtime_state \<Rightarrow> executor \<Rightarrow> 'e execute_call"
  pr_limiter :: "runtime_state \<Rightarrow> 'l limiter_call"
  pr_schedule :: "runtime_state \<Rightarrow> 'c schedule_call"
  pr_start :: "runtime_state \<Rightarrow> 'r runner_world \<Rightarrow> ('l, 'c, 'e) sched_state"
  pr_after :: "('l, 'c, 'e) sched_state \<Rightarrow> 'r redis_conn \<times> (nat \<Rightarrow> ctx \<times> int)"

text \<open>The deferred \<open>Close\<close> of the state, joined with the error so far.\<close>

definition deferred_close ::
  "runtime_state \<Rightarrow> bool \<Rightarrow> process_error list \<times> 'r runner_world \<Rightarrow> process_error list \<times> 'r runner_world" where
  "deferred_close s close_fails res =
     (case close_state (rt_close s) close_fails (snd res) of
        (errs, w) \<Rightarrow> (fst res @ map CloseStateFailed errs, w))"

text \<open>From the listening server on: the scheduler runs, and the deferred shutdown follows.\<close>

definition serve_and_run ::
  "('r, 'g, 'l, 'c, 'e) process \<Rightarrow> string \<Rightarrow> runtime_state \<Rightarrow> ('l, 'c, 'e) scheduler \<Rightarrow> 'r runner_world
    \<Rightarrow> (process_error list \<times> 'r runner_world) option" where
  "serve_and_run p metricsAddress s scheduler w =
     (case startMetricsServer (pr_listens p) of
        Inl e \<Rightarrow> Some ([e], w)
      | Inr _ \<Rightarrow>
        (let w1 = log_event SchedulerStarted (log_event (MetricsStarted metricsAddress) w)
         in case Run scheduler (pr_start p s w1) of
              None \<Rightarrow> None
            | Some final \<Rightarrow>
                Some (shutdownMetrics (pr_shutdown_fails p) (pr_server_close_fails p) (pr_served p),
                  log_event MetricsStopped
                    (w1\<lparr>rw_conn := fst (pr_after p final), rw_tape := snd (pr_after p final)\<rparr>))))"

definition run_state ::
  "('r, 'g, 'l, 'c, 'e) process \<Rightarrow> string \<Rightarrow> config \<Rightarrow> string \<Rightarrow> string \<Rightarrow> runtime_state
    \<Rightarrow> ('l, 'c, 'e) scheduler_option list \<Rightarrow> 'r runner_world \<Rightarrow> (process_error list \<times> 'r runner_world) option" where
  "run_state p metricsAddress config storeBackend limiterBackend s schedulerOptions w =
     (case instrumentRuntimeState (Some (pr_registry p)) (Some s) (normalizedStoreBackend storeBackend)
             limiterBackend (rs_type (rc_schedule (cf_rate config))) (pr_registry_state p) of
        (Inl e, g1) \<Rightarrow> Some ([InstrumentFailed], w)
      | (Inr s1, g1) \<Rightarrow>
     (case RegisterPrometheusRateProfileMetrics (Some (pr_registry p)) (rc_profile (cf_rate config)) g1 of
        (Some e, _, g2) \<Rightarrow> Some ([ProfileMetricsFailed e], w)
      | (None, _, g2) \<Rightarrow>
     (case newRunnerScheduler (pr_lib p) (pr_log p) (pr_wait p) (pr_local p) (pr_execute p) (pr_limiter p)
             (pr_schedule p) config (Some s1) schedulerOptions of
        Inl e \<Rightarrow> Some ([SchedulerFailed], w)
      | Inr scheduler \<Rightarrow> serve_and_run p metricsAddress s1 scheduler w)))"

text \<open>\<open>None\<close> where \<open>Run\<close> does not return.\<close>

definition runWithMetricsAddress ::
  "('r, 'g, 'l, 'c, 'e) process \<Rightarrow> (string \<Rightarrow> string) \<Rightarrow> string \<Rightarrow> ('l, 'c, 'e) scheduler_option list
    \<Rightarrow> 'r runner_world \<Rightarrow> (process_error list \<times> 'r runner_world) option" where
  "runWithMetricsAddress p getenv metricsAddress schedulerOptions w =
     (case loadConfig (pr_lib p) (pr_json p) (pr_file p) (pr_file_close_fails p) of
        Inl e \<Rightarrow> Some ([LoadFailed e], w)
      | Inr config \<Rightarrow>
     (let settings = storeSettingsFromEnv getenv;
          limiterBackend = normalizedRateLimiterBackend (rc_limiter (cf_rate config)) (se_backend settings)
      in case newRuntimeState (pr_redis p) (pr_client_close_fails p) settings limiterBackend
                (rc_schedule (cf_rate config)) (cf_stores config) w of
           (Inl errs, w1) \<Rightarrow> Some ([StateFailed errs], w1)
         | (Inr s, w1) \<Rightarrow>
            (let s = s\<lparr>rt_secret_files := SecretHeaderFiles config\<rparr>
             in map_option (deferred_close s (pr_client_close_fails p))
                  (run_state p metricsAddress config (se_backend settings) limiterBackend s
                    schedulerOptions w1))))"

definition run ::
  "('r, 'g, 'l, 'c, 'e) process \<Rightarrow> (string \<Rightarrow> string) \<Rightarrow> ('l, 'c, 'e) scheduler_option list
    \<Rightarrow> 'r runner_world \<Rightarrow> (process_error list \<times> 'r runner_world) option" where
  "run p getenv schedulerOptions w =
     runWithMetricsAddress p getenv (metricsAddressFromEnv getenv) schedulerOptions w"

subsection \<open>What a run acquires and releases\<close>

lemma world_events [simp]:
  "rw_events (log_event e w) = rw_events w @ [e]"
  "rw_events (next_look w) = rw_events w"
  "rw_events (snd (pingRedis w)) = rw_events w"
  "rw_events (snd (Maintain ops s w)) = rw_events w"
  by (auto simp: log_event_def next_look_def pingRedis_def Maintain_def split: option.splits prod.splits)

lemma ping_events: "pingRedis w = (b, w') \<Longrightarrow> rw_events w' = rw_events w"
  using world_events(3) [of w] by simp

lemma Maintain_events: "Maintain ops s w = (e, w') \<Longrightarrow> rw_events w' = rw_events w"
  using world_events(4) [of ops s w] by simp

lemma fail_closing_cases:
  assumes "fail_closing e closes fails w = (res, w')"
  obtains errs where "res = Inl (e # errs)"
    and "rw_events w' = rw_events w @ (if closes then [ClientClosed] else [])"
  using assms by (auto simp: fail_closing_def close_state_def split: if_splits)

lemma connect_redis_events:
  assumes "connect_redis fails settings sb lb sc w = (res, w')"
  shows "case res of
      Inl errs \<Rightarrow> errs \<noteq> [] \<and> (rw_events w' = rw_events w \<or> se_redis_address settings \<noteq> ''''
        \<and> rw_events w' = rw_events w @ [ClientOpened (se_redis_address settings), ClientClosed])
    | Inr client \<Rightarrow> (client \<noteq> None \<longrightarrow> se_redis_address settings \<noteq> '''') \<and>
        rw_events w' = rw_events w
          @ (if client \<noteq> None then [ClientOpened (se_redis_address settings)] else [])"
  using assms
  by (auto simp: connect_redis_def split: if_splits sum.splits prod.splits bool.splits
      elim!: fail_closing_cases dest!: ping_events)

lemma components_events:
  assumes "newRuntimeStateWithComponents fails store client ks lb sc w = (res, w')"
  shows "case res of
      Inl errs \<Rightarrow> errs \<noteq> [] \<and> rw_events w' = rw_events w @ (if client then [ClientClosed] else [])
    | Inr s \<Rightarrow> w' = w \<and> rt_close s = client \<and> rt_redis s = client"
  using assms
  by (auto simp: newRuntimeStateWithComponents_def split: if_splits sum.splits elim!: fail_closing_cases)

lemma newRuntimeState_events:
  assumes "newRuntimeState ops fails settings lb sc configs w = (res, w')"
  shows "case res of
      Inl errs \<Rightarrow> errs \<noteq> [] \<and> (rw_events w' = rw_events w \<or> se_redis_address settings \<noteq> ''''
        \<and> rw_events w' = rw_events w @ [ClientOpened (se_redis_address settings), ClientClosed])
    | Inr s \<Rightarrow> (rt_close s \<longrightarrow> se_redis_address settings \<noteq> '''') \<and>
        rw_events w' = rw_events w
          @ (if rt_close s then [ClientOpened (se_redis_address settings)] else [])"
proof -
  let ?sb = "normalizedStoreBackend (se_backend settings)"
  obtain r w1 where c: "connect_redis fails settings ?sb lb sc w = (r, w1)" by fastforce
  note ev = connect_redis_events [OF c]
  show ?thesis
  proof (cases r)
    case (Inl errs)
    then show ?thesis using assms c ev by (auto simp: newRuntimeState_def Let_def split: if_splits)
  next
    case r: (Inr client)
    define ks where "ks = (case client of None \<Rightarrow> empty_scope | Some s \<Rightarrow> s)"
    show ?thesis
    proof (cases "new_runner_store ?sb (client = None) ks configs")
      case (Inl e)
      then show ?thesis using assms c ev r
        by (auto simp: newRuntimeState_def Let_def ks_def split: if_splits elim!: fail_closing_cases)
    next
      case st: (Inr store)
      obtain q w2 where k: "newRuntimeStateWithComponents fails store (client \<noteq> None) ks lb sc w1 = (q, w2)"
        by fastforce
      show ?thesis
      proof (cases q)
        case (Inl errs)
        then show ?thesis using assms c ev r st k components_events [OF k]
          by (auto simp: newRuntimeState_def Let_def ks_def split: if_splits)
      next
        case (Inr s)
        then show ?thesis using assms c ev r st k components_events [OF k]
          by (auto simp: newRuntimeState_def Let_def ks_def split: if_splits prod.splits option.splits
              elim!: fail_closing_cases dest!: Maintain_events)
      qed
    qed
  qed
qed

lemma instrumented_close:
  "instrumentRuntimeState reg (Some s) sb lb st g = (Inr s', g') \<Longrightarrow> rt_close s' = rt_close s"
  by (auto simp: instrumentRuntimeState_def split: prod.splits option.splits)

lemma shutdown_events:
  assumes "serve_and_run p addr s sch w = Some (errs, w')"
  shows "if pr_listens p then rw_events w' = rw_events w @ [MetricsStarted addr, SchedulerStarted, MetricsStopped]
    else rw_events w' = rw_events w \<and> errs \<noteq> []"
  using assms by (auto simp: serve_and_run_def startMetricsServer_def Let_def split: option.splits if_splits)

lemma run_state_events:
  assumes "run_state p addr config sb lb s options w = Some (errs, w')"
  shows "\<exists>ran. rw_events w' = rw_events w
      @ (if ran then [MetricsStarted addr, SchedulerStarted, MetricsStopped] else [])
    \<and> (\<not> ran \<longrightarrow> errs \<noteq> [])"
proof -
  consider "w' = w" "errs \<noteq> []" | s' sch where "serve_and_run p addr s' sch w = Some (errs, w')"
    using assms by (auto simp: run_state_def split: prod.splits sum.splits option.splits)
  then show ?thesis
  proof cases
    case 1
    then show ?thesis by (intro exI [of _ False]) simp
  next
    case 2
    show ?thesis using shutdown_events [OF 2] by (intro exI [of _ "pr_listens p"]) simp
  qed
qed

text \<open>
  C16. A run releases what it acquires, whichever step of it fails: the Redis client is opened at most
  once, only at a configured address, and then closed exactly once, after everything else; the scheduler
  runs only between the start and the stop of the metrics server; and a run that does not get as
  far as the scheduler reports an error.
\<close>

theorem runner_releases_resources:
  assumes "run p getenv options w = Some (errs, w')"
  shows "\<exists>opened ran.
      rw_events w' = rw_events w
        @ (if opened then [ClientOpened (getenv RedisAddressEnv)] else [])
        @ (if ran then [MetricsStarted (metricsAddressFromEnv getenv), SchedulerStarted, MetricsStopped] else [])
        @ (if opened then [ClientClosed] else [])
    \<and> (opened \<longrightarrow> getenv RedisAddressEnv \<noteq> '''')
    \<and> (\<not> ran \<longrightarrow> errs \<noteq> [])"
proof -
  let ?settings = "storeSettingsFromEnv getenv" and ?addr = "metricsAddressFromEnv getenv"
  have a: "se_redis_address ?settings = getenv RedisAddressEnv" by (simp add: storeSettingsFromEnv_def)
  show ?thesis
  proof (cases "loadConfig (pr_lib p) (pr_json p) (pr_file p) (pr_file_close_fails p)")
    case (Inl e)
    then show ?thesis using assms
      by (auto simp: run_def runWithMetricsAddress_def intro!: exI [of _ False])
  next
    case c: (Inr config)
    let ?lb = "normalizedRateLimiterBackend (rc_limiter (cf_rate config)) (se_backend ?settings)"
    obtain r w1 where n: "newRuntimeState (pr_redis p) (pr_client_close_fails p) ?settings ?lb
        (rc_schedule (cf_rate config)) (cf_stores config) w = (r, w1)" by fastforce
    note ev = newRuntimeState_events [OF n, unfolded a]
    show ?thesis
    proof (cases r)
      case (Inl es)
      then have "errs \<noteq> []" "rw_events w' = rw_events w1"
        using assms c n by (auto simp: run_def runWithMetricsAddress_def Let_def)
      then show ?thesis using ev Inl
        by (auto intro: exI [of _ False] exI [of _ True])
    next
      case (Inr s)
      let ?s = "s\<lparr>rt_secret_files := SecretHeaderFiles config\<rparr>"
      obtain es w2 where x: "run_state p ?addr config (se_backend ?settings) ?lb ?s options w1 = Some (es, w2)"
        and d: "(errs, w') = deferred_close ?s (pr_client_close_fails p) (es, w2)"
        using assms c n Inr by (auto simp: run_def runWithMetricsAddress_def Let_def)
      obtain ran where "rw_events w2 = rw_events w1
          @ (if ran then [MetricsStarted ?addr, SchedulerStarted, MetricsStopped] else [])" "\<not> ran \<longrightarrow> es \<noteq> []"
        using run_state_events [OF x] by blast
      moreover have "rw_events w' = rw_events w2 @ (if rt_close s then [ClientClosed] else [])"
        "es \<noteq> [] \<longrightarrow> errs \<noteq> []"
        using d by (auto simp: deferred_close_def close_state_def split: if_splits)
      ultimately show ?thesis using ev Inr
        by (intro exI [of _ "rt_close s"] exI [of _ ran]) auto
    qed
  qed
qed

text \<open>
  A run against an empty Redis server that answers every command, whose context ends before the
  scheduler's first round; every part of the environment works.
\<close>

definition redis_env :: "string \<Rightarrow> string" where
  "redis_env name =
     (if name = StoreBackendEnv then ''redis'' else if name = RedisAddressEnv then ''r:6379''
      else if name = NamespaceEnv then ''load'' else if name = ScenarioEnv then ''shop''
      else if name = ScenarioUIDEnv then ''u1'' else '''')"

definition quick_process :: "(ref_redis, unit, unit, unit, unit) process" where
  "quick_process = \<lparr>pr_lib = example_lib,
     pr_json = \<lparr>jd_config = (\<lambda>s. Some (example_config, '''')), jd_any = (\<lambda>s. AnyEOF)\<rparr>,
     pr_file = Some ('''', False), pr_file_close_fails = False, pr_redis = ref_ops,
     pr_client_close_fails = False,
     pr_registry = \<lparr>go_register = (\<lambda>n g. (True, g)), go_unregister = (\<lambda>n g. g)\<rparr>,
     pr_registry_state = (), pr_listens = True, pr_shutdown_fails = False, pr_server_close_fails = False,
     pr_served = Some ServerClosed, pr_log = (\<lambda>r err e. e), pr_wait = (\<lambda>d e. (False, e)),
     pr_local = (\<lambda>ctx now l n s. ((no_decision, None), s)),
     pr_execute = (\<lambda>s x op e. None), pr_limiter = (\<lambda>s ctx now l n u. ((no_decision, None), u)),
     pr_schedule = (\<lambda>s. fixedRequestsPerMinute 60),
     pr_start = (\<lambda>s w. \<lparr>sd_limiter = (), sd_schedule = (), sd_env = (), sd_rng = (\<lambda>_. 0),
       sd_tape = (\<lambda>_. (Some Canceled, 0))\<rparr>),
     pr_after = (\<lambda>f. (\<lparr>cn_server = [], cn_faults = (\<lambda>_. Delivered)\<rparr>, sd_tape f))\<rparr>"

definition fresh_world :: "ref_redis runner_world" where
  "fresh_world = \<lparr>rw_conn = \<lparr>cn_server = [], cn_faults = (\<lambda>_. Delivered)\<rparr>,
     rw_tape = (\<lambda>_. (None, 0)), rw_events = []\<rparr>"

lemma quick_projections:
  "pr_lib quick_process = example_lib" "pr_redis quick_process = ref_ops"
  "pr_client_close_fails quick_process = False" "pr_registry_state quick_process = ()"
  "pr_listens quick_process = True" "pr_shutdown_fails quick_process = False"
  "pr_server_close_fails quick_process = False" "pr_served quick_process = Some ServerClosed"
  "sd_tape (pr_start quick_process s w) = (\<lambda>_. (Some Canceled, 0))"
  "go_register (pr_registry quick_process) n g = (True, g)"
  by (simp_all add: quick_process_def)

lemma quick_scheduler:
  "\<exists>sch. newRunnerScheduler example_lib (pr_log quick_process) (pr_wait quick_process) (pr_local quick_process)
      (pr_execute quick_process) (pr_limiter quick_process) (pr_schedule quick_process) example_config (Some s) []
    = Inr sch \<and> sc_schedule sch = fixedRequestsPerMinute 60"
  by (simp add: newRunnerScheduler_def NewExecutor_def NewScheduler_def example_config_def validateTarget_def
      example_lib_def validateRateSchedule_def validateRateProfile_def config_limits example_operation_def
      weight_error_def newProfile_def newWithRandomSource_def profile_of_def given_def quick_process_def)

lemma quick_load:
  "loadConfig example_lib (pr_json quick_process) (pr_file quick_process)
     (pr_file_close_fails quick_process) = Inr example_config"
  by (simp add: loadConfig_def quick_process_def decodeConfig_def ensureJSONEOF_def example_config_ok)

lemma quick_settings:
  "storeSettingsFromEnv redis_env = \<lparr>se_backend = ''redis'', se_redis_address = ''r:6379'',
     se_namespace = ''load'', se_scenario = ''shop'', se_scenario_uid = ''u1''\<rparr>"
  by (simp add: storeSettingsFromEnv_def redis_env_def StoreBackendEnv_def RedisAddressEnv_def
      NamespaceEnv_def ScenarioEnv_def ScenarioUIDEnv_def)

lemma quick_scope:
  "NewScope ''load'' ''shop'' ''u1'' = Inr \<lparr>sc_namespace = ''load'', sc_scenario = ''shop'', sc_uid = ''u1''\<rparr>"
  by (simp add: NewScope_Inr err_simps scope_parts_def)

lemma quick_connect:
  "\<exists>w. connect_redis False (storeSettingsFromEnv redis_env) ''redis'' ''redis'' sc fresh_world
      = (Inr (Some \<lparr>sc_namespace = ''load'', sc_scenario = ''shop'', sc_uid = ''u1''\<rparr>), w)
    \<and> cn_server (rw_conn w) = [] \<and> cn_faults (rw_conn w) = (\<lambda>_. Delivered) \<and> fst (rw_tape w 0) = None"
  by (simp add: connect_redis_def redis_needed_def quick_settings quick_scope pingRedis_def fresh_world_def
      log_event_def next_look_def next_faults_def)

lemma quick_state:
  "\<exists>s w. newRuntimeState ref_ops False (storeSettingsFromEnv redis_env) ''redis''
      (rc_schedule (cf_rate example_config)) (cf_stores example_config) fresh_world = (Inr s, w)
    \<and> rt_close s"
proof -
  let ?scope = "\<lparr>sc_namespace = ''load'', sc_scenario = ''shop'', sc_uid = ''u1''\<rparr>"
  have v: "validateScope ?scope = None" using quick_scope unfolding NewScope_Inr by simp
  have c: "rs_type (rc_schedule (cf_rate example_config)) = ''fixed''" "cf_stores example_config = []"
    by (simp_all add: example_config_def)
  obtain w where w: "connect_redis False (storeSettingsFromEnv redis_env) ''redis'' ''redis''
        (rc_schedule (cf_rate example_config)) fresh_world = (Inr (Some ?scope), w)"
      "cn_server (rw_conn w) = []" "cn_faults (rw_conn w) = (\<lambda>_. Delivered)" "fst (rw_tape w 0) = None"
    using quick_connect by blast
  obtain rs where "new_runner_store ''redis'' False ?scope [] = Inr (RedisBacked rs)"
    using v by (simp add: new_runner_store_def newRedisStore_def validateStoreConfigs_def)
  moreover have "rd_scan ref_ops t p [] = []" for t p by (simp add: ref_ops_def)
  ultimately show ?thesis using v c w
    by (simp add: newRuntimeState_def quick_settings [symmetric] normalizedStoreBackend_def
        newRuntimeStateWithComponents_def newRedisRateLimiter_def Maintain_def redisReconcileKeys_def
        storeSettingsFromEnv_def redis_env_def)
qed

theorem runner_releases_resources_witness:
  "\<exists>w'. run quick_process redis_env [] fresh_world = Some ([], w')
    \<and> (\<exists>opened. rw_events w' = (if opened then [ClientOpened ''r:6379''] else [])
        @ [MetricsStarted '':8080'', SchedulerStarted, MetricsStopped]
        @ (if opened then [ClientClosed] else []))"
proof -
  obtain s w where s: "newRuntimeState ref_ops False (storeSettingsFromEnv redis_env) ''redis''
      (rc_schedule (cf_rate example_config)) (cf_stores example_config) fresh_world = (Inr s, w)"
    and cl: "rt_close s"
    using quick_state by blast
  let ?s = "s\<lparr>rt_secret_files := SecretHeaderFiles example_config\<rparr>"
  have lim: "rt_limiter s \<noteq> None" using s
    by (auto simp: newRuntimeState_def newRuntimeStateWithComponents_def Let_def fail_closing_def
        split: if_splits sum.splits prod.splits option.splits)
  obtain s1 where i: "instrumentRuntimeState (Some (pr_registry quick_process)) (Some ?s) ''redis'' ''redis''
      ''fixed'' () = (Inr s1, ())"
    using lim by (simp add: instrumentRuntimeState_def quick_projections NewPrometheusStoreObserver_def
        NewPrometheusLimiterObserver_def NewPrometheusScheduleObserver_def newInstrumentedStore_def
        newInstrumentedLimiter_def newInstrumentedSchedule_def Let_def)
  obtain sch where sch: "newRunnerScheduler example_lib (pr_log quick_process) (pr_wait quick_process)
      (pr_local quick_process) (pr_execute quick_process) (pr_limiter quick_process) (pr_schedule quick_process)
      example_config (Some s1) [] = Inr sch" "sc_schedule sch = fixedRequestsPerMinute 60"
    using quick_scheduler by blast
  have r: "\<exists>w2. run_state quick_process a example_config ''redis'' ''redis'' ?s [] w = Some ([], w2)" for a
    using i sch
    by (simp add: run_state_def serve_and_run_def startMetricsServer_def Run.simps [of sch] run_round_def currentRequestsPerMinute_def
        fixedRequestsPerMinute_def RegisterPrometheusRateProfileMetrics_def example_config_def
        normalizedStoreBackend_def shutdownMetrics_def quick_projections next_tape_def Let_def)
  have lb: "normalizedRateLimiterBackend (rc_limiter (cf_rate example_config)) ''redis'' = ''redis''"
    by (simp add: normalizedRateLimiterBackend_def normalizedStoreBackend_def example_config_def)
  obtain w' where w': "run quick_process redis_env [] fresh_world = Some ([], w')"
  proof -
    obtain w2 where "run_state quick_process (metricsAddressFromEnv redis_env) example_config ''redis'' ''redis'' ?s [] w
        = Some ([], w2)" using r by blast
    then have "\<exists>w'. run quick_process redis_env [] fresh_world = Some ([], w')"
      using s lb by (simp add: run_def runWithMetricsAddress_def quick_load quick_settings Let_def
          deferred_close_def close_state_def quick_projections)
    then show ?thesis using that by blast
  qed
  have a: "metricsAddressFromEnv redis_env = '':8080''" "redis_env RedisAddressEnv = ''r:6379''"
    "rw_events fresh_world = []"
    by (simp_all add: metricsAddressFromEnv_def redis_env_def MetricsAddrEnv_def StoreBackendEnv_def RedisAddressEnv_def
        NamespaceEnv_def ScenarioEnv_def ScenarioUIDEnv_def MetricsPort_def fresh_world_def itoa_def digit_char_def char_of_def bit_0
        nat_str.simps [of 8080] nat_str.simps [of 808] nat_str.simps [of 80] nat_str.simps [of 8])
  show ?thesis using w' runner_releases_resources [OF w', unfolded a] by (auto split: if_splits)
qed

subsection \<open>Controller and runner agree\<close>

text \<open>
  The environment Kubernetes gives a container: the values of its variables, with \<open>field_of\<close> for the
  references to fields of the Pod; the empty string for any other name.
\<close>

definition pod_environ :: "(string \<Rightarrow> string) \<Rightarrow> env_var list \<Rightarrow> string \<Rightarrow> string" where
  "pod_environ field_of vars name =
     (case find (\<lambda>e. ev_name e = name) vars of
        None \<Rightarrow> ''''
      | Some e \<Rightarrow> (case ev_source e of EnvValue v \<Rightarrow> v | EnvFieldRef _ path \<Rightarrow> field_of path))"

lemmas runner_env_names = StoreBackendEnv_def RedisAddressEnv_def NamespaceEnv_def ScenarioEnv_def ScenarioUIDEnv_def

lemma deployment_environment:
  "ct_env (hd (pd_containers (dp_pod (desiredDeployment scenario name runner_image secret redisAddress config))))
    = runnerEnvironment scenario redisAddress"
  by (auto simp: desiredDeployment_def desired_pod_spec_def add_secret_volume_def base_pod_spec_def
      runner_container_def Let_def split: option.splits)

lemma runner_settings:
  "storeSettingsFromEnv (pod_environ field_of (runnerEnvironment scenario redisAddress))
    = (if requiresRedis scenario
       then \<lparr>se_backend = storageBackend scenario, se_redis_address = redisAddress,
          se_namespace = field_of ''metadata.namespace'', se_scenario = ts_name scenario,
          se_scenario_uid = ts_uid scenario\<rparr>
       else \<lparr>se_backend = storageBackend scenario, se_redis_address = '''', se_namespace = '''',
          se_scenario = '''', se_scenario_uid = ''''\<rparr>)"
  by (simp add: storeSettingsFromEnv_def pod_environ_def runnerEnvironment_def runner_env_names)

lemma same_limiter_backend:
  "rateLimiterBackend scenario \<noteq> '''' \<Longrightarrow>
    normalizedRateLimiterBackend (rc_limiter (cf_rate (scenarioRunnerConfig scenario))) b = rateLimiterBackend scenario"
  by (simp add: normalizedRateLimiterBackend_def scenarioRunnerConfig_def Let_def)

text \<open>Each constructor on a configuration that was validated.\<close>

lemma uniform_of_accepted:
  assumes "validateRateSchedule c = None" and "rs_type c = ''uniform''" and "validateScope s = None"
  shows "\<exists>u. newRedisUniform False s
        \<lparr>uc_min_requests = rs_min_requests_per_minute c, uc_max_requests = rs_max_requests_per_minute c,
         uc_window = i64 (rs_window_minutes c * minute)\<rparr> False = Inr u
      \<and> ru_key u = scheduleKey s (rs_min_requests_per_minute c) (rs_max_requests_per_minute c)
          (rs_window_minutes c * 60000000)"
proof -
  have b: "1 \<le> rs_min_requests_per_minute c" "rs_min_requests_per_minute c \<le> rs_max_requests_per_minute c"
      "rs_max_requests_per_minute c \<le> 6000" "1 \<le> rs_window_minutes c" "rs_window_minutes c \<le> 1440"
    using assms(1,2) by (auto simp: validateRateSchedule_def config_limits split: if_splits)
  have w: "i64 (rs_window_minutes c * minute) = rs_window_minutes c * minute"
    using b(4,5) by (simp add: i64_id minute_def second_def)
  have r: "i64 (i64 (rs_max_requests_per_minute c - rs_min_requests_per_minute c) + 1)
      = rs_max_requests_per_minute c - rs_min_requests_per_minute c + 1"
    using b(1-3) by (simp add: i64_id)
  have d: "rs_window_minutes c * minute div 1000 = rs_window_minutes c * 60000000"
    by (simp add: minute_def second_def)
  have "minute \<le> rs_window_minutes c * minute" using b(4) by (simp add: minute_def second_def)
  then show ?thesis using assms(3) b(1,2) by (simp add: newRedisUniform_def w r d Let_def)
qed

lemma store_of_accepted:
  assumes "validateStoreConfigs configs = Inr v" and "sb \<in> {''memory'', ''redis''}"
    and "sb = ''redis'' \<Longrightarrow> \<not> client_nil \<and> validateScope s = None"
  obtains store where "new_runner_store sb client_nil s configs = Inr store"
    and "case store of MemoryBacked _ \<Rightarrow> sb = ''memory''
      | RedisBacked rs \<Rightarrow> sb = ''redis'' \<and> sr_key_prefix rs = StorePrefix s"
  using assms by (auto simp: new_runner_store_def newMemoryStore_def newRedisStore_def)

lemma connect_healthy:
  assumes "\<And>i. fst (rw_tape w i) = None" and "\<And>i. cn_faults (rw_conn w) i = Delivered"
    and "redis_needed sb lb sc \<Longrightarrow> se_redis_address st \<noteq> ''''
      \<and> NewScope (se_namespace st) (se_scenario st) (se_scenario_uid st) = Inr ks"
  obtains w' where "connect_redis fails st sb lb sc w = (Inr (if redis_needed sb lb sc then Some ks else None), w')"
    and "\<And>i. fst (rw_tape w' i) = None" and "\<And>i. cn_faults (rw_conn w') i = Delivered"
  using assms
  by (cases "redis_needed sb lb sc")
    (auto simp: connect_redis_def pingRedis_def log_event_def next_look_def next_faults_def)

lemma Maintain_healthy:
  assumes "\<And>i. fst (rw_tape w i) = None" and "\<And>i. cn_faults (rw_conn w) i = Delivered"
  shows "fst (Maintain ops s w) = None"
  using assms by (auto simp: Maintain_def redisReconcileKeys_def next_faults_def Let_def split: option.splits)

text \<open>
  C8. Controller and runner agree on the backends. In the Pod of the Deployment of an accepted scenario,
  with Redis answering, the runner sets up exactly the store, the limiter and the schedule that the
  controller decided on; it connects to Redis exactly where the controller says the scenario needs
  it; and every key prefix it uses is of the scope whose keys the finalizer removes.
\<close>

theorem runner_backends_agree:
  fixes scenario :: traffic_scenario
  defines "spec \<equiv> ra_schedule (sp_rate (ts_spec scenario))" and "config \<equiv> scenarioRunnerConfig scenario"
  assumes "validateScenario lib checks scenario = None"
    and "requiresRedis scenario \<Longrightarrow> redisAddress \<noteq> ''''"
    and "NewScope (ts_namespace scenario) (ts_name scenario) (ts_uid scenario) = Inr keyScope"
    and "getenv = pod_environ field_of (ct_env (hd (pd_containers (dp_pod
          (desiredDeployment scenario name runner_image secret redisAddress text)))))"
    and "field_of ''metadata.namespace'' = ts_namespace scenario"
    and "\<And>i. fst (rw_tape w i) = None" and "\<And>i. cn_faults (rw_conn w) i = Delivered"
  shows "\<exists>s w'. newRuntimeState ops fails (storeSettingsFromEnv getenv)
        (normalizedRateLimiterBackend (rc_limiter (cf_rate config)) (getenv StoreBackendEnv))
        (rc_schedule (cf_rate config)) (cf_stores config) w = (Inr s, w')
    \<and> (case rt_store s of MemoryBacked _ \<Rightarrow> storageBackend scenario = StorageTypeMemory
       | RedisBacked rs \<Rightarrow> storageBackend scenario = StorageTypeRedis \<and> sr_key_prefix rs = StorePrefix keyScope)
    \<and> rt_limiter s = Some (if rateLimiterBackend scenario = RateLimiterTypeRedis
         then RedisLimited (RateLimitKey keyScope) else LocalBacked newLocalLimiter)
    \<and> (case rt_schedule s of FixedRate n \<Rightarrow> ss_type spec = RateScheduleTypeFixed \<and> n = ss_requests_per_minute spec
       | UniformRate u \<Rightarrow> ss_type spec = RateScheduleTypeUniform
           \<and> ru_key u = scheduleKey keyScope (ss_min_requests_per_minute spec) (ss_max_requests_per_minute spec)
               (ss_window_minutes spec * 60000000))
    \<and> (rt_redis s \<longleftrightarrow> requiresRedis scenario)"
proof -
  note v = validateScenario_None [OF assms(3)]
  note ok = validateConfig_None [OF v(6), folded config_def]
  note ty = scenario_backend_types [OF v(1), unfolded scenario_constants]
  let ?sb = "storageBackend scenario" and ?lb = "rateLimiterBackend scenario"
    and ?sc = "rc_schedule (cf_rate config)" and ?need = "requiresRedis scenario"
  let ?st = "storeSettingsFromEnv getenv" and ?ks = "if ?need then keyScope else empty_scope"
  have sc: "rs_type ?sc = ss_type spec" "rs_requests_per_minute ?sc = ss_requests_per_minute spec"
    "rs_min_requests_per_minute ?sc = ss_min_requests_per_minute spec"
    "rs_max_requests_per_minute ?sc = ss_max_requests_per_minute spec"
    "rs_window_minutes ?sc = ss_window_minutes spec"
    by (simp_all add: config_def scenarioRunnerConfig_def spec_def Let_def)
  have st: "?st = (if ?need then \<lparr>se_backend = ?sb, se_redis_address = redisAddress,
      se_namespace = ts_namespace scenario, se_scenario = ts_name scenario, se_scenario_uid = ts_uid scenario\<rparr>
    else \<lparr>se_backend = ?sb, se_redis_address = '''', se_namespace = '''', se_scenario = '''', se_scenario_uid = ''''\<rparr>)"
    using assms(6,7) by (simp add: deployment_environment runner_settings)
  have sb: "normalizedStoreBackend (se_backend ?st) = ?sb" "?sb \<noteq> ''''" "se_backend ?st = ?sb"
    using ty(1) by (auto simp: st normalizedStoreBackend_def)
  have lb: "normalizedRateLimiterBackend (rc_limiter (cf_rate config)) (getenv StoreBackendEnv) = ?lb"
    using ty(2) unfolding config_def by (intro same_limiter_backend) auto
  have need: "redis_needed ?sb ?lb ?sc \<longleftrightarrow> ?need"
    by (simp add: redis_needed_def requiresRedis_def scenario_constants sc spec_def)
  have vs: "validateScope keyScope = None" using assms(5) unfolding NewScope_Inr by blast
  obtain w1 where c: "connect_redis fails ?st ?sb ?lb ?sc w = (Inr (if ?need then Some keyScope else None), w1)"
    and h: "\<And>i. fst (rw_tape w1 i) = None" "\<And>i. cn_faults (rw_conn w1) i = Delivered"
    using connect_healthy [OF assms(8,9), of ?sb ?lb ?sc ?st keyScope fails] assms(4,5)
    by (auto simp: need st)
  obtain v where "validateStoreConfigs (cf_stores config) = Inr v" using ok(5) by blast
  then obtain store where store: "new_runner_store ?sb (\<not> ?need) ?ks (cf_stores config) = Inr store"
    "case store of MemoryBacked _ \<Rightarrow> ?sb = ''memory'' | RedisBacked rs \<Rightarrow> ?sb = ''redis'' \<and> sr_key_prefix rs = StorePrefix ?ks"
    by (rule store_of_accepted [of "cf_stores config" v ?sb "\<not> ?need" ?ks])
      (use ty(1) vs in \<open>auto simp: requiresRedis_def scenario_constants\<close>)
  have lim: "newRedisRateLimiter False keyScope = Inr (RateLimitKey keyScope)"
    using vs by (simp add: newRedisRateLimiter_def)
  have type: "ss_type spec = ''fixed'' \<or> ss_type spec = ''uniform''"
    using ok(2) sc(1) by (auto simp: validateRateSchedule_def split: if_splits)
  have sredis: "?sb = ''redis'' \<Longrightarrow> ?need" "?lb = ''redis'' \<Longrightarrow> ?need" "ss_type spec = ''uniform'' \<Longrightarrow> ?need"
    by (simp_all add: requiresRedis_def scenario_constants spec_def)
  obtain s where s: "newRuntimeStateWithComponents fails store ?need ?ks ?lb ?sc w1 = (Inr s, w1)"
    "rt_store s = store" "rt_redis s = ?need"
    "rt_limiter s = Some (if ?lb = ''redis'' then RedisLimited (RateLimitKey keyScope) else LocalBacked newLocalLimiter)"
    "case rt_schedule s of FixedRate n \<Rightarrow> ss_type spec = ''fixed'' \<and> n = ss_requests_per_minute spec
       | UniformRate u \<Rightarrow> ss_type spec = ''uniform''
           \<and> ru_key u = scheduleKey keyScope (ss_min_requests_per_minute spec) (ss_max_requests_per_minute spec)
               (ss_window_minutes spec * 60000000)"
    using type ty(2) sredis lim uniform_of_accepted [OF ok(2) _ vs]
    by (auto simp: newRuntimeStateWithComponents_def sc)
  let ?s = "s\<lparr>rt_maintain := (case store of RedisBacked rs \<Rightarrow> Some rs | MemoryBacked _ \<Rightarrow> None)\<rparr>"
  obtain w2 where m: "Maintain ops ?s w1 = (None, w2)"
    using Maintain_healthy [OF h, of ops ?s] by (cases "Maintain ops ?s w1") auto
  have "newRuntimeState ops fails ?st ?lb ?sc (cf_stores config) w = (Inr ?s, w2)"
    using ty(1,2) c store(1) s(1) m by (cases ?need) (auto simp: newRuntimeState_def sb(3) normalizedStoreBackend_def Let_def)
  then show ?thesis using s store(2) sredis
    by (auto simp: lb scenario_constants split: runner_store.splits runner_schedule.splits)
qed

theorem runner_backends_agree_witness:
  "\<exists>s w'. newRuntimeState ref_ops False
      (storeSettingsFromEnv (pod_environ (\<lambda>_. ''load'') (runnerEnvironment shop_scenario ''r:6379''))) ''redis''
      (rc_schedule (cf_rate (scenarioRunnerConfig shop_scenario))) [] fresh_world = (Inr s, w')
    \<and> rt_redis s \<and> rt_limiter s = Some (RedisLimited ''kurama:v2:rate-limit:load:shop:u1'')"
proof -
  let ?ks = "\<lparr>sc_namespace = ''load'', sc_scenario = ''shop'', sc_uid = ''u1''\<rparr>"
  have n: "ts_namespace shop_scenario = ''load''" "ts_name shop_scenario = ''shop''" "ts_uid shop_scenario = ''u1''"
    "storageBackend shop_scenario = ''redis''" "rateLimiterBackend shop_scenario = ''redis''"
    "cf_stores (scenarioRunnerConfig shop_scenario) = []"
    by (simp_all add: shop_scenario_def storageBackend_def rateLimiterBackend_def scenario_constants
        scenarioRunnerConfig_def Let_def)
  have h: "fst (rw_tape fresh_world i) = None" "cn_faults (rw_conn fresh_world) i = Delivered" for i
    by (simp_all add: fresh_world_def)
  have k: "RateLimitKey ?ks = ''kurama:v2:rate-limit:load:shop:u1''"
    by (simp add: RateLimitKey_def kindPrefix_def key_constants)
  have r: "requiresRedis shop_scenario" by (simp add: requiresRedis_def n scenario_constants)
  have lb: "normalizedRateLimiterBackend (rc_limiter (cf_rate (scenarioRunnerConfig shop_scenario))) b = ''redis''" for b
    using same_limiter_backend [of shop_scenario b] n(5) by simp
  show ?thesis
    using runner_backends_agree [OF shop_accepted, of "''r:6379''" ?ks _ "\<lambda>_. ''load''" "''n''" "''i''" "''''" "''''" fresh_world ref_ops False,
        OF _ _ refl _ h] quick_scope r k
    unfolding n lb by (auto simp: deployment_environment scenario_constants)
qed

text \<open>The Pod is ready exactly if Redis answers where it is used, and every credential file can be read.\<close>

lemma ready_exactly:
  assumes "Ready ops files s w = (err, w')"
  shows "ready err = 200 \<longleftrightarrow>
    (rt_redis s \<longrightarrow> fst (pingRedis w)) \<and> fst (rw_tape (if rt_redis s then snd (pingRedis w) else w) 0) = None
    \<and> CheckSecretHeaderFiles ops files (rt_secret_files s) = None"
  using assms by (auto simp: Ready_def ready_def split: prod.splits bool.splits option.splits if_splits)

end
