(* ===== verification/Lifecycle.thy ===== *)
theory Lifecycle
  imports Scenario_Safety
begin

section \<open>The life of one scenario\<close>

text \<open>
  The controller, the API server, the runner Pods and the users as one system, for the life of one
  scenario (one UID). The controller's part is \<open>Reconcile\<close> itself; the API server and Redis are
  described by what Kubernetes and Redis document of the calls the controller makes.
  Before every call any list of events of the other parties may happen, and every call may fail
  before or after it took effect, so a reconciliation is interleaved with its environment and may
  be cut off at any point. Reads see the current state: a stale cache is not modelled.

  The slots of the system are the objects at the scenario's own names. \<open>sy_pods\<close> says whether a runner
  Pod that uses Redis is running, \<open>sy_foreground\<close> that the Deployment waits for the end of
  its Pods before it goes. \<open>sy_deleted_at\<close> remembers when the deletion was requested, and
  \<open>sy_background\<close> that the Deployment object was removed while such Pods were still running.
\<close>

record system =
  sy_scenario :: "traffic_scenario option"
  sy_config_map :: "config_map option"
  sy_deployment :: "deployment option"
  sy_foreground :: bool
  sy_pods :: bool
  sy_keys :: "string list"
  sy_now :: int
  sy_deleted_at :: "int option"
  sy_background :: bool

definition uses_redis :: "deployment \<Rightarrow> bool" where
  "uses_redis d \<longleftrightarrow> list_ex (\<lambda>c. ct_name c = ''runner''
     \<and> list_ex (\<lambda>e. ev_name e = RedisAddressEnv) (ct_env c)) (pd_containers (dp_pod d))"

subsection \<open>The other parties\<close>

text \<open>The keys a runner writes, and the events that happen around the controller.\<close>

datatype runner_key = StoreKey string | LimiterKey | ScheduleKey int int int

fun key_of :: "scope \<Rightarrow> runner_key \<Rightarrow> string" where
  "key_of s (StoreKey store) = storeKey s store"
| "key_of s LimiterKey = RateLimitKey s"
| "key_of s (ScheduleKey a b w) = scheduleKey s a b w"

datatype event =
    EditSpec traffic_scenario_spec
  | RequestDeletion
  | PodsStart
  | PodsStop
  | ForegroundDone
  | CollectGarbage
  | RunnerWrites runner_key
  | KeyExpires string
  | TimePasses nat

text \<open>An event whose condition does not hold has no effect.\<close>

fun happen :: "scope \<Rightarrow> event \<Rightarrow> system \<Rightarrow> system" where
  "happen ks (EditSpec spec) s =
     s\<lparr>sy_scenario := map_option (\<lambda>sc. sc\<lparr>ts_spec := spec, ts_generation := ts_generation sc + 1\<rparr>) (sy_scenario s)\<rparr>"
| "happen ks RequestDeletion s =
     (case sy_scenario s of
        None \<Rightarrow> s
      | Some sc \<Rightarrow>
         if ts_deletion_timestamp sc \<noteq> None then s
         else s\<lparr>sy_deleted_at := Some (sy_now s),
                sy_scenario := (if ts_finalizers sc = [] then None
                                else Some (sc\<lparr>ts_deletion_timestamp := Some (sy_now s)\<rparr>))\<rparr>)"
| "happen ks PodsStart s =
     (case sy_deployment s of
        None \<Rightarrow> s
      | Some d \<Rightarrow> if uses_redis d \<and> \<not> sy_foreground s then s\<lparr>sy_pods := True\<rparr> else s)"
| "happen ks PodsStop s = s\<lparr>sy_pods := False\<rparr>"
| "happen ks ForegroundDone s =
     (if sy_foreground s \<and> \<not> sy_pods s then s\<lparr>sy_deployment := None, sy_foreground := False\<rparr> else s)"
| "happen ks CollectGarbage s =
     (if sy_scenario s = None
      then s\<lparr>sy_config_map := None, sy_deployment := None, sy_foreground := False,
             sy_background := sy_background s \<or> sy_pods s\<rparr>
      else s)"
| "happen ks (RunnerWrites k) s = (if sy_pods s then s\<lparr>sy_keys := key_of ks k # sy_keys s\<rparr> else s)"
| "happen ks (KeyExpires k) s = s\<lparr>sy_keys := filter (\<lambda>x. x \<noteq> k) (sy_keys s)\<rparr>"
| "happen ks (TimePasses n) s = s\<lparr>sy_now := sy_now s + int n\<rparr>"

subsection \<open>Calls\<close>

datatype outcome = Answered | Unsent | Unanswered

type_synonym world = "system \<times> (nat \<Rightarrow> event list \<times> outcome)"

definition remote :: "scope \<Rightarrow> (system \<Rightarrow> 'r \<times> system) \<Rightarrow> 'r \<Rightarrow> world \<Rightarrow> 'r \<times> world" where
  "remote ks call failure w =
     (let (events, outcome) = snd w 0;
          s = fold (happen ks) events (fst w);
          tape = (\<lambda>i. snd w (Suc i))
      in case outcome of
           Answered \<Rightarrow> (case call s of (r, s') \<Rightarrow> (r, (s', tape)))
         | Unsent \<Rightarrow> (failure, (s, tape))
         | Unanswered \<Rightarrow> (case call s of (r, s') \<Rightarrow> (failure, (s', tape))))"

text \<open>
  An update replaces the whole object and is refused when the object has changed since it was
  read; the object goes when its deletion was requested and no finalizer is left.
\<close>

definition update_scenario_call :: "traffic_scenario \<Rightarrow> system \<Rightarrow> (kube_error + traffic_scenario) \<times> system" where
  "update_scenario_call sc s =
     (case sy_scenario s of
        None \<Rightarrow> (Inl NotFound, s)
      | Some current \<Rightarrow>
         if current\<lparr>ts_finalizers := ts_finalizers sc\<rparr> \<noteq> sc then (Inl (KubeError ''Conflict''), s)
         else (Inr sc, s\<lparr>sy_scenario :=
                (if ts_deletion_timestamp sc \<noteq> None \<and> ts_finalizers sc = [] then None else Some sc)\<rparr>))"

definition patch_status_call :: "traffic_scenario \<Rightarrow> system \<Rightarrow> kube_error option \<times> system" where
  "patch_status_call sc s =
     (case sy_scenario s of
        None \<Rightarrow> (Some NotFound, s)
      | Some current \<Rightarrow> (None, s\<lparr>sy_scenario := Some (current\<lparr>ts_status := ts_status sc\<rparr>)\<rparr>))"

definition slot_get :: "string \<times> string \<Rightarrow> 'a option \<Rightarrow> string \<times> string \<Rightarrow> kube_error + 'a" where
  "slot_get own slot k = (if k \<noteq> own then Inl NotFound else case slot of None \<Rightarrow> Inl NotFound | Some x \<Rightarrow> Inr x)"

definition create_deployment_call :: "deployment \<Rightarrow> system \<Rightarrow> kube_error option \<times> system" where
  "create_deployment_call d s =
     (if sy_deployment s \<noteq> None then (Some (KubeError ''AlreadyExists''), s)
      else (None, s\<lparr>sy_deployment := Some d, sy_foreground := False\<rparr>))"

definition patch_deployment_call :: "deployment \<Rightarrow> system \<Rightarrow> kube_error option \<times> system" where
  "patch_deployment_call d s =
     (if sy_deployment s = None then (Some NotFound, s) else (None, s\<lparr>sy_deployment := Some d\<rparr>))"

text \<open>
  A foreground deletion leaves the Deployment until its Pods are gone. Any other deletion is in the
  background: the Deployment is gone at once, and its Pods are stopped afterwards.
\<close>

definition delete_deployment_call :: "bool \<Rightarrow> system \<Rightarrow> kube_error option \<times> system" where
  "delete_deployment_call foreground s =
     (if sy_deployment s = None then (Some NotFound, s)
      else if foreground then (None, s\<lparr>sy_foreground := True\<rparr>)
      else (None, s\<lparr>sy_deployment := None, sy_foreground := False,
                    sy_background := sy_background s \<or> sy_pods s\<rparr>))"

definition unavailable :: kube_error where "unavailable = KubeError ''Unavailable''"

text \<open>\<open>own\<close> is the key of the ConfigMap and the Deployment, \<open>matches\<close> the server's \<open>MATCH\<close>.\<close>

definition system_api ::
  "(string \<Rightarrow> string \<Rightarrow> bool) \<Rightarrow> scope \<Rightarrow> string \<times> string \<Rightarrow> world kube_api" where
  "system_api matches ks own =
     \<lparr>ka_get_scenario = (\<lambda>k. remote ks (\<lambda>s. (slot_get (sc_namespace ks, sc_scenario ks) (sy_scenario s) k, s)) (Inl unavailable)),
      ka_update_scenario = (\<lambda>sc. remote ks (update_scenario_call sc) (Inl unavailable)),
      ka_patch_status = (\<lambda>_ sc. remote ks (patch_status_call sc) (Some unavailable)),
      ka_get_config_map = (\<lambda>k. remote ks (\<lambda>s. (slot_get own (sy_config_map s) k, s)) (Inl unavailable)),
      ka_create_config_map = (\<lambda>m. remote ks (\<lambda>s. (None, s\<lparr>sy_config_map := Some m\<rparr>)) (Some unavailable)),
      ka_patch_config_map = (\<lambda>_ m. remote ks (\<lambda>s. (None, s\<lparr>sy_config_map := Some m\<rparr>)) (Some unavailable)),
      ka_get_deployment = (\<lambda>k. remote ks (\<lambda>s. (slot_get own (sy_deployment s) k, s)) (Inl unavailable)),
      ka_create_deployment = (\<lambda>d. remote ks (create_deployment_call d) (Some unavailable)),
      ka_patch_deployment = (\<lambda>_ d. remote ks (patch_deployment_call d) (Some unavailable)),
      ka_delete_deployment = (\<lambda>f _. remote ks (delete_deployment_call f) (Some unavailable)),
      ka_event = (\<lambda>_ w. w),
      ka_observe_abandoned = (\<lambda>w. w),
      ka_now = (\<lambda>w. (sy_now (fst w), w)),
      ka_scan = (\<lambda>p. remote ks (\<lambda>s. ((filter (matches p) (sy_keys s), None), s)) ([], Some ''connection'')),
      ka_del = (\<lambda>keys. remote ks (\<lambda>s. (None, s\<lparr>sy_keys := filter (\<lambda>k. k \<notin> set keys) (sy_keys s)\<rparr>))
                 (Some ''connection''))\<rparr>"

text \<open>The states the system reaches from a scenario that was just created.\<close>

definition created :: "traffic_scenario \<Rightarrow> string list \<Rightarrow> int \<Rightarrow> system" where
  "created sc keys now =
     \<lparr>sy_scenario = Some sc, sy_config_map = None, sy_deployment = None, sy_foreground = False, sy_pods = False,
      sy_keys = keys, sy_now = now, sy_deleted_at = None, sy_background = False\<rparr>"

definition scope_of :: "traffic_scenario \<Rightarrow> scope" where
  "scope_of sc = \<lparr>sc_namespace = ts_namespace sc, sc_scenario = ts_name sc, sc_uid = ts_uid sc\<rparr>"

inductive reached ::
  "go_lib \<Rightarrow> name_checks \<Rightarrow> kube_lib \<Rightarrow> reconciler \<Rightarrow> (string \<Rightarrow> string \<Rightarrow> bool) \<Rightarrow> traffic_scenario
    \<Rightarrow> string list \<Rightarrow> int \<Rightarrow> system \<Rightarrow> bool"
  for golib checks lib r matches sc keys now where
  start: "reached golib checks lib r matches sc keys now (created sc keys now)"
| event: "reached golib checks lib r matches sc keys now s
    \<Longrightarrow> reached golib checks lib r matches sc keys now (happen (scope_of sc) e s)"
| reconcile: "reached golib checks lib r matches sc keys now s
    \<Longrightarrow> Reconcile golib checks lib r (system_api matches (scope_of sc) (own_key sc)) (ts_namespace sc, ts_name sc)
          (s, tape) = (res, (s', tape'))
    \<Longrightarrow> reached golib checks lib r matches sc keys now s'"

subsection \<open>Rules for interleaved calls\<close>

text \<open>
  A predicate is stable if no event of the environment ends it; \<open>holds P f Q\<close> says that
  \<open>f\<close>, started where \<open>P\<close> holds, ends where \<open>Q\<close> holds of its result and state.
\<close>

definition stable :: "scope \<Rightarrow> (system \<Rightarrow> bool) \<Rightarrow> bool" where
  "stable ks P \<longleftrightarrow> (\<forall>e s. P s \<longrightarrow> P (happen ks e s))"

definition holds :: "(system \<Rightarrow> bool) \<Rightarrow> (world \<Rightarrow> 'r \<times> world) \<Rightarrow> ('r \<Rightarrow> system \<Rightarrow> bool) \<Rightarrow> bool" where
  "holds P f Q \<longleftrightarrow> (\<forall>w r w'. P (fst w) \<longrightarrow> f w = (r, w') \<longrightarrow> Q r (fst w'))"

abbreviation keeps :: "(system \<Rightarrow> bool) \<Rightarrow> (world \<Rightarrow> 'r \<times> world) \<Rightarrow> bool" where
  "keeps P f \<equiv> holds P f (\<lambda>_. P)"

lemma stable_events: "stable ks P \<Longrightarrow> P s \<Longrightarrow> P (fold (happen ks) es s)"
  by (induction es arbitrary: s) (auto simp: stable_def)

lemma holds_remote:
  assumes "stable ks P"
    and "\<And>s r s'. P s \<Longrightarrow> call s = (r, s') \<Longrightarrow> Q r s' \<and> Q failure s'"
    and "\<And>s. P s \<Longrightarrow> Q failure s"
  shows "holds P (remote ks call failure) Q"
  using assms(2,3) stable_events [OF assms(1)]
  by (fastforce simp: holds_def remote_def Let_def split: prod.splits outcome.splits)

lemma keeps_remote:
  "stable ks P \<Longrightarrow> (\<And>s. P s \<Longrightarrow> P (snd (call s))) \<Longrightarrow> keeps P (remote ks call failure)"
  by (rule holds_remote) (simp_all, metis snd_conv)

named_theorems holds_rules \<open>the syntax-directed rules for holds\<close>

lemma holds_then:
  assumes "holds P f R" and "\<And>r. holds (R r) (g r) Q"
  shows "holds P (\<lambda>w. case f w of (r, w') \<Rightarrow> g r w') Q"
  unfolding holds_def
proof (intro allI impI)
  fix w r w'
  assume "P (fst w)" and g: "(case f w of (r, w') \<Rightarrow> g r w') = (r, w')"
  obtain x v where f: "f w = (x, v)" by (cases "f w")
  then have "R x (fst v)" using assms(1) \<open>P (fst w)\<close> unfolding holds_def by blast
  moreover have "g x v = (r, w')" using f g by simp
  ultimately show "Q r (fst w')" using assms(2) unfolding holds_def by blast
qed

lemmas keeps_then [holds_rules] = holds_then [where R = "\<lambda>_. P" and P = P for P]

lemma holds_pure [holds_rules]: "(\<And>s. P s \<Longrightarrow> Q r s) \<Longrightarrow> holds P (\<lambda>w. (r, w)) Q"
  by (auto simp: holds_def)

lemma holds_if [holds_rules]:
  "(c \<Longrightarrow> holds P f Q) \<Longrightarrow> (\<not> c \<Longrightarrow> holds P g Q) \<Longrightarrow> holds P (\<lambda>w. if c then f w else g w) Q"
  by (cases c) simp_all

lemma holds_sum [holds_rules]:
  "(\<And>e. r = Inl e \<Longrightarrow> holds P (f e) Q) \<Longrightarrow> (\<And>x. r = Inr x \<Longrightarrow> holds P (g x) Q)
    \<Longrightarrow> holds P (\<lambda>w. case r of Inl e \<Rightarrow> f e w | Inr x \<Rightarrow> g x w) Q"
  by (cases r) simp_all

lemma holds_option [holds_rules]:
  "(r = None \<Longrightarrow> holds P f Q) \<Longrightarrow> (\<And>x. r = Some x \<Longrightarrow> holds P (g x) Q)
    \<Longrightarrow> holds P (\<lambda>w. case r of None \<Rightarrow> f w | Some x \<Rightarrow> g x w) Q"
  by (cases r) simp_all

lemma holds_bool [holds_rules]:
  "(r \<Longrightarrow> holds P f Q) \<Longrightarrow> (\<not> r \<Longrightarrow> holds P g Q)
    \<Longrightarrow> holds P (\<lambda>w. case r of True \<Rightarrow> f w | False \<Rightarrow> g w) Q"
  by (cases r) simp_all

lemma holds_pair [holds_rules]:
  "(\<And>a b. r = (a, b) \<Longrightarrow> holds P (f a b) Q) \<Longrightarrow> holds P (\<lambda>w. case r of (a, b) \<Rightarrow> f a b w) Q"
  by (cases r) simp

lemma holds_weaken: "holds P f Q \<Longrightarrow> (\<And>s. P' s \<Longrightarrow> P s) \<Longrightarrow> (\<And>r s. Q r s \<Longrightarrow> Q' r s) \<Longrightarrow> holds P' f Q'"
  unfolding holds_def by blast

subsection \<open>The invariant\<close>

definition clean :: "scope \<Rightarrow> system \<Rightarrow> bool" where
  "clean ks s \<longleftrightarrow> \<not> sy_pods s \<and> (\<forall>d. sy_deployment s = Some d \<longrightarrow> \<not> uses_redis d)
     \<and> (\<forall>k \<in> set (sy_keys s). \<not> owns ks k)"

definition guarded :: "system \<Rightarrow> bool" where
  "guarded s \<longleftrightarrow> (\<exists>sc. sy_scenario s = Some sc \<and> redisCleanupFinalizer \<in> set (ts_finalizers sc))"

definition expired :: "system \<Rightarrow> bool" where
  "expired s \<longleftrightarrow> (\<exists>t. sy_deleted_at s = Some t \<and> t + redisCleanupGracePeriod \<le> sy_now s)"

definition excused :: "system \<Rightarrow> bool" where
  "excused s \<longleftrightarrow> guarded s \<or> sy_background s \<or> expired s"

definition system_inv :: "scope \<Rightarrow> system \<Rightarrow> bool" where
  "system_inv ks s \<longleftrightarrow>
     (\<forall>sc. sy_scenario s = Some sc \<longrightarrow> scope_of sc = ks \<and> ts_deletion_timestamp sc = sy_deleted_at s)
     \<and> (sy_pods s \<longrightarrow> sy_deployment s \<noteq> None \<or> sy_background s)
     \<and> (clean ks s \<or> excused s)"

lemma key_of_owned [simp, intro]: "owns ks (key_of ks k)"
  by (cases k) (simp_all add: owns.intros)

lemma happen_excused: "excused s \<Longrightarrow> system_inv ks s \<Longrightarrow> excused (happen ks e s)"
  by (cases e) (auto simp: excused_def guarded_def expired_def system_inv_def split: option.splits)

lemma happen_inv: "system_inv ks s \<Longrightarrow> system_inv ks (happen ks e s)"
proof -
  assume i: "system_inv ks s"
  have "clean ks (happen ks e s) \<or> excused (happen ks e s)"
  proof (cases "excused s")
    case False
    then have "clean ks s" using i by (simp add: system_inv_def)
    then show ?thesis by (cases e) (auto simp: clean_def split: option.splits)
  qed (simp add: happen_excused i)
  then show ?thesis using i
    by (cases e) (auto simp: system_inv_def scope_of_def split: option.splits)
qed

definition inv_if :: "scope \<Rightarrow> bool \<Rightarrow> system \<Rightarrow> bool" where
  "inv_if ks a s \<longleftrightarrow> system_inv ks s \<and> (a \<longrightarrow> excused s)"

lemma stable_inv_if [simp, intro]: "stable ks (inv_if ks a)"
  by (auto simp: stable_def inv_if_def happen_inv happen_excused)

subsection \<open>An active reconciliation keeps the invariant\<close>

lemma system_inv_slots:
  "system_inv ks (s\<lparr>sy_config_map := m\<rparr>) = system_inv ks s" "excused (s\<lparr>sy_config_map := m\<rparr>) = excused s"
  "excused (s\<lparr>sy_deployment := d\<rparr>) = excused s" "excused (s\<lparr>sy_foreground := f\<rparr>) = excused s"
  by (simp_all add: system_inv_def clean_def excused_def guarded_def expired_def)

lemma inv_status:
  "inv_if ks a s \<Longrightarrow> sy_scenario s = Some sc \<Longrightarrow> inv_if ks a (s\<lparr>sy_scenario := Some (sc\<lparr>ts_status := st\<rparr>)\<rparr>)"
  by (auto simp: inv_if_def system_inv_def clean_def excused_def guarded_def expired_def scope_of_def)

lemma inv_deployment:
  "inv_if ks a s \<Longrightarrow> (uses_redis d \<Longrightarrow> a) \<Longrightarrow> inv_if ks a (s\<lparr>sy_deployment := Some d\<rparr>)"
  "inv_if ks a s \<Longrightarrow> (uses_redis d \<Longrightarrow> a) \<Longrightarrow> inv_if ks a (s\<lparr>sy_deployment := Some d, sy_foreground := f\<rparr>)"
  by (auto simp: inv_if_def system_inv_def clean_def excused_def guarded_def expired_def)

lemma inv_delete: "inv_if ks a s \<Longrightarrow> inv_if ks a (snd (delete_deployment_call f s))"
  by (auto simp: delete_deployment_call_def inv_if_def system_inv_def clean_def excused_def guarded_def expired_def)

lemma api_keeps [holds_rules]:
  "keeps (inv_if ks a) (ka_patch_status (system_api matches ks own) old new)"
  "keeps (inv_if ks a) (ka_get_config_map (system_api matches ks own) k)"
  "keeps (inv_if ks a) (ka_create_config_map (system_api matches ks own) m)"
  "keeps (inv_if ks a) (ka_patch_config_map (system_api matches ks own) m m')"
  "keeps (inv_if ks a) (ka_get_deployment (system_api matches ks own) k)"
  "keeps (inv_if ks a) (ka_delete_deployment (system_api matches ks own) f d)"
  by (auto simp: system_api_def patch_status_call_def inv_status inv_delete
      intro!: keeps_remote split: option.splits)
    (simp_all add: inv_if_def system_inv_slots)

lemma api_keeps_deployment:
  "(uses_redis d \<Longrightarrow> a) \<Longrightarrow> keeps (inv_if ks a) (ka_create_deployment (system_api matches ks own) d)"
  "(uses_redis d \<Longrightarrow> a) \<Longrightarrow> keeps (inv_if ks a) (ka_patch_deployment (system_api matches ks own) e d)"
  by (auto simp: system_api_def create_deployment_call_def patch_deployment_call_def inv_deployment
      intro!: keeps_remote)

lemma status_keeps [holds_rules]:
  "keeps (inv_if ks a) (updateScenarioStatus lib (system_api matches ks own) scenario st)"
  unfolding updateScenarioStatus_def [abs_def] Let_def by (intro holds_rules)

lemma result_keeps [holds_rules]:
  "keeps (inv_if ks a) (reconcileResultForState lib (system_api matches ks own) scenario st)"
  "keeps (inv_if ks a) (failed_with lib (system_api matches ks own) scenario reason cause retry)"
  unfolding reconcileResultForState_def [abs_def] failed_with_def [abs_def] Let_def
  by (intro holds_rules; assumption)+

lemma config_map_keeps [holds_rules]:
  "keeps (inv_if ks a) (applyConfigMap lib (system_api matches ks own) scenario desired)"
  unfolding applyConfigMap_def [abs_def] Let_def by (intro holds_rules; assumption)

lemma suspended_keeps [holds_rules]:
  "keeps (inv_if ks a) (reconcile_suspended lib (system_api matches ks own) scenario name)"
  unfolding reconcile_suspended_def [abs_def] Let_def by (intro holds_rules; assumption)

lemma report_keeps [holds_rules]:
  "keeps (inv_if ks a) (report_deployment lib (system_api matches ks own) scenario name)"
  unfolding report_deployment_def [abs_def] Let_def by (intro holds_rules; assumption)

text \<open>The Deployment read from the server may already use Redis; then the scenario is excused.\<close>

lemma get_deployment_excuses:
  "holds (inv_if ks a) (ka_get_deployment (system_api matches ks own) k)
     (\<lambda>r. inv_if ks (a \<or> (\<exists>d. r = Inr d \<and> uses_redis d)))"
proof -
  have "keeps (inv_if ks a) (ka_get_deployment (system_api matches ks own) k)" by (rule api_keeps)
  have "holds (inv_if ks a) (remote ks (\<lambda>s. (slot_get own (sy_deployment s) k, s)) (Inl unavailable))
     (\<lambda>r. inv_if ks (a \<or> (\<exists>d. r = Inr d \<and> uses_redis d)))"
    by (rule holds_remote [OF stable_inv_if])
      (auto simp: slot_get_def inv_if_def system_inv_def clean_def split: option.splits if_splits)
  then show ?thesis by (simp add: system_api_def)
qed

lemma list_ex_updated:
  assumes "update_first Q f xs = Some ys" and "list_ex P ys" and "\<And>x. Q x \<Longrightarrow> P (f x) \<Longrightarrow> R"
  shows "list_ex P xs \<or> R"
  using assms(1,2)
proof (induction xs arbitrary: ys)
  case (Cons x xs)
  then show ?case using assms(3) [of x] by (auto split: if_splits)
qed simp

lemma uses_redis_managed:
  assumes "pd_containers (dp_pod desired) = [c]" and "uses_redis (applyManagedDeploymentFields existing desired)"
  shows "uses_redis existing \<or> uses_redis desired"
proof -
  let ?P = "\<lambda>c. ct_name c = ''runner'' \<and> list_ex (\<lambda>e. ev_name e = RedisAddressEnv) (ct_env c)"
  let ?Q = "\<lambda>x. ct_name x = ct_name c" and ?xs = "pd_containers (dp_pod existing)"
  have p: "list_ex ?P (update_or_append ?Q (managed_container c) c ?xs)"
    using assms by (simp add: uses_redis_def applyManagedDeploymentFields_def managed_pod_spec_def
        applyManagedRunnerContainer_def)
  have "list_ex ?P ?xs \<or> ?P c"
  proof (cases "update_first ?Q (managed_container c) ?xs")
    case None
    show ?thesis using p unfolding update_or_append_def None by auto
  next
    case (Some ys)
    then show ?thesis using list_ex_updated [OF Some, of ?P "?P c"] p
      by (simp add: update_or_append_def managed_container_def)
  qed
  then show ?thesis by (simp add: uses_redis_def assms(1))
qed

lemma desired_containers:
  "\<exists>c. pd_containers (dp_pod (desiredDeployment scenario name i p redisAddress config)) = [c]
    \<and> ct_name c = ''runner'' \<and> ct_env c = runnerEnvironment scenario redisAddress"
  by (auto simp: desiredDeployment_def desired_pod_spec_def add_secret_volume_def base_pod_spec_def
      runner_container_def Let_def split: option.splits)

lemma uses_redis_desired:
  "uses_redis (desiredDeployment scenario name i p redisAddress config) \<longleftrightarrow> requiresRedis scenario"
proof -
  obtain c where "pd_containers (dp_pod (desiredDeployment scenario name i p redisAddress config)) = [c]"
    "ct_name c = ''runner''" "ct_env c = runnerEnvironment scenario redisAddress"
    using desired_containers by blast
  then show ?thesis
    by (simp add: uses_redis_def runnerEnvironment_def RedisAddressEnv_def StoreBackendEnv_def Let_def)
qed

lemma uses_redis_meta [simp]: "uses_redis (d\<lparr>dp_meta := m\<rparr>) = uses_redis d"
  by (simp add: uses_redis_def)

lemma deployment_keeps:
  assumes "uses_redis desired \<Longrightarrow> a" and "pd_containers (dp_pod desired) = [c]"
  shows "keeps (inv_if ks a) (applyDeployment lib (system_api matches ks own) scenario desired)"
proof -
  let ?api = "system_api matches ks own"
  have w: "holds (inv_if ks (a \<or> b)) f (\<lambda>_. inv_if ks (a \<or> b)) \<Longrightarrow> holds (inv_if ks (a \<or> b)) f (\<lambda>_. inv_if ks a)" for b f
    by (erule holds_weaken) (auto simp: inv_if_def)
  show ?thesis
    unfolding applyDeployment_def [abs_def] Let_def
    apply (rule holds_then [OF get_deployment_excuses])
    apply (rule holds_sum)
     apply (rule w, intro holds_rules api_keeps_deployment; (assumption | use assms(1) in simp))
    apply (rule w, intro holds_rules api_keeps_deployment; (assumption | use assms uses_redis_managed in blast))
    done
qed

lemma workload_keeps:
  "keeps (inv_if ks (requiresRedis scenario)) (apply_workload lib r (system_api matches ks own) scenario name)"
proof -
  have "keeps (inv_if ks (requiresRedis scenario)) (applyDeployment lib (system_api matches ks own) scenario
      (desiredDeployment scenario name i p redisAddress config))" for i p redisAddress config
    using desired_containers [of scenario name i p redisAddress config]
    by (auto simp: uses_redis_desired intro: deployment_keeps)
  note d [holds_rules] = this
  show ?thesis unfolding apply_workload_def [abs_def] Let_def
    by (intro holds_rules d; assumption)
qed

lemma active_keeps:
  "keeps (inv_if ks (requiresRedis scenario)) (reconcile_active golib checks lib r (system_api matches ks own) scenario)"
  unfolding reconcile_active_def [abs_def] Let_def by (intro holds_rules workload_keeps; assumption)

text \<open>What the finalizer functions of the library are relied on for.\<close>

definition finalizer_laws :: "kube_lib \<Rightarrow> bool" where
  "finalizer_laws lib \<longleftrightarrow> (\<forall>fs f. kl_has_finalizer lib fs f \<longleftrightarrow> f \<in> set fs)
     \<and> (\<forall>fs f. set (kl_add_finalizer lib fs f) = insert f (set fs))"

text \<open>The scenario that was read: it is the one of the scope, and its finalizer is still there.\<close>

definition read_inv :: "scope \<Rightarrow> traffic_scenario \<Rightarrow> system \<Rightarrow> bool" where
  "read_inv ks sc s \<longleftrightarrow> scope_of sc = ks
     \<and> inv_if ks (redisCleanupFinalizer \<in> set (ts_finalizers sc)) s
     \<and> (\<forall>t. ts_deletion_timestamp sc = Some t \<longrightarrow> sy_deleted_at s = Some t)"

lemma stable_read_inv [simp, intro]: "stable ks (read_inv ks sc)"
proof -
  have "sy_deleted_at (happen ks e s) = Some t" if "system_inv ks s" "sy_deleted_at s = Some t" for e s t
    using that by (cases e) (auto simp: system_inv_def split: option.splits)
  moreover have "inv_if ks a (happen ks e s)" if "inv_if ks a s" for a e s
    using stable_inv_if that unfolding stable_def by blast
  ultimately show ?thesis unfolding stable_def read_inv_def inv_if_def by blast
qed

lemma read_invI: "system_inv ks s \<Longrightarrow> sy_scenario s = Some sc \<Longrightarrow> read_inv ks sc s"
  unfolding read_inv_def inv_if_def system_inv_def excused_def guarded_def by fastforce

lemma get_scenario_reads:
  "holds (system_inv ks) (ka_get_scenario (system_api matches ks own) k)
     (\<lambda>r s. case r of Inl e \<Rightarrow> system_inv ks s | Inr sc \<Rightarrow> read_inv ks sc s)"
proof -
  have st: "stable ks (system_inv ks)" by (simp add: stable_def happen_inv)
  have "holds (system_inv ks) (remote ks (\<lambda>s. (slot_get own' (sy_scenario s) k, s)) (Inl unavailable))
     (\<lambda>r s. case r of Inl e \<Rightarrow> system_inv ks s | Inr sc \<Rightarrow> read_inv ks sc s)" for own'
    by (rule holds_remote [OF st]) (auto simp: slot_get_def read_invI split: option.splits if_splits)
  then show ?thesis by (simp add: system_api_def)
qed

lemma update_call_cases:
  assumes "update_scenario_call sc s = (r, s')"
  obtains e where "r = Inl e" "s' = s"
  | current where "r = Inr sc" "sy_scenario s = Some current" "current\<lparr>ts_finalizers := ts_finalizers sc\<rparr> = sc"
      "s' = s\<lparr>sy_scenario := (if ts_deletion_timestamp sc \<noteq> None \<and> ts_finalizers sc = [] then None else Some sc)\<rparr>"
proof (cases "sy_scenario s")
  case None
  then have "r = Inl NotFound" "s' = s" using assms by (simp_all add: update_scenario_call_def)
  then show ?thesis by (rule that(1))
next
  case (Some current)
  show ?thesis
  proof (cases "current\<lparr>ts_finalizers := ts_finalizers sc\<rparr> = sc")
    case True
    from assms have "r = Inr sc"
      "s' = s\<lparr>sy_scenario := (if ts_deletion_timestamp sc \<noteq> None \<and> ts_finalizers sc = [] then None else Some sc)\<rparr>"
      unfolding update_scenario_call_def Some by (simp_all only: option.case True refl not_True_eq_False if_False prod.inject simp_thms)
    then show ?thesis by (rule that(2) [OF _ Some True])
  next
    case False
    from assms have "r = Inl (KubeError ''Conflict'')" "s' = s"
      unfolding update_scenario_call_def Some by (simp_all only: option.case False if_True not_False_eq_True prod.inject)
    then show ?thesis by (rule that(1))
  qed
qed

lemma replaced_scenario:
  assumes "system_inv ks s" and "sy_scenario s = Some current" and "current\<lparr>ts_finalizers := ts_finalizers sc\<rparr> = sc"
    and "new = None \<or> new = Some sc"
    and "clean ks s \<or> sy_background s \<or> expired s \<or> new = Some sc \<and> redisCleanupFinalizer \<in> set (ts_finalizers sc)"
  shows "system_inv ks (s\<lparr>sy_scenario := new\<rparr>)"
proof -
  have "ts_namespace current = ts_namespace sc" "ts_name current = ts_name sc" "ts_uid current = ts_uid sc"
    "ts_deletion_timestamp current = ts_deletion_timestamp sc"
    using arg_cong [OF assms(3), of ts_namespace] arg_cong [OF assms(3), of ts_name]
      arg_cong [OF assms(3), of ts_uid] arg_cong [OF assms(3), of ts_deletion_timestamp] by simp_all
  then have "scope_of sc = ks" "ts_deletion_timestamp sc = sy_deleted_at s"
    using assms(1,2) by (simp_all add: system_inv_def scope_of_def)
  then show ?thesis using assms(1,4,5)
    by (auto simp: system_inv_def clean_def excused_def guarded_def expired_def)
qed

lemma update_call:
  assumes "read_inv ks sc s" and "update_scenario_call (sc\<lparr>ts_finalizers := fs\<rparr>) s = (r, s')"
  shows "redisCleanupFinalizer \<in> set fs
      \<Longrightarrow> system_inv ks s' \<and> (\<forall>sc'. r = Inr sc' \<longrightarrow> sc' = sc\<lparr>ts_finalizers := fs\<rparr> \<and> excused s')"
    and "clean ks s \<or> sy_background s \<or> expired s \<Longrightarrow> system_inv ks s'"
proof -
  have i: "system_inv ks s" using assms(1) by (simp add: read_inv_def inv_if_def)
  let ?sc = "sc\<lparr>ts_finalizers := fs\<rparr>"
  show "system_inv ks s' \<and> (\<forall>sc'. r = Inr sc' \<longrightarrow> sc' = ?sc \<and> excused s')"
    if "redisCleanupFinalizer \<in> set fs"
    using assms(2)
  proof (cases rule: update_call_cases)
    case (2 current)
    have "fs \<noteq> []" using that by auto
    then have s': "s' = s\<lparr>sy_scenario := Some ?sc\<rparr>" using 2(4) by simp
    show ?thesis unfolding s' using 2(1) that replaced_scenario [OF i 2(2,3)]
      by (simp add: excused_def guarded_def)
  qed (simp add: i)
  show "system_inv ks s'" if "clean ks s \<or> sy_background s \<or> expired s"
    using assms(2)
  proof (cases rule: update_call_cases)
    case (2 current)
    show ?thesis unfolding 2(4) by (rule replaced_scenario [OF i 2(2,3)]) (use that in auto)
  qed (simp add: i)
qed

lemma read_inv_inv: "read_inv ks sc s \<Longrightarrow> system_inv ks s"
  by (simp add: read_inv_def inv_if_def)

lemma ensure_finalizer_holds:
  assumes "finalizer_laws lib" and "has_redis_client r"
  shows "holds (read_inv ks sc) (ensure_finalizer lib r (system_api matches ks own) sc)
    (\<lambda>res s. case res of Inl e \<Rightarrow> system_inv ks s | Inr sc' \<Rightarrow> inv_if ks (requiresRedis sc') s)"
proof -
  let ?fs = "kl_add_finalizer lib (ts_finalizers sc) redisCleanupFinalizer"
  have fs: "redisCleanupFinalizer \<in> set ?fs" using assms(1) by (simp add: finalizer_laws_def)
  let ?P = "\<lambda>res s. case res of Inl e \<Rightarrow> system_inv ks s | Inr sc' \<Rightarrow> inv_if ks (requiresRedis sc') s"
  have u: "?P res s' \<and> system_inv ks s'" if "read_inv ks sc s" "update_scenario_call (sc\<lparr>ts_finalizers := ?fs\<rparr>) s = (res, s')" for s res s'
    using update_call(1) [OF that fs] by (simp add: inv_if_def split: sum.splits)
  have h: "holds (read_inv ks sc) (ka_update_scenario (system_api matches ks own) (sc\<lparr>ts_finalizers := ?fs\<rparr>)) ?P"
    unfolding system_api_def kube_api.simps
    by (rule holds_remote [OF stable_read_inv]) (simp, rule u, assumption+, simp add: read_inv_inv)
  show ?thesis
  proof (cases "requiresRedis sc \<and> \<not> kl_has_finalizer lib (ts_finalizers sc) redisCleanupFinalizer")
    case True
    have "ensure_finalizer lib r (system_api matches ks own) sc = (\<lambda>w.
        case ka_update_scenario (system_api matches ks own) (sc\<lparr>ts_finalizers := ?fs\<rparr>) w of
          (res, w') \<Rightarrow> (case res of Inl e \<Rightarrow> Inl (UpdateFailed ''add Redis cleanup finalizer'' e) | Inr x \<Rightarrow> Inr x, w'))"
      using True assms(2) by (auto simp: ensure_finalizer_def fun_eq_iff split: prod.splits sum.splits)
    then show ?thesis by (auto intro!: holds_then [OF h] holds_pure split: sum.splits)
  next
    case False
    then show ?thesis using assms(1)
      by (auto simp: ensure_finalizer_def [abs_def] finalizer_laws_def read_inv_def inv_if_def intro!: holds_pure)
  qed
qed

subsection \<open>A deletion keeps the invariant\<close>

lemma stable_conj: "stable ks P \<Longrightarrow> (\<And>e s. P s \<Longrightarrow> Q s \<Longrightarrow> Q (happen ks e s)) \<Longrightarrow> stable ks (\<lambda>s. P s \<and> Q s)"
  by (simp add: stable_def)

lemma happen_expired: "system_inv ks s \<Longrightarrow> expired s \<Longrightarrow> expired (happen ks e s)"
  by (cases e) (auto simp: expired_def system_inv_def split: option.splits)

lemma happen_undeployed: "sy_deployment s = None \<Longrightarrow> sy_deployment (happen ks e s) = None"
  by (cases e) (auto split: option.splits)

lemma happen_background: "sy_background s \<Longrightarrow> sy_background (happen ks e s)"
  by (cases e) (auto split: option.splits)

lemma remove_holds:
  assumes "stable ks P" and "\<And>s. P s \<Longrightarrow> read_inv ks sc s \<and> (clean ks s \<or> sy_background s \<or> expired s)"
  shows "holds P (removeRedisCleanupFinalizer lib (system_api matches ks own) sc) (\<lambda>_. system_inv ks)"
proof -
  have "holds P (ka_update_scenario (system_api matches ks own) (sc\<lparr>ts_finalizers := fs\<rparr>)) (\<lambda>_. system_inv ks)" for fs
    unfolding system_api_def kube_api.simps
    by (rule holds_remote [OF assms(1)])
      (use assms(2) update_call(2) read_inv_inv in blast)+
  note h = holds_then [OF this]
  show ?thesis unfolding removeRedisCleanupFinalizer_def [abs_def]
    by (rule h) (intro holds_rules; assumption)
qed

lemma grace_holds:
  "holds (read_inv ks sc) (redisCleanupGracePeriodExpired (system_api matches ks own) sc)
     (\<lambda>b s. read_inv ks sc s \<and> (b \<longrightarrow> expired s))"
  unfolding redisCleanupGracePeriodExpired_def [abs_def] holds_def
  by (auto simp: system_api_def read_inv_def expired_def split: option.splits)

lemma abandon_holds:
  "holds (\<lambda>s. read_inv ks sc s \<and> expired s) (abandonCleanup lib r (system_api matches ks own) sc cause) (\<lambda>_. system_inv ks)"
proof -
  have "stable ks (\<lambda>s. read_inv ks sc s \<and> expired s)"
    by (rule stable_conj) (auto dest: read_inv_inv intro: happen_expired)
  note h = holds_then [OF remove_holds [OF this]]
  show ?thesis unfolding abandonCleanup_def [abs_def] Let_def system_api_def kube_api.simps if_cancel
    by (rule h [unfolded system_api_def kube_api.simps]) (auto intro!: holds_rules)
qed

lemma after_grace_holds:
  "holds (read_inv ks sc) (retryOrAbandonCleanup lib r (system_api matches ks own) sc cause) (\<lambda>_. system_inv ks)"
  "holds (read_inv ks sc) (wait_for_deletion lib r (system_api matches ks own) sc) (\<lambda>_. system_inv ks)"
  unfolding retryOrAbandonCleanup_def [abs_def] wait_for_deletion_def [abs_def]
  by (rule holds_then [OF grace_holds], rule holds_bool;
      simp add: holds_weaken [OF abandon_holds] holds_pure read_inv_inv)+

text \<open>
  No Deployment is left: from then on keys are only written by Pods that outlived it in the
  background, so the keys found by the scans stay all there are.
\<close>

definition undeployed :: "scope \<Rightarrow> traffic_scenario \<Rightarrow> system \<Rightarrow> bool" where
  "undeployed ks sc s \<longleftrightarrow> read_inv ks sc s \<and> sy_deployment s = None"

definition covered :: "(string \<Rightarrow> bool) \<Rightarrow> scope \<Rightarrow> traffic_scenario \<Rightarrow> system \<Rightarrow> bool" where
  "covered P ks sc s \<longleftrightarrow> undeployed ks sc s
     \<and> (sy_background s \<or> (\<forall>k \<in> set (sy_keys s). owns ks k \<longrightarrow> P k))"

lemma happen_read_inv: "read_inv ks sc s \<Longrightarrow> read_inv ks sc (happen ks e s)"
  using stable_read_inv unfolding stable_def by blast

lemma stable_undeployed: "stable ks (undeployed ks sc)"
  by (simp add: stable_def undeployed_def happen_read_inv happen_undeployed)

lemma undeployed_pods: "undeployed ks sc s \<Longrightarrow> sy_pods s \<Longrightarrow> sy_background s"
  by (auto simp: undeployed_def read_inv_def inv_if_def system_inv_def)

lemma stable_covered: "stable ks (covered P ks sc)"
proof -
  have "sy_background (happen ks e s) \<or> (\<forall>k \<in> set (sy_keys (happen ks e s)). owns ks k \<longrightarrow> P k)"
    if "undeployed ks sc s" "sy_background s \<or> (\<forall>k \<in> set (sy_keys s). owns ks k \<longrightarrow> P k)" for e s
  proof (cases "sy_background s")
    case False
    then have "\<not> sy_pods s" using undeployed_pods that(1) by blast
    then show ?thesis using that(2) by (cases e) (auto split: option.splits)
  qed (simp add: happen_background)
  then show ?thesis using stable_undeployed unfolding stable_def covered_def by blast
qed

lemma scan_holds:
  "holds (covered (\<lambda>k. (\<exists>p \<in> Q. matches p k) \<longrightarrow> k \<in> set keys) ks sc)
     (scan_patterns (system_api matches ks own) keys ps)
     (\<lambda>res s. case res of Inl e \<Rightarrow> read_inv ks sc s
        | Inr keys' \<Rightarrow> covered (\<lambda>k. (\<exists>p \<in> Q \<union> set ps. matches p k) \<longrightarrow> k \<in> set keys') ks sc s)"
proof (induction ps arbitrary: keys Q)
  case Nil
  then show ?case by (simp add: holds_pure)
next
  case (Cons p ps)
  let ?C = "\<lambda>Q keys. covered (\<lambda>k. (\<exists>p \<in> Q. matches p k) \<longrightarrow> k \<in> set keys) ks sc"
  have "holds (?C Q keys) (ka_scan (system_api matches ks own) p)
      (\<lambda>(found, err) s. if err = None then ?C (insert p Q) (keys @ found) s else read_inv ks sc s)"
    unfolding system_api_def kube_api.simps
    by (rule holds_remote [OF stable_covered]) (auto simp: covered_def undeployed_def)
  note h = holds_then [OF this]
  have c: "insert p Q \<union> set ps = Q \<union> set (p # ps)" by simp
  show ?case unfolding scan_patterns.simps
    apply (rule h)
    subgoal for r
      using Cons.IH [of "insert p Q" "keys @ fst r", unfolded c]
      by (cases r; cases "snd r") (simp_all add: holds_pure)
    done
qed

definition cleanable :: "(string \<Rightarrow> string \<Rightarrow> bool) \<Rightarrow> scope \<Rightarrow> bool" where
  "cleanable matches ks \<longleftrightarrow> redis_match matches
     \<and> glob_free (sc_namespace ks) \<and> glob_free (sc_scenario ks) \<and> glob_free (sc_uid ks)"

lemma keys_holds:
  assumes "cleanable matches ks" and "validateScope ks = None" and "rr_redis_client r = Connected"
  shows "holds (undeployed ks sc) (deleteScenarioRedisKeys r (system_api matches ks own) ks)
    (\<lambda>res s. case res of None \<Rightarrow> False | Some (Some e) \<Rightarrow> read_inv ks sc s
       | Some None \<Rightarrow> covered (\<lambda>_. False) ks sc s)"
proof -
  let ?ps = "CleanupPatterns ks" and ?api = "system_api matches ks own"
  have m: "\<exists>p \<in> set ?ps. matches p k" if "owns ks k" for k
    using redis_match.cleanup_owned assms(1,2) that unfolding cleanable_def by blast
  have s: "holds (undeployed ks sc) (scan_patterns ?api [] ?ps)
      (\<lambda>res s. case res of Inl e \<Rightarrow> read_inv ks sc s | Inr keys \<Rightarrow> covered (\<lambda>k. k \<in> set keys) ks sc s)"
    by (rule holds_weaken [OF scan_holds [of "{}" matches "[]"]])
      (auto simp: covered_def dest: m split: sum.splits)
  have d: "holds (covered (\<lambda>k. k \<in> set keys) ks sc) (ka_del ?api keys)
      (\<lambda>err s. if err = None then covered (\<lambda>_. False) ks sc s else read_inv ks sc s)" for keys
    unfolding system_api_def kube_api.simps
    by (rule holds_remote [OF stable_covered])
      (auto simp: covered_def undeployed_def read_inv_def inv_if_def system_inv_def clean_def excused_def
        guarded_def expired_def)
  have h: "has_redis_client r" "rr_redis_client r \<noteq> NilPointer"
    using assms(3) by (simp_all add: has_redis_client_def)
  show ?thesis unfolding deleteScenarioRedisKeys_def [abs_def]
    apply (rule holds_if, simp add: h(1))
    apply (rule holds_if, simp add: h(2))
    apply (rule holds_then [OF s])
    apply (rule holds_sum)
     apply (rule holds_pure, simp)
    apply (rule holds_if)
     apply (rule holds_pure, simp add: covered_def)
    apply (simp only: sum.case)
    apply (rule holds_then [OF d])
    apply (rule holds_option)
     apply (rule holds_pure, simp)
    apply (rule holds_pure, simp)
    done
qed

lemma cleanup_holds:
  assumes "cleanable matches ks" and "rr_redis_client r = Connected" and "scope_of sc = ks"
  shows "holds (undeployed ks sc) (cleanup_keys lib r (system_api matches ks own) sc) (\<lambda>_. system_inv ks)"
proof -
  have retry: "holds (undeployed ks sc) (retryOrAbandonCleanup lib r (system_api matches ks own) sc cause) (\<lambda>_. system_inv ks)" for cause
    by (rule holds_weaken [OF after_grace_holds(1)]) (simp_all add: undeployed_def)
  have remove: "holds (covered (\<lambda>_. False) ks sc) (removeRedisCleanupFinalizer lib (system_api matches ks own) sc)
      (\<lambda>_. system_inv ks)"
  proof (rule remove_holds [OF stable_covered])
    fix s assume "covered (\<lambda>_. False) ks sc s"
    then show "read_inv ks sc s \<and> (clean ks s \<or> sy_background s \<or> expired s)"
      using undeployed_pods [of ks sc s] by (auto simp: covered_def undeployed_def clean_def)
  qed
  have c: "has_redis_client r" using assms(2) by (simp add: has_redis_client_def)
  show ?thesis
  proof (cases "NewScope (ts_namespace sc) (ts_name sc) (ts_uid sc)")
    case (Inl e)
    then show ?thesis by (simp add: cleanup_keys_def [abs_def] c retry)
  next
    case (Inr keyScope)
    then have k: "keyScope = ks" "validateScope ks = None"
      using assms(3) by (auto simp: NewScope_Inr scope_of_def)
    show ?thesis unfolding cleanup_keys_def [abs_def] Inr sum.case k(1)
      apply (rule holds_if, simp add: c)
      apply (rule holds_then [OF keys_holds [OF assms(1) k(2) assms(2)]])
      apply (rule holds_option)
       apply (rule holds_pure, simp)
      apply (rule holds_option)
       apply (simp add: remove)
      apply (simp add: after_grace_holds(1))
      done
  qed
qed

lemma deletion_holds:
  assumes "cleanable matches ks" and "rr_redis_client r = Connected" and "own = (sc_namespace ks, runnerName (sc_scenario ks))"
  shows "holds (read_inv ks sc) (reconcileDeletion lib r (system_api matches ks own) sc) (\<lambda>_. system_inv ks)"
proof (cases "scope_of sc = ks")
  case False
  then show ?thesis by (simp add: holds_def read_inv_def)
next
  case True
  let ?api = "system_api matches ks own"
  have own: "own = (ts_namespace sc, runnerName (ts_name sc))"
    using True assms(3) by (auto simp: scope_of_def)
  have get: "holds (read_inv ks sc) (ka_get_deployment ?api (ts_namespace sc, runnerName (ts_name sc)))
      (\<lambda>res s. read_inv ks sc s \<and> (res = Inl NotFound \<longrightarrow> sy_deployment s = None))"
    unfolding system_api_def kube_api.simps own [symmetric]
    by (rule holds_remote [OF stable_read_inv]) (auto simp: slot_get_def unavailable_def split: option.splits)
  have del: "keeps (read_inv ks sc) (ka_delete_deployment ?api f d)" for f d
    unfolding system_api_def kube_api.simps
    by (rule keeps_remote [OF stable_read_inv])
      (auto simp: read_inv_def inv_delete, simp add: delete_deployment_call_def)
  note g = after_grace_holds
  show ?thesis unfolding reconcileDeletion_def [abs_def]
    apply (rule holds_if)
     apply (rule holds_pure, simp add: read_inv_inv)
    apply (rule holds_then [OF get])
    apply (rule holds_sum)
     apply (rule holds_if)
      apply (rule holds_weaken [OF g(1)]; simp)
     apply (rule holds_weaken [OF cleanup_holds [OF assms(1,2) True]]; simp add: undeployed_def)
    apply (rule holds_weaken [where P = "read_inv ks sc" and Q = "\<lambda>_. system_inv ks"]; simp?)
    apply (rule holds_option)
     apply (rule holds_then [OF del])
     apply (rule holds_option)
      apply (rule g)
     apply (rule holds_if)
      apply (rule g)+
    done
qed

lemma reconcile_holds:
  assumes "finalizer_laws lib" and "cleanable matches ks" and "rr_redis_client r = Connected"
    and "own = (sc_namespace ks, runnerName (sc_scenario ks))"
  shows "holds (system_inv ks) (Reconcile golib checks lib r (system_api matches ks own) req) (\<lambda>_. system_inv ks)"
proof -
  have c: "has_redis_client r" using assms(3) by (simp add: has_redis_client_def)
  have active: "holds (inv_if ks (requiresRedis sc)) (reconcile_active golib checks lib r (system_api matches ks own) sc)
      (\<lambda>_. system_inv ks)" for sc
    by (rule holds_weaken [OF active_keeps]) (simp_all add: inv_if_def)
  show ?thesis unfolding Reconcile_def [abs_def]
    apply (rule holds_then [OF get_scenario_reads])
    apply (rule holds_sum)
     apply (rule holds_pure, simp)
    apply (simp only: sum.case)
    apply (rule holds_if)
     apply (rule deletion_holds [OF assms(2-4)])
    apply (rule holds_then [OF ensure_finalizer_holds [OF assms(1) c]])
    apply (rule holds_sum)
     apply (rule holds_pure, simp)
    apply (simp add: active)
    done
qed

subsection \<open>Every reachable state\<close>

lemma reached_inv:
  assumes "finalizer_laws lib" and "cleanable matches (scope_of sc)" and "rr_redis_client r = Connected"
    and "ts_deletion_timestamp sc = None" and "\<forall>k \<in> set keys. \<not> owns (scope_of sc) k"
    and "reached golib checks lib r matches sc keys now s"
  shows "system_inv (scope_of sc) s"
  using assms(6)
proof (induction rule: reached.induct)
  case start
  then show ?case using assms(4,5) by (simp add: created_def system_inv_def clean_def)
next
  case (event s e)
  then show ?case by (simp add: happen_inv)
next
  case (reconcile s tape res s' tape')
  have "own_key sc = (sc_namespace (scope_of sc), runnerName (sc_scenario (scope_of sc)))"
    by (simp add: own_key_def scope_of_def)
  from reconcile_holds [OF assms(1-3) this, of golib checks "(ts_namespace sc, ts_name sc)"] reconcile
  show ?case unfolding holds_def by fastforce
qed

lemma clean_forever:
  "sy_scenario s = None \<Longrightarrow> clean ks s \<Longrightarrow> clean ks (fold (happen ks) es s)"
proof (induction es arbitrary: s)
  case (Cons e es)
  have "sy_scenario (happen ks e s) = None" "clean ks (happen ks e s)"
    using Cons.prems by (cases e; auto simp: clean_def split: option.splits)+
  then show ?case using Cons.IH by simp
qed simp

text \<open>
  C4. A deleted scenario leaves nothing in Redis. However the reconciliations interleave with edits, the
  life of the Pods, their writes and the passing of time, and whichever calls fail: once the
  resource is gone within the grace period after the request to delete it, no Pod that uses
  Redis runs, no Deployment can start one, and no key of the scenario exists, then and ever after,
  unless the Deployment had been deleted in the background while its Pods were running.
\<close>

theorem deletion_leaves_nothing:
  assumes "finalizer_laws lib" and "cleanable matches (scope_of sc)" and "rr_redis_client r = Connected"
    and "ts_deletion_timestamp sc = None" and "\<forall>k \<in> set keys. \<not> owns (scope_of sc) k"
    and "reached golib checks lib r matches sc keys now s"
    and "sy_scenario s = None" and "\<not> sy_background s" and "\<not> expired s"
  shows "clean (scope_of sc) (fold (happen (scope_of sc)) es s)"
proof (rule clean_forever [OF assms(7)])
  show "clean (scope_of sc) s"
    using reached_inv [OF assms(1-6)] assms(7-9) by (auto simp: system_inv_def excused_def guarded_def)
qed

subsection \<open>Runs\<close>

text \<open>Calls that are answered at once, and the reconciliations of a run without any interference.\<close>

definition quiet :: "nat \<Rightarrow> event list \<times> outcome" where "quiet = (\<lambda>_. ([], Answered))"

lemma remote_quiet: "remote ks call failure (s, quiet) = (fst (call s), (snd (call s), quiet))"
  by (simp add: remote_def quiet_def Let_def split: prod.splits)

abbreviation shop_reached :: "system \<Rightarrow> bool" where
  "shop_reached \<equiv> reached example_lib no_problems plain_lib shop_reconciler glob shop_scenario [] 0"

abbreviation shop_api :: "world kube_api" where
  "shop_api \<equiv> system_api glob (scope_of shop_scenario) (own_key shop_scenario)"

definition shop_pass :: "system \<Rightarrow> system" where
  "shop_pass s = fst (snd (Reconcile example_lib no_problems plain_lib shop_reconciler shop_api
     (ts_namespace shop_scenario, ts_name shop_scenario) (s, quiet)))"

lemma shop_pass_reached: "shop_reached s \<Longrightarrow> shop_reached (shop_pass s)"
  by (cases "Reconcile example_lib no_problems plain_lib shop_reconciler shop_api
     (ts_namespace shop_scenario, ts_name shop_scenario) (s, quiet)")
    (auto simp: shop_pass_def intro: reached.reconcile)

lemma shop_sel:
  "ts_namespace shop_scenario = ''load''" "ts_name shop_scenario = ''shop''" "ts_uid shop_scenario = ''u1''"
  "ts_deletion_timestamp shop_scenario = None" "ts_finalizers shop_scenario = []"
  "sp_suspend (ts_spec shop_scenario) = False"
  by (simp_all add: shop_scenario_def)

lemma shop_sel_scope: "scope_of shop_scenario = \<lparr>sc_namespace = ''load'', sc_scenario = ''shop'', sc_uid = ''u1''\<rparr>"
  by (simp add: scope_of_def shop_sel)

lemma shop_cleanable: "cleanable glob (scope_of shop_scenario)"
  using ref_keyspace.redis_match_axioms by (simp add: cleanable_def shop_sel_scope glob_free_def contains_any_def)

lemma plain_finalizer_laws: "finalizer_laws plain_lib"
  by (auto simp: finalizer_laws_def plain_lib_def)

text \<open>Without interference a status update changes the status of the scenario, and nothing else.\<close>

lemma quiet_status:
  assumes "sy_scenario s = Some sc"
  shows "\<exists>res status. reconcileResultForState lib (system_api matches ks own) scenario st (s, quiet)
    = (res, (s\<lparr>sy_scenario := Some (sc\<lparr>ts_status := status\<rparr>)\<rparr>, quiet))"
proof -
  have same: "s = s\<lparr>sy_scenario := Some (sc\<lparr>ts_status := ts_status sc\<rparr>)\<rparr>" using assms by simp
  show ?thesis
  proof (cases "kl_same_status lib (ts_status scenario) (status_for lib scenario st)")
    case True
    then show ?thesis
      using same by (intro exI [of _ "\<lparr>re_requeue_after = sn_requeue_after st, re_error = None\<rparr>"] exI [of _ "ts_status sc"])
        (simp add: reconcileResultForState_def updateScenarioStatus_def)
  next
    case False
    then show ?thesis
      by (auto simp: reconcileResultForState_def updateScenarioStatus_def Let_def system_api_def remote_quiet
        patch_status_call_def assms)
  qed
qed

definition shop_guarded :: traffic_scenario where
  "shop_guarded = shop_scenario\<lparr>ts_finalizers := [redisCleanupFinalizer]\<rparr>"

text \<open>The run of a scenario that is suspended and then deleted while its Pods are stopping.\<close>

lemma shop_started:
  "\<exists>m d status. shop_pass (created shop_scenario [] 0)
     = (created (shop_guarded\<lparr>ts_status := status\<rparr>) [] 0)\<lparr>sy_config_map := m, sy_deployment := Some d\<rparr>
   \<and> uses_redis d \<and> kl_controlled_by plain_lib (dp_meta d) shop_scenario"
proof -
  let ?s = "created shop_scenario [] 0" and ?g = "created shop_guarded [] 0"
  have r: "requiresRedis shop_scenario" "requiresRedis shop_guarded"
    by (simp_all add: shop_guarded_def shop_scenario_def requiresRedis_def storageBackend_def scenario_constants)
  have k: "own_key shop_scenario = (''load'', ''shop-runner'')" "runnerName ''shop'' = ''shop-runner''"
    by (simp_all add: own_key_def shop_sel runnerName_cases runnerNameSuffix_def)
  have f: "ensure_finalizer plain_lib shop_reconciler shop_api shop_scenario (?s, quiet) = (Inr shop_guarded, (?g, quiet))"
    using r by (simp add: ensure_finalizer_def has_redis_client_def shop_reconciler_def plain_lib_def shop_sel
        system_api_def remote_quiet update_scenario_call_def created_def shop_guarded_def)
  have v: "validateScenario example_lib no_problems shop_guarded = None"
    by (simp add: shop_guarded_def shop_accepted)
  let ?m = "(desiredConfigMap shop_guarded ''shop-runner'' (scenarioConfigJSON shop_guarded))
    \<lparr>cm_meta := owned_by shop_guarded (desired_meta shop_guarded ''shop-runner'')\<rparr>"
  let ?dep = "desiredDeployment shop_guarded ''shop-runner'' ''img'' '''' ''redis:6379'' (scenarioConfigJSON shop_guarded)"
  let ?d = "?dep\<lparr>dp_meta := owned_by shop_guarded (dp_meta ?dep)\<rparr>"
  have g: "ts_namespace shop_guarded = ''load''" "ts_name shop_guarded = ''shop''" "sp_suspend (ts_spec shop_guarded) = False"
    by (simp_all add: shop_guarded_def shop_sel)
  have c: "applyConfigMap plain_lib shop_api shop_guarded (desiredConfigMap shop_guarded ''shop-runner'' (scenarioConfigJSON shop_guarded))
      (?g, quiet) = (None, (?g\<lparr>sy_config_map := Some ?m\<rparr>, quiet))"
    by (simp add: applyConfigMap_def desiredConfigMap_def desired_meta_def k g system_api_def remote_quiet slot_get_def
        created_def plain_lib_def owned_by_def)
  have dm: "dp_meta ?dep = desired_meta shop_guarded ''shop-runner''" by (simp add: desiredDeployment_def)
  have d: "applyDeployment plain_lib shop_api shop_guarded ?dep (?g\<lparr>sy_config_map := Some ?m\<rparr>, quiet)
      = (Inr True, (?g\<lparr>sy_config_map := Some ?m, sy_deployment := Some ?d\<rparr>, quiet))"
    by (simp add: applyDeployment_def dm desired_meta_def k g system_api_def remote_quiet slot_get_def
        created_def plain_lib_def owned_by_def create_deployment_call_def)
  let ?w = "?g\<lparr>sy_config_map := Some ?m, sy_deployment := Some ?d\<rparr>"
  have "sy_scenario ?w = Some shop_guarded" by (simp add: created_def)
  from quiet_status [OF this] obtain res status where u: "reconcileResultForState plain_lib shop_api shop_guarded
      (progressingState reasonRunnerDeploymentChanged
        ''Runner Deployment was created or updated; waiting for rollout status'') (?w, quiet)
      = (res, (?w\<lparr>sy_scenario := Some (shop_guarded\<lparr>ts_status := status\<rparr>)\<rparr>, quiet))" by blast
  have a: "reconcile_active example_lib no_problems plain_lib shop_reconciler shop_api shop_guarded (?g, quiet)
      = (res, (?w\<lparr>sy_scenario := Some (shop_guarded\<lparr>ts_status := status\<rparr>)\<rparr>, quiet))"
    using c d u v by (simp add: reconcile_active_def Let_def apply_workload_def g k shop_reconciler_def)
  have "ka_get_scenario shop_api (''load'', ''shop'') (?s, quiet) = (Inr shop_scenario, (?s, quiet))"
    by (simp add: system_api_def remote_quiet slot_get_def shop_sel_scope created_def)
  then have p: "shop_pass ?s = ?w\<lparr>sy_scenario := Some (shop_guarded\<lparr>ts_status := status\<rparr>)\<rparr>"
    using f a by (simp add: shop_pass_def Reconcile_def shop_sel)
  have "uses_redis ?d" using r by (simp add: uses_redis_desired)
  moreover have "kl_controlled_by plain_lib (dp_meta ?d) shop_scenario"
    by (simp add: plain_lib_def owned_by_def owner_of_def shop_guarded_def)
  ultimately show ?thesis using p
    by (intro exI [of _ "Some ?m"] exI [of _ ?d] exI [of _ status]) (simp add: created_def)
qed

lemma quiet_suspension:
  assumes "sy_scenario s = Some sc" and "scope_of sc = scope_of shop_scenario" and "ts_deletion_timestamp sc = None"
    and "redisCleanupFinalizer \<in> set (ts_finalizers sc)" and "sp_suspend (ts_spec sc)"
    and "sy_deployment s = Some d" and "kl_controlled_by plain_lib (dp_meta d) shop_scenario"
  shows "\<exists>status. shop_pass s = s\<lparr>sy_deployment := None, sy_foreground := False, sy_background := sy_background s \<or> sy_pods s,
    sy_scenario := Some (sc\<lparr>ts_status := status\<rparr>)\<rparr>"
proof -
  let ?s = "s\<lparr>sy_deployment := None, sy_foreground := False, sy_background := sy_background s \<or> sy_pods s\<rparr>"
  have n: "ts_namespace sc = ''load''" "ts_name sc = ''shop''" "ts_uid sc = ''u1''"
    using assms(2) by (simp_all add: scope_of_def shop_sel)
  have k: "own_key shop_scenario = (''load'', runnerName ''shop'')" by (simp add: own_key_def shop_sel)
  have c: "ensureControlledBy plain_lib (dp_meta d) sc ''Deployment'' = None"
    using assms(7) by (simp add: ensureControlledBy_def plain_lib_def n shop_sel)
  have r: "ensure_finalizer plain_lib shop_reconciler shop_api sc w = (Inr sc, w)" for w
    using assms(4) by (simp add: ensure_finalizer_def plain_lib_def)
  have "sy_scenario ?s = Some sc" by (simp add: assms(1))
  from quiet_status [OF this] obtain res status where u: "reconcileResultForState plain_lib shop_api sc
      (progressingState reasonRunnerDeletionRequested ''Runner Deployment deletion is in progress'') (?s, quiet)
      = (res, (?s\<lparr>sy_scenario := Some (sc\<lparr>ts_status := status\<rparr>)\<rparr>, quiet))" by blast
  have g: "ka_get_deployment shop_api (''load'', runnerName ''shop'') (s, quiet) = (Inr d, (s, quiet))"
    "ka_delete_deployment shop_api False d (s, quiet) = (None, (?s, quiet))"
    "ka_get_scenario shop_api (''load'', ''shop'') (s, quiet) = (Inr sc, (s, quiet))"
    by (simp_all add: system_api_def remote_quiet slot_get_def k assms(1,6) delete_deployment_call_def shop_sel_scope)
  have "reconcile_active example_lib no_problems plain_lib shop_reconciler shop_api sc (s, quiet)
      = (res, (?s\<lparr>sy_scenario := Some (sc\<lparr>ts_status := status\<rparr>)\<rparr>, quiet))"
    using u by (simp add: reconcile_active_def Let_def assms(5) reconcile_suspended_def n g c)
  then show ?thesis
    using g(3) assms(3) by (auto simp: shop_pass_def Reconcile_def shop_sel r)
qed

lemma quiet_scan:
  "scan_patterns (system_api matches ks own) found ps (s, quiet)
    = (Inr (found @ concat (map (\<lambda>p. filter (matches p) (sy_keys s)) ps)), (s, quiet))"
  by (induction ps arbitrary: found) (simp_all add: system_api_def remote_quiet)

lemma quiet_deletion:
  assumes "sy_scenario s = Some sc" and "scope_of sc = scope_of shop_scenario" and "ts_deletion_timestamp sc = Some t"
    and "ts_finalizers sc = [redisCleanupFinalizer]" and "sy_deployment s = None"
  shows "shop_pass s = s\<lparr>sy_scenario := None,
    sy_keys := filter (\<lambda>k. \<forall>p \<in> set (CleanupPatterns (scope_of shop_scenario)). \<not> glob p k) (sy_keys s)\<rparr>"
proof -
  let ?ks = "scope_of shop_scenario"
  define found where "found = concat (map (\<lambda>p. filter (glob p) (sy_keys s)) (CleanupPatterns ?ks))"
  let ?s = "s\<lparr>sy_keys := filter (\<lambda>k. k \<notin> set found) (sy_keys s)\<rparr>"
  have n: "ts_namespace sc = ''load''" "ts_name sc = ''shop''" "ts_uid sc = ''u1''"
    using assms(2) by (simp_all add: scope_of_def shop_sel)
  have "NewScope ''load'' ''shop'' ''u1'' = Inr ?ks"
    by (simp add: NewScope_Inr err_simps scope_parts_def shop_sel_scope)
  moreover have "ka_get_scenario shop_api (''load'', ''shop'') (s, quiet) = (Inr sc, (s, quiet))"
    by (simp add: system_api_def remote_quiet slot_get_def assms(1) shop_sel_scope)
  moreover have "ka_get_deployment shop_api k (s, quiet) = (Inl NotFound, (s, quiet))" for k
    by (simp add: system_api_def remote_quiet slot_get_def assms(5))
  moreover have "ka_del shop_api found (s, quiet) = (None, (?s, quiet))"
    by (simp add: system_api_def remote_quiet)
  then have "deleteScenarioRedisKeys shop_reconciler shop_api ?ks (s, quiet) = (Some None, (?s, quiet))"
    by (cases "found = []")
      (simp_all add: deleteScenarioRedisKeys_def has_redis_client_def shop_reconciler_def quiet_scan flip: found_def)
  moreover have "ka_update_scenario shop_api (sc\<lparr>ts_finalizers := []\<rparr>) (?s, quiet)
      = (Inr (sc\<lparr>ts_finalizers := []\<rparr>), (?s\<lparr>sy_scenario := None\<rparr>, quiet))"
    using assms(1,3) by (simp add: system_api_def remote_quiet update_scenario_call_def)
  moreover have "has_redis_client shop_reconciler" by (simp add: has_redis_client_def shop_reconciler_def)
  ultimately have "shop_pass s = ?s\<lparr>sy_scenario := None\<rparr>" using assms(3,4)
    by (simp add: shop_pass_def Reconcile_def shop_sel reconcileDeletion_def plain_lib_def n cleanup_keys_def
        removeRedisCleanupFinalizer_def)
  moreover have "filter (\<lambda>k. k \<notin> set found) (sy_keys s)
      = filter (\<lambda>k. \<forall>p \<in> set (CleanupPatterns ?ks). \<not> glob p k) (sy_keys s)"
    by (rule filter_cong) (auto simp: found_def)
  ultimately show ?thesis by simp
qed

text \<open>
  The same run without the suspension: the Deployment is deleted in the foreground, and while its
  Pods are stopping one of them still writes. The finalizer stays until they are gone.
\<close>

lemma quiet_wait:
  assumes "sy_scenario s = Some sc" and "scope_of sc = scope_of shop_scenario" and "ts_deletion_timestamp sc = Some t"
    and "ts_finalizers sc = [redisCleanupFinalizer]" and "sy_deployment s = Some d"
    and "kl_controlled_by plain_lib (dp_meta d) shop_scenario" and "sy_now s = t"
  shows "shop_pass s = s\<lparr>sy_foreground := True\<rparr>"
proof -
  have n: "ts_namespace sc = ''load''" "ts_name sc = ''shop''" "ts_uid sc = ''u1''"
    using assms(2) by (simp_all add: scope_of_def shop_sel)
  have c: "ensureControlledBy plain_lib (dp_meta d) sc ''Deployment'' = None"
    using assms(6) by (simp add: ensureControlledBy_def plain_lib_def n shop_sel)
  have g: "ka_get_deployment shop_api (''load'', runnerName ''shop'') (s, quiet) = (Inr d, (s, quiet))"
    "ka_delete_deployment shop_api True d (s, quiet) = (None, (s\<lparr>sy_foreground := True\<rparr>, quiet))"
    "ka_get_scenario shop_api (''load'', ''shop'') (s, quiet) = (Inr sc, (s, quiet))"
    by (simp_all add: system_api_def remote_quiet slot_get_def assms(1,5) delete_deployment_call_def shop_sel_scope
        own_key_def shop_sel)
  have t: "ka_now shop_api (s\<lparr>sy_foreground := True\<rparr>, quiet) = (t, (s\<lparr>sy_foreground := True\<rparr>, quiet))"
    by (simp add: system_api_def assms(7))
  have f: "kl_has_finalizer plain_lib (ts_finalizers sc) redisCleanupFinalizer" by (simp add: plain_lib_def assms(4))
  show ?thesis
    by (simp add: shop_pass_def Reconcile_def shop_sel g assms(3) reconcileDeletion_def f n c wait_for_deletion_def
        redisCleanupGracePeriodExpired_def t redisCleanupGracePeriod_def)
qed

theorem deletion_leaves_nothing_witness:
  "\<exists>s d. clean (scope_of shop_scenario) s \<and> uses_redis d
     \<and> s = shop_pass (fold (happen (scope_of shop_scenario))
           [RunnerWrites LimiterKey, PodsStop, ForegroundDone, RunnerWrites LimiterKey]
           (shop_pass (fold (happen (scope_of shop_scenario)) [PodsStart, RequestDeletion]
              (shop_pass (created shop_scenario [] 0)))))"
proof -
  let ?ks = "scope_of shop_scenario"
  obtain m d status where 1: "shop_pass (created shop_scenario [] 0)
      = (created (shop_guarded\<lparr>ts_status := status\<rparr>) [] 0)\<lparr>sy_config_map := m, sy_deployment := Some d\<rparr>"
    and d: "uses_redis d" "kl_controlled_by plain_lib (dp_meta d) shop_scenario"
    using shop_started by blast
  define sc where "sc = shop_guarded\<lparr>ts_status := status, ts_deletion_timestamp := Some 0\<rparr>"
  define s2 where "s2 = fold (happen ?ks) [PodsStart, RequestDeletion] (shop_pass (created shop_scenario [] 0))"
  have v: "sy_scenario s2 = Some sc" "sy_deployment s2 = Some d" "sy_pods s2" "sy_now s2 = 0" "sy_keys s2 = []"
    "sy_deleted_at s2 = Some 0" "\<not> sy_background s2"
    unfolding s2_def 1 by (simp_all add: created_def d sc_def shop_guarded_def shop_sel)
  have sc: "scope_of sc = ?ks" "ts_deletion_timestamp sc = Some 0" "ts_finalizers sc = [redisCleanupFinalizer]"
    by (simp_all add: sc_def shop_guarded_def scope_of_def)
  define s3 where "s3 = fold (happen ?ks) [RunnerWrites LimiterKey, PodsStop, ForegroundDone, RunnerWrites LimiterKey] (shop_pass s2)"
  have w: "sy_scenario s3 = Some sc" "sy_deployment s3 = None" "sy_now s3 = 0" "sy_deleted_at s3 = Some 0" "\<not> sy_background s3"
    unfolding s3_def quiet_wait [OF v(1) sc v(2) d(2) v(4)] by (simp_all add: v)
  have p: "shop_pass s3 = s3\<lparr>sy_scenario := None,
      sy_keys := filter (\<lambda>k. \<forall>p \<in> set (CleanupPatterns ?ks). \<not> glob p k) (sy_keys s3)\<rparr>"
    by (rule quiet_deletion [OF w(1) sc w(2)])
  have e: "shop_reached (fold (happen ?ks) es s)" if "shop_reached s" for es s
    using that by (induction es arbitrary: s) (auto intro: reached.event)
  have r: "shop_reached (shop_pass s3)"
    unfolding s3_def s2_def by (intro shop_pass_reached e reached.start)
  have "clean ?ks (fold (happen ?ks) [] (shop_pass s3))"
    by (rule deletion_leaves_nothing [OF plain_finalizer_laws shop_cleanable _ _ _ r])
      (simp_all add: shop_reconciler_def shop_sel p w expired_def redisCleanupGracePeriod_def)
  then show ?thesis unfolding s3_def s2_def using d(1) by auto
qed


end
